(* ===== verification/Prelude.thy ===== *)
theory Prelude
  imports Main "HOL-Library.Word" "HOL-Library.State_Monad"
begin

text \<open>
  Shared vocabulary of the development: the machine types of the Go code, arithmetic of
  signed 64-bit integers read through \<open>sint\<close>, tables kept as lists of rows with a key
  column, and the collections of facts the component theories extend.
\<close>

section \<open>Types\<close>

type_synonym int64 = "64 word"
  \<comment> \<open>Go \<open>int64\<close> and Postgres \<open>BIGINT\<close>, two's complement, read by \<open>sint\<close>\<close>

type_synonym uuid = "128 word"
  \<comment> \<open>\<open>uuid.UUID\<close> is \<open>[16]byte\<close>; \<open>uuid.Nil\<close> is 0\<close>

type_synonym pgtime = int
  \<comment> \<open>\<open>TIMESTAMPTZ\<close>: microseconds\<close>

type_synonym duration = int
  \<comment> \<open>\<open>time.Duration\<close>: nanoseconds\<close>

named_theorems run_simps \<open>what one operation does to the state\<close>
named_theorems wf_intros \<open>operations that keep the well-formedness of the tables\<close>

section \<open>Signed 64-bit arithmetic\<close>

lemma sint_int64_range: "- (2 ^ 63) \<le> sint (a :: int64)" "sint (a :: int64) < 2 ^ 63"
  using sint_ge [of a] sint_lt [of a] by simp_all

lemma sint_int64_plus_exact:
  fixes a b :: int64
  assumes "0 \<le> sint a" "0 \<le> sint b" "sint a + sint b < 2 ^ 63"
  shows "sint (a + b) = sint a + sint b"
  using assms by (simp add: sint_word_add signed_take_bit_int_eq_self)

lemma sint_int64_plus_wraps:
  fixes a b :: int64
  assumes "0 \<le> sint a" "0 \<le> sint b" "2 ^ 63 \<le> sint a + sint b"
  shows "sint (a + b) = sint a + sint b - 2 ^ 64" "sint (a + b) < 0"
proof -
  have "sint a + sint b < 2 ^ 64"
    using sint_int64_range(2) [of a] sint_int64_range(2) [of b] by simp
  then show 1: "sint (a + b) = sint a + sint b - 2 ^ 64"
    using assms
    by (simp add: sint_word_add signed_take_bit_eq_take_bit_shift take_bit_eq_mod
        minus_mod_self2 [of "sint a + sint b + 2 ^ 63" "2 ^ 64", symmetric, simplified]
        del: minus_mod_self2)
  show "sint (a + b) < 0"
    unfolding 1 using \<open>sint a + sint b < 2 ^ 64\<close> by simp
qed

text \<open>
  A credit of a non-negative amount to a non-negative balance is either exact or negative:
  this is why the \<open>CHECK (balance_paise >= 0)\<close> of the schema catches every overflow.
\<close>

lemma sint_int64_plus_nonneg_iff:
  fixes a b :: int64
  assumes "0 \<le> sint a" "0 \<le> sint b"
  shows "0 \<le> sint (a + b) \<longleftrightarrow> sint a + sint b < 2 ^ 63"
  using sint_int64_plus_exact [OF assms] sint_int64_plus_wraps [OF assms] assms by linarith

lemma sint_int64_plus_nonneg:
  fixes a b :: int64
  assumes "0 \<le> sint a" "0 \<le> sint b" "0 \<le> sint (a + b)"
  shows "sint (a + b) = sint a + sint b"
  using assms sint_int64_plus_nonneg_iff sint_int64_plus_exact by blast

lemma sint_int64_plus_bound:
  fixes a b :: int64
  shows "0 \<le> sint (a + b) \<Longrightarrow> 0 \<le> sint a \<Longrightarrow> 0 \<le> sint b \<Longrightarrow> sint a + sint b < 2 ^ 63"
  using sint_int64_plus_nonneg_iff by blast

lemma sint_int64_minus_exact:
  fixes a b :: int64
  assumes "0 \<le> sint a" "0 \<le> sint b"
  shows "sint (a - b) = sint a - sint b"
proof -
  have "- (2 ^ 63) \<le> sint a - sint b" "sint a - sint b < 2 ^ 63"
    using assms sint_int64_range(2) [of a] sint_int64_range(2) [of b] by simp_all
  then show ?thesis
    by (simp add: sint_word_diff signed_take_bit_int_eq_self)
qed

lemma int64_sless_iff: "a <s b \<longleftrightarrow> sint a < sint (b :: int64)"
  by (rule word_sless_alt)

lemma int64_sle_iff: "a \<le>s b \<longleftrightarrow> sint a \<le> sint (b :: int64)"
  by (rule word_sle_eq)

text \<open>An unbounded Postgres numeric that fits a Go \<open>int64\<close> survives the conversion.\<close>

definition fits_int64 :: "int \<Rightarrow> bool" where
  "fits_int64 i \<longleftrightarrow> - (2 ^ 63) \<le> i \<and> i < 2 ^ 63"

lemma sint_of_int_int64: "fits_int64 i \<Longrightarrow> sint (word_of_int i :: int64) = i"
  by (simp add: fits_int64_def sint_sbintrunc' signed_take_bit_int_eq_self)

lemma fits_int64_sint [simp]: "fits_int64 (sint (a :: int64))"
  using sint_int64_range [of a] by (simp add: fits_int64_def)

section \<open>Tables: lists of rows with a key column\<close>

text \<open>\<open>UPDATE ... WHERE key = k\<close> rewrites every row the condition selects.\<close>

definition update_where :: "('r \<Rightarrow> bool) \<Rightarrow> ('r \<Rightarrow> 'r) \<Rightarrow> 'r list \<Rightarrow> 'r list" where
  "update_where p f rs = map (\<lambda>r. if p r then f r else r) rs"

lemma length_update_where [simp]: "length (update_where p f rs) = length rs"
  by (simp add: update_where_def)

lemma update_where_append [simp]:
  "update_where p f (xs @ ys) = update_where p f xs @ update_where p f ys"
  by (simp add: update_where_def)

lemma set_update_where: "set (update_where p f rs) = f ` {r \<in> set rs. p r} \<union> {r \<in> set rs. \<not> p r}"
  by (auto simp: update_where_def)

lemma update_where_none: "(\<And>r. r \<in> set rs \<Longrightarrow> \<not> p r) \<Longrightarrow> update_where p f rs = rs"
  by (auto simp: update_where_def intro: map_idI)

text \<open>A column the update does not write keeps its values.\<close>

lemma map_update_where_column:
  "(\<And>r. r \<in> set rs \<Longrightarrow> p r \<Longrightarrow> c (f r) = c r) \<Longrightarrow> map c (update_where p f rs) = map c rs"
  by (auto simp: update_where_def)

lemma find_key_Some_iff:
  assumes "distinct (map key rs)"
  shows "find (\<lambda>r. key r = k) rs = Some r \<longleftrightarrow> r \<in> set rs \<and> key r = k"
proof
  assume "find (\<lambda>r. key r = k) rs = Some r"
  then show "r \<in> set rs \<and> key r = k"
    by (auto simp: find_Some_iff)
next
  assume r: "r \<in> set rs \<and> key r = k"
  then obtain r' where r': "find (\<lambda>r. key r = k) rs = Some r'"
    by (cases "find (\<lambda>r. key r = k) rs") (auto simp: find_None_iff)
  then have "r' \<in> set rs \<and> key r' = k"
    by (auto simp: find_Some_iff)
  with r assms have "r' = r"
    by (metis (no_types, lifting) distinct_map inj_on_def)
  with r' show "find (\<lambda>r. key r = k) rs = Some r" by simp
qed

lemma find_SomeD: "find p rs = Some r \<Longrightarrow> r \<in> set rs \<and> p r"
  by (auto simp: find_Some_iff)

lemma find_NoneD: "find p rs = None \<Longrightarrow> r \<in> set rs \<Longrightarrow> \<not> p r"
  by (auto simp: find_None_iff)

text \<open>Changing one row of a keyed table changes a column sum by the difference of that row.\<close>

lemma sum_update_where_key:
  fixes v :: "'r \<Rightarrow> 'n :: ab_group_add"
  assumes "distinct (map key rs)" "r \<in> set rs" "key r = k"
  shows "sum_list (map v (update_where (\<lambda>r. key r = k) f rs)) = sum_list (map v rs) - v r + v (f r)"
  using assms
proof (induction rs)
  case Nil
  then show ?case by simp
next
  case (Cons x xs)
  show ?case
  proof (cases "x = r")
    case True
    with Cons.prems have "\<And>y. y \<in> set xs \<Longrightarrow> key y \<noteq> k" by (auto simp: rev_image_eqI)
    then have "update_where (\<lambda>r. key r = k) f xs = xs" by (rule update_where_none)
    with True Cons.prems show ?thesis by (simp add: update_where_def)
  next
    case False
    with Cons.prems have "r \<in> set xs" "key x \<noteq> k" by force+
    with Cons show ?thesis by (simp add: update_where_def)
  qed
qed

lemma sum_list_filter_zero:
  fixes v :: "'r \<Rightarrow> int"
  shows "sum_list (map v (filter p rs)) = sum_list (map (\<lambda>r. if p r then v r else 0) rs)"
  by (induction rs) auto

lemma sum_list_map_mono_int:
  fixes f g :: "'r \<Rightarrow> int"
  shows "(\<And>r. r \<in> set rs \<Longrightarrow> f r \<le> g r) \<Longrightarrow> sum_list (map f rs) \<le> sum_list (map g rs)"
  by (induction rs) (auto intro: add_mono)

lemma sum_list_map_nonneg_int:
  fixes v :: "'r \<Rightarrow> int"
  shows "(\<And>r. r \<in> set rs \<Longrightarrow> 0 \<le> v r) \<Longrightarrow> 0 \<le> sum_list (map v rs)"
  by (rule sum_list_nonneg) auto

lemma value_le_sum:
  fixes v :: "'r \<Rightarrow> int"
  shows "r \<in> set rs \<Longrightarrow> (\<And>r. r \<in> set rs \<Longrightarrow> 0 \<le> v r) \<Longrightarrow> v r \<le> sum_list (map v rs)"
proof (induction rs)
  case (Cons x xs)
  then have "0 \<le> sum_list (map v xs)" "0 \<le> v x" by (auto intro: sum_list_map_nonneg_int)
  with Cons show ?case by (auto intro: add_increasing)
qed simp

lemma two_values_le_sum:
  fixes v :: "'r \<Rightarrow> int"
  assumes "r \<in> set rs" "r' \<in> set rs" "r \<noteq> r'" "\<And>r. r \<in> set rs \<Longrightarrow> 0 \<le> v r"
  shows "v r + v r' \<le> sum_list (map v rs)"
  using assms
proof (induction rs)
  case (Cons x xs)
  have le: "y \<in> set xs \<Longrightarrow> v y \<le> sum_list (map v xs)" for y
    using Cons.prems(4) by (intro value_le_sum) auto
  show ?case
  proof (cases "r \<in> set xs \<and> r' \<in> set xs")
    case True
    then show ?thesis using Cons.IH Cons.prems by (auto intro: add_increasing)
  next
    case False
    then show ?thesis using Cons.prems le by auto
  qed
qed simp

section \<open>Running the state monad\<close>

lemma run_state_if: "run_state (if b then m else n) s = (if b then run_state m s else run_state n s)"
  by simp

lemma run_state_case_sum:
  "run_state (case r of Inl e \<Rightarrow> f e | Inr a \<Rightarrow> g a) s
     = (case r of Inl e \<Rightarrow> run_state (f e) s | Inr a \<Rightarrow> run_state (g a) s)"
  by (cases r) simp_all

text \<open>A computation that keeps a predicate of the state, whatever it returns.\<close>

definition keeps :: "('s \<Rightarrow> bool) \<Rightarrow> ('s, 'a) state \<Rightarrow> bool" where
  "keeps P m \<longleftrightarrow> (\<forall>s. P s \<longrightarrow> P (snd (run_state m s)))"

named_theorems keeps_intros \<open>rules for computations that keep a predicate\<close>

lemma keepsI: "(\<And>s. P s \<Longrightarrow> P (snd (run_state m s))) \<Longrightarrow> keeps P m"
  by (simp add: keeps_def)

lemma keepsD: "keeps P m \<Longrightarrow> P s \<Longrightarrow> P (snd (run_state m s))"
  by (simp add: keeps_def)

lemma keeps_return [keeps_intros]: "keeps P (State_Monad.return a)"
  by (simp add: keeps_def)

lemma keeps_get [keeps_intros]: "keeps P State_Monad.get"
  by (simp add: keeps_def)

lemma keeps_bind [keeps_intros]:
  "keeps P m \<Longrightarrow> (\<And>a. keeps P (f a)) \<Longrightarrow> keeps P (State_Monad.bind m f)"
  by (simp add: keeps_def split_beta)

lemma keeps_if [keeps_intros]:
  "(b \<Longrightarrow> keeps P m) \<Longrightarrow> (\<not> b \<Longrightarrow> keeps P n) \<Longrightarrow> keeps P (if b then m else n)"
  by simp

lemma keeps_case_sum [keeps_intros]:
  "(\<And>e. keeps P (f e)) \<Longrightarrow> (\<And>a. keeps P (g a)) \<Longrightarrow> keeps P (case r of Inl e \<Rightarrow> f e | Inr a \<Rightarrow> g a)"
  by (cases r) simp_all

lemma keeps_case_option [keeps_intros]:
  "keeps P m \<Longrightarrow> (\<And>a. keeps P (g a)) \<Longrightarrow> keeps P (case r of None \<Rightarrow> m | Some a \<Rightarrow> g a)"
  by (cases r) simp_all

lemma keeps_case_prod [keeps_intros]:
  "(\<And>a b. keeps P (f a b)) \<Longrightarrow> keeps P (case p of (a, b) \<Rightarrow> f a b)"
  by (cases p) simp

lemma keeps_let [keeps_intros]: "(\<And>a. keeps P (f a)) \<Longrightarrow> keeps P (let a = v in f a)"
  by (simp add: Let_def)

end
