(* ===== verification/Errors.thy ===== *)
theory Errors
  imports Prelude
begin

text \<open>
  The Go error values of the program: the sentinels of \<open>internal/repository/store.go\<close>
  and \<open>internal/service/errors.go\<close>, the two private sentinels of
  \<open>internal/service/transfer.go\<close>, the errors of the Postgres driver the code inspects,
  and wrapping with \<open>fmt.Errorf("...: %w", err)\<close>. \<open>errors.Is\<close> and
  \<open>errors.As\<close> walk the wrapping chain.
\<close>

datatype goerr =
    RepoErrNotFound
  | RepoErrDuplicate
  | ErrUsernameTaken
  | ErrInvalidCredentials
  | ErrUnknownRecipient
  | ErrSelfTransfer
  | ErrNoWallet
  | ErrInsufficientFunds
  | ErrIdempotencyConflict
  | ErrNotFound
  | ErrClaimWindowExpired
  | ValidationError string
  | ErrKeyExists          \<comment> \<open>\<open>errKeyExists\<close>\<close>
  | ErrClaimNotApplied    \<comment> \<open>\<open>errClaimNotApplied\<close>\<close>
  | PgxErrNoRows          \<comment> \<open>\<open>pgx.ErrNoRows\<close>\<close>
  | PgError string        \<comment> \<open>\<open>pgconn.PgError\<close>, by its SQLSTATE \<open>Code\<close>\<close>
  | OtherError string     \<comment> \<open>any other error value: connection, deadline, scan, a library's\<close>
  | Wrapped string goerr  \<comment> \<open>\<open>fmt.Errorf("prefix: %w", err)\<close>\<close>

text \<open>The text of \<open>err.Error()\<close>; a driver error's text stands for itself.\<close>

fun error_text :: "goerr \<Rightarrow> string" where
  "error_text RepoErrNotFound = ''repository: not found''"
| "error_text RepoErrDuplicate = ''repository: duplicate''"
| "error_text ErrUsernameTaken = ''username_taken''"
| "error_text ErrInvalidCredentials = ''invalid_credentials''"
| "error_text ErrUnknownRecipient = ''unknown_recipient''"
| "error_text ErrSelfTransfer = ''self_transfer''"
| "error_text ErrNoWallet = ''no_wallet''"
| "error_text ErrInsufficientFunds = ''insufficient_funds''"
| "error_text ErrIdempotencyConflict = ''idempotency_conflict''"
| "error_text ErrNotFound = ''not_found''"
| "error_text ErrClaimWindowExpired = ''claim_window_expired''"
| "error_text (ValidationError msg) = msg"
| "error_text ErrKeyExists = ''idempotency key already claimed''"
| "error_text ErrClaimNotApplied = ''claim not applied''"
| "error_text PgxErrNoRows = ''no rows in result set''"
| "error_text (PgError code) = ''SQLSTATE '' @ code"
| "error_text (OtherError msg) = msg"
| "error_text (Wrapped prefix e) = prefix @ '': '' @ error_text e"

definition Invalid :: "string \<Rightarrow> goerr" where
  "Invalid msg = ValidationError msg"

fun errors_Is :: "goerr \<Rightarrow> goerr \<Rightarrow> bool" where
  "errors_Is (Wrapped p e) target = (Wrapped p e = target \<or> errors_Is e target)"
| "errors_Is e target = (e = target)"

fun errors_As_validation :: "goerr \<Rightarrow> string option" where
  "errors_As_validation (ValidationError msg) = Some msg"
| "errors_As_validation (Wrapped p e) = errors_As_validation e"
| "errors_As_validation _ = None"

fun errors_As_pg :: "goerr \<Rightarrow> string option" where
  "errors_As_pg (PgError code) = Some code"
| "errors_As_pg (Wrapped p e) = errors_As_pg e"
| "errors_As_pg _ = None"

definition isUniqueViolation :: "goerr \<Rightarrow> bool" where
  "isUniqueViolation err \<longleftrightarrow> errors_As_pg err = Some ''23505''"

definition mapNoRows :: "goerr \<Rightarrow> goerr" where
  "mapNoRows err = (if errors_Is err PgxErrNoRows then RepoErrNotFound else err)"

definition mapRepoNotFound :: "goerr \<Rightarrow> goerr \<Rightarrow> goerr" where
  "mapRepoNotFound err domainErr = (if errors_Is err RepoErrNotFound then domainErr else err)"

text \<open>Errors of the connection or of the server, never a value the program itself makes.\<close>

fun infra_error :: "goerr \<Rightarrow> bool" where
  "infra_error (PgError code) = True"
| "infra_error (OtherError msg) = True"
| "infra_error (Wrapped p e) = infra_error e"
| "infra_error _ = False"

lemma infra_error_not_Is:
  assumes "infra_error e" "\<not> infra_error t"
  shows "\<not> errors_Is e t"
  using assms by (induction e) auto

lemma infra_error_not_validation: "infra_error e \<Longrightarrow> errors_As_validation e = None"
  by (induction e) auto

lemma mapNoRows_simps [simp]:
  "mapNoRows PgxErrNoRows = RepoErrNotFound"
  "mapNoRows (OtherError m) = OtherError m"
  "mapNoRows (PgError c) = PgError c"
  by (simp_all add: mapNoRows_def)

lemma mapNoRows_infra [simp]: "infra_error e \<Longrightarrow> mapNoRows e = e"
  by (simp add: mapNoRows_def infra_error_not_Is)

lemma mapRepoNotFound_simps [simp]:
  "mapRepoNotFound RepoErrNotFound d = d"
  "infra_error e \<Longrightarrow> mapRepoNotFound e d = e"
  by (simp_all add: mapRepoNotFound_def infra_error_not_Is)

end
