(* ===== verification/Models.thy ===== *)
theory Models
  imports Prelude
begin

text \<open>
  The structs of \<open>internal/models/models.go\<close>. They are also the rows of the three
  tables. Field names that two structs share carry a prefix (\<open>u\<close>, \<open>w\<close>, \<open>tr\<close>).
\<close>

record user =
  uID :: uuid
  Username :: string
  PasswordHash :: string
  uCreatedAt :: pgtime

record wallet =
  wUserID :: uuid
  BalancePaise :: int64
  wCreatedAt :: pgtime
  wUpdatedAt :: pgtime

definition TransferCompleted :: string where
  "TransferCompleted = ''completed''"

definition TransferReversed :: string where
  "TransferReversed = ''reversed''"

record transfer =
  trID :: uuid
  SenderID :: uuid
  RecipientID :: uuid
  AmountPaise :: int64
  IdempotencyKey :: string
  BodyHash :: string
  SenderBalanceAfter :: int64
  Status :: string
  trCreatedAt :: pgtime
  ReversedAt :: "pgtime option"
  SenderBalanceAfterReversal :: "int64 option"

lemma status_distinct [simp]:
  "TransferCompleted \<noteq> TransferReversed" "TransferReversed \<noteq> TransferCompleted"
  by (simp_all add: TransferCompleted_def TransferReversed_def)

end
