(* ===== verification/Database.thy ===== *)
theory Database
  imports Errors Models
begin

text \<open>
  The three tables of \<open>migrations/*.up.sql\<close> as lists of rows, the writes a statement
  makes, and the SQL statements of \<open>internal/repository\<close>, each as a function from
  the tables it sees to its result and its writes. A statement that breaks a constraint of
  the schema fails with the constraint's SQLSTATE and writes nothing; a result without rows
  is \<open>pgx.ErrNoRows\<close>. The constraints themselves are the predicate \<open>schema_ok\<close>,
  and every statement keeps it.
\<close>

section \<open>Tables and writes\<close>

record db =
  users :: "user list"
  wallets :: "wallet list"
  transfers :: "transfer list"

datatype db_write =
    InsUser user
  | InsWallet wallet
  | InsTransfer transfer
  | SetBalance uuid int64 pgtime
  | SetReversed uuid pgtime int64

definition set_balance :: "int64 \<Rightarrow> pgtime \<Rightarrow> wallet \<Rightarrow> wallet" where
  "set_balance b now w = w\<lparr>BalancePaise := b, wUpdatedAt := now\<rparr>"

definition set_reversed :: "pgtime \<Rightarrow> int64 \<Rightarrow> transfer \<Rightarrow> transfer" where
  "set_reversed now b t =
     t\<lparr>Status := TransferReversed, ReversedAt := Some now, SenderBalanceAfterReversal := Some b\<rparr>"

fun apply_write :: "db_write \<Rightarrow> db \<Rightarrow> db" where
  "apply_write (InsUser u) d = d\<lparr>users := users d @ [u]\<rparr>"
| "apply_write (InsWallet w) d = d\<lparr>wallets := wallets d @ [w]\<rparr>"
| "apply_write (InsTransfer t) d = d\<lparr>transfers := transfers d @ [t]\<rparr>"
| "apply_write (SetBalance u b now) d =
     d\<lparr>wallets := update_where (\<lambda>w. wUserID w = u) (set_balance b now) (wallets d)\<rparr>"
| "apply_write (SetReversed i now b) d =
     d\<lparr>transfers := update_where (\<lambda>t. trID t = i) (set_reversed now b) (transfers d)\<rparr>"

definition apply_writes :: "db_write list \<Rightarrow> db \<Rightarrow> db" where
  "apply_writes ws d = fold apply_write ws d"

lemma apply_writes_simps [simp]:
  "apply_writes [] d = d"
  "apply_writes (x # ws) d = apply_writes ws (apply_write x d)"
  "apply_writes (ws @ vs) d = apply_writes vs (apply_writes ws d)"
  by (simp_all add: apply_writes_def)

section \<open>Constraints of the schema\<close>

definition has_user :: "uuid \<Rightarrow> db \<Rightarrow> bool" where
  "has_user u d \<longleftrightarrow> u \<in> uID ` set (users d)"

definition has_wallet :: "uuid \<Rightarrow> db \<Rightarrow> bool" where
  "has_wallet u d \<longleftrightarrow> u \<in> wUserID ` set (wallets d)"

definition transfer_key :: "transfer \<Rightarrow> uuid \<times> string" where
  "transfer_key t = (SenderID t, IdempotencyKey t)"

definition users_ok :: "db \<Rightarrow> bool" where
  "users_ok d \<longleftrightarrow> distinct (map uID (users d)) \<and> distinct (map Username (users d))"

definition wallets_ok :: "db \<Rightarrow> bool" where
  "wallets_ok d \<longleftrightarrow> distinct (map wUserID (wallets d)) \<and>
     (\<forall>w \<in> set (wallets d). has_user (wUserID w) d \<and> 0 \<le> sint (BalancePaise w))"

definition transfers_ok :: "db \<Rightarrow> bool" where
  "transfers_ok d \<longleftrightarrow> distinct (map trID (transfers d)) \<and> distinct (map transfer_key (transfers d)) \<and>
     (\<forall>t \<in> set (transfers d). has_user (SenderID t) d \<and> has_user (RecipientID t) d \<and>
        0 < sint (AmountPaise t) \<and> Status t \<in> {TransferCompleted, TransferReversed})"

definition schema_ok :: "db \<Rightarrow> bool" where
  "schema_ok d \<longleftrightarrow> users_ok d \<and> wallets_ok d \<and> transfers_ok d"

definition empty_db :: db where
  "empty_db = \<lparr>users = [], wallets = [], transfers = []\<rparr>"

section \<open>Statements\<close>

type_synonym 'a sql_result = "(goerr + 'a) \<times> db_write list"

definition unique_violation :: goerr where "unique_violation = PgError ''23505''"
definition fk_violation :: goerr where "fk_violation = PgError ''23503''"
definition check_violation :: goerr where "check_violation = PgError ''23514''"

text \<open>\<open>INSERT INTO users (username, password_hash) ... RETURNING ...\<close>\<close>

definition sql_insert_user :: "pgtime \<Rightarrow> uuid \<Rightarrow> string \<Rightarrow> string \<Rightarrow> db \<Rightarrow> user sql_result" where
  "sql_insert_user now fresh name hash d =
     (if fresh \<in> uID ` set (users d) \<or> name \<in> Username ` set (users d) then (Inl unique_violation, [])
      else let u = \<lparr>uID = fresh, Username = name, PasswordHash = hash, uCreatedAt = now\<rparr>
           in (Inr u, [InsUser u]))"

definition row_result :: "'r option \<Rightarrow> goerr + 'r" where
  "row_result r = (case r of None \<Rightarrow> Inl PgxErrNoRows | Some x \<Rightarrow> Inr x)"

definition sql_user_by_name :: "string \<Rightarrow> db \<Rightarrow> user sql_result" where
  "sql_user_by_name name d = (row_result (find (\<lambda>u. Username u = name) (users d)), [])"

definition sql_user_by_id :: "uuid \<Rightarrow> db \<Rightarrow> user sql_result" where
  "sql_user_by_id i d = (row_result (find (\<lambda>u. uID u = i) (users d)), [])"

text \<open>\<open>SELECT EXISTS (SELECT 1 FROM wallets WHERE user_id = $1)\<close>\<close>

definition sql_wallet_exists :: "uuid \<Rightarrow> db \<Rightarrow> bool sql_result" where
  "sql_wallet_exists u d = (Inr (has_wallet u d), [])"

text \<open>
  \<open>INSERT INTO wallets ... ON CONFLICT (user_id) DO NOTHING\<close>, with the number of rows
  affected. Postgres evaluates the \<open>CHECK\<close> before it looks for a conflict, and the
  foreign key at the end of the statement.
\<close>

definition sql_insert_wallet :: "pgtime \<Rightarrow> uuid \<Rightarrow> int64 \<Rightarrow> db \<Rightarrow> nat sql_result" where
  "sql_insert_wallet now u b d =
     (if sint b < 0 then (Inl check_violation, [])
      else if has_wallet u d then (Inr 0, [])
      else if \<not> has_user u d then (Inl fk_violation, [])
      else (Inr 1, [InsWallet \<lparr>wUserID = u, BalancePaise = b, wCreatedAt = now, wUpdatedAt = now\<rparr>]))"

text \<open>\<open>SELECT balance_paise FROM wallets WHERE user_id = $1\<close>, with or without \<open>FOR UPDATE\<close>\<close>

definition sql_balance :: "uuid \<Rightarrow> db \<Rightarrow> int64 sql_result" where
  "sql_balance u d = (row_result (map_option BalancePaise (find (\<lambda>w. wUserID w = u) (wallets d))), [])"

text \<open>
  \<open>INSERT INTO transfers ... ON CONFLICT (sender_id, idempotency_key) DO NOTHING
  RETURNING id\<close>: the row takes the six columns of the statement, the other columns their
  defaults; a conflict returns no row.
\<close>

definition new_transfer_row :: "pgtime \<Rightarrow> uuid \<Rightarrow> transfer \<Rightarrow> transfer" where
  "new_transfer_row now fresh t =
     \<lparr>trID = fresh, SenderID = SenderID t, RecipientID = RecipientID t, AmountPaise = AmountPaise t,
      IdempotencyKey = IdempotencyKey t, BodyHash = BodyHash t,
      SenderBalanceAfter = SenderBalanceAfter t, Status = TransferCompleted, trCreatedAt = now,
      ReversedAt = None, SenderBalanceAfterReversal = None\<rparr>"

definition sql_insert_transfer :: "pgtime \<Rightarrow> uuid \<Rightarrow> transfer \<Rightarrow> db \<Rightarrow> uuid sql_result" where
  "sql_insert_transfer now fresh t d =
     (if sint (AmountPaise t) \<le> 0 then (Inl check_violation, [])
      else if transfer_key t \<in> transfer_key ` set (transfers d) then (Inl PgxErrNoRows, [])
      else if fresh \<in> trID ` set (transfers d) then (Inl unique_violation, [])
      else if \<not> has_user (SenderID t) d \<or> \<not> has_user (RecipientID t) d then (Inl fk_violation, [])
      else (Inr fresh, [InsTransfer (new_transfer_row now fresh t)]))"

text \<open>
  The incoming transfers of a user that are still claimable: completed and created after
  the cutoff \<open>now() - make_interval(secs => window)\<close>. \<open>SUM\<close> over \<open>BIGINT\<close> is an
  unbounded numeric; scanning it into an \<open>int64\<close> fails when it does not fit.
\<close>

definition active_hold :: "pgtime \<Rightarrow> transfer \<Rightarrow> bool" where
  "active_hold cutoff t \<longleftrightarrow> Status t = TransferCompleted \<and> cutoff < trCreatedAt t"

definition held_sum :: "pgtime \<Rightarrow> uuid \<Rightarrow> db \<Rightarrow> int" where
  "held_sum cutoff u d =
     sum_list (map (\<lambda>t. sint (AmountPaise t))
       (filter (\<lambda>t. RecipientID t = u \<and> active_hold cutoff t) (transfers d)))"

definition scan_int64 :: "int \<Rightarrow> goerr + int64" where
  "scan_int64 i = (if fits_int64 i then Inr (word_of_int i) else Inl (OtherError ''numeric out of int64 range''))"

definition sql_sum_active_holds :: "pgtime \<Rightarrow> uuid \<Rightarrow> db \<Rightarrow> int64 sql_result" where
  "sql_sum_active_holds cutoff u d = (scan_int64 (held_sum cutoff u d), [])"

definition sql_wallet_balances :: "pgtime \<Rightarrow> uuid \<Rightarrow> db \<Rightarrow> (int64 \<times> int64) sql_result" where
  "sql_wallet_balances cutoff u d =
     (case find (\<lambda>w. wUserID w = u) (wallets d) of
        None \<Rightarrow> (Inl PgxErrNoRows, [])
      | Some w \<Rightarrow> (case scan_int64 (sint (BalancePaise w) - held_sum cutoff u d) of
            Inl err \<Rightarrow> (Inl err, [])
          | Inr available \<Rightarrow> (Inr (BalancePaise w, available), [])))"

text \<open>\<open>UPDATE transfers SET status = 'reversed', ... WHERE id = $1 AND status = 'completed'
  AND created_at > now() - ... RETURNING reversed_at\<close>\<close>

definition sql_mark_reversed :: "pgtime \<Rightarrow> pgtime \<Rightarrow> uuid \<Rightarrow> int64 \<Rightarrow> db \<Rightarrow> pgtime sql_result" where
  "sql_mark_reversed now cutoff i b d =
     (if \<exists>t \<in> set (transfers d). trID t = i \<and> active_hold cutoff t
      then (Inr now, [SetReversed i now b]) else (Inl PgxErrNoRows, []))"

definition sql_update_balance :: "pgtime \<Rightarrow> uuid \<Rightarrow> int64 \<Rightarrow> db \<Rightarrow> unit sql_result" where
  "sql_update_balance now u b d =
     (if has_wallet u d then
        (if sint b < 0 then (Inl check_violation, []) else (Inr (), [SetBalance u b now]))
      else (Inr (), []))"

definition sql_transfer_by_id :: "uuid \<Rightarrow> db \<Rightarrow> transfer sql_result" where
  "sql_transfer_by_id i d = (row_result (find (\<lambda>t. trID t = i) (transfers d)), [])"

definition sql_transfer_by_key :: "uuid \<Rightarrow> string \<Rightarrow> db \<Rightarrow> transfer sql_result" where
  "sql_transfer_by_key s k d = (row_result (find (\<lambda>t. SenderID t = s \<and> IdempotencyKey t = k) (transfers d)), [])"

section \<open>Every statement keeps the constraints\<close>

lemma has_user_simps [simp]:
  "has_user u (d\<lparr>wallets := ws\<rparr>) = has_user u d"
  "has_user u (d\<lparr>transfers := ts\<rparr>) = has_user u d"
  by (simp_all add: has_user_def)

lemma has_user_append [simp]:
  "has_user u (d\<lparr>users := users d @ [v]\<rparr>) \<longleftrightarrow> has_user u d \<or> u = uID v"
  by (auto simp: has_user_def)

lemma schema_ok_empty [simp]: "schema_ok empty_db"
  by (simp add: schema_ok_def users_ok_def wallets_ok_def transfers_ok_def empty_db_def)

lemma schema_ok_insert_user [wf_intros]:
  assumes "schema_ok d"
  shows "schema_ok (apply_writes (snd (sql_insert_user now fresh name hash d)) d)"
  using assms
  by (auto simp: sql_insert_user_def schema_ok_def users_ok_def wallets_ok_def transfers_ok_def Let_def)

lemma schema_ok_insert_wallet [wf_intros]:
  assumes "schema_ok d"
  shows "schema_ok (apply_writes (snd (sql_insert_wallet now u b d)) d)"
  using assms
  by (auto simp: sql_insert_wallet_def schema_ok_def users_ok_def wallets_ok_def transfers_ok_def
      has_wallet_def)

lemma schema_ok_insert_transfer [wf_intros]:
  assumes "schema_ok d"
  shows "schema_ok (apply_writes (snd (sql_insert_transfer now fresh t d)) d)"
  using assms
  by (auto simp: sql_insert_transfer_def schema_ok_def users_ok_def wallets_ok_def transfers_ok_def
      new_transfer_row_def transfer_key_def)

lemma wUserID_set_balance [simp]: "wUserID (set_balance b now w) = wUserID w"
  by (simp add: set_balance_def)

lemma BalancePaise_set_balance [simp]: "BalancePaise (set_balance b now w) = b"
  by (simp add: set_balance_def)

lemma set_reversed_simps [simp]:
  "trID (set_reversed now b t) = trID t" "SenderID (set_reversed now b t) = SenderID t"
  "RecipientID (set_reversed now b t) = RecipientID t" "AmountPaise (set_reversed now b t) = AmountPaise t"
  "IdempotencyKey (set_reversed now b t) = IdempotencyKey t" "BodyHash (set_reversed now b t) = BodyHash t"
  "SenderBalanceAfter (set_reversed now b t) = SenderBalanceAfter t"
  "Status (set_reversed now b t) = TransferReversed" "trCreatedAt (set_reversed now b t) = trCreatedAt t"
  "ReversedAt (set_reversed now b t) = Some now"
  "SenderBalanceAfterReversal (set_reversed now b t) = Some b"
  "transfer_key (set_reversed now b t) = transfer_key t"
  by (simp_all add: set_reversed_def transfer_key_def)

lemma map_key_update_balance [simp]:
  "map wUserID (update_where p (set_balance b now) ws) = map wUserID ws"
  by (rule map_update_where_column) simp

lemma has_wallet_simps [simp]:
  "has_wallet u (d\<lparr>users := us\<rparr>) = has_wallet u d"
  "has_wallet u (d\<lparr>transfers := ts\<rparr>) = has_wallet u d"
  "has_wallet u (d\<lparr>wallets := wallets d @ [w]\<rparr>) \<longleftrightarrow> has_wallet u d \<or> u = wUserID w"
  by (auto simp: has_wallet_def)

lemma has_wallet_update_balance [simp]:
  "has_wallet u (d\<lparr>wallets := update_where p (set_balance b now) (wallets d)\<rparr>) = has_wallet u d"
proof -
  have "wUserID ` set (update_where p (set_balance b now) (wallets d)) = wUserID ` set (wallets d)"
    by (simp flip: set_map)
  then show ?thesis by (simp add: has_wallet_def)
qed

lemma map_keys_update_reversed [simp]:
  "map trID (update_where p (set_reversed now b) ts) = map trID ts"
  "map transfer_key (update_where p (set_reversed now b) ts) = map transfer_key ts"
  by (simp_all add: map_update_where_column)

lemma schema_ok_update_balance [wf_intros]:
  assumes "schema_ok d"
  shows "schema_ok (apply_writes (snd (sql_update_balance now u b d)) d)"
  using assms
  by (auto simp: sql_update_balance_def schema_ok_def users_ok_def wallets_ok_def transfers_ok_def
      set_update_where)

lemma schema_ok_mark_reversed [wf_intros]:
  assumes "schema_ok d"
  shows "schema_ok (apply_writes (snd (sql_mark_reversed now cutoff i b d)) d)"
  using assms
  by (auto simp: sql_mark_reversed_def schema_ok_def users_ok_def wallets_ok_def transfers_ok_def
      set_update_where)

lemma read_only_statements [simp]:
  "snd (sql_user_by_name n d) = []" "snd (sql_user_by_id i d) = []" "snd (sql_wallet_exists u d) = []"
  "snd (sql_balance u d) = []" "snd (sql_sum_active_holds c u d) = []"
  "snd (sql_transfer_by_id i d) = []" "snd (sql_transfer_by_key u k d) = []"
  "snd (sql_wallet_balances c u d) = []"
  by (simp_all add: sql_user_by_name_def sql_user_by_id_def sql_wallet_exists_def sql_balance_def
      sql_sum_active_holds_def sql_transfer_by_id_def sql_transfer_by_key_def sql_wallet_balances_def
      split: option.split sum.split)

section \<open>Balances and the money in the system\<close>

definition money :: "db \<Rightarrow> int" where
  "money d = sum_list (map (\<lambda>w. sint (BalancePaise w)) (wallets d))"

definition balance_of :: "uuid \<Rightarrow> db \<Rightarrow> int64 option" where
  "balance_of u d = map_option BalancePaise (find (\<lambda>w. wUserID w = u) (wallets d))"

lemma balance_of_None_iff: "balance_of u d = None \<longleftrightarrow> \<not> has_wallet u d"
  by (auto simp: balance_of_def has_wallet_def find_None_iff)

lemma has_wallet_balance_of: "has_wallet u d \<Longrightarrow> \<exists>b. balance_of u d = Some b"
  using balance_of_None_iff by fastforce

lemma balance_of_has_wallet: "balance_of u d = Some b \<Longrightarrow> has_wallet u d"
  using balance_of_None_iff [of u d] by (cases "has_wallet u d") simp_all

lemma wallets_ok_distinct: "wallets_ok d \<Longrightarrow> distinct (map wUserID (wallets d))"
  by (simp add: wallets_ok_def)

lemma balance_of_Some_iff:
  assumes "distinct (map wUserID (wallets d))"
  shows "balance_of u d = Some b \<longleftrightarrow> (\<exists>w \<in> set (wallets d). wUserID w = u \<and> BalancePaise w = b)"
  using find_key_Some_iff [OF assms, of u] by (auto simp: balance_of_def)

lemma balance_of_nonneg: "wallets_ok d \<Longrightarrow> balance_of u d = Some b \<Longrightarrow> 0 \<le> sint b"
  by (auto simp: balance_of_Some_iff wallets_ok_def)

text \<open>The balance of a wallet after each kind of write.\<close>

lemma balance_of_frame [simp]:
  "balance_of u (d\<lparr>users := us\<rparr>) = balance_of u d"
  "balance_of u (d\<lparr>transfers := ts\<rparr>) = balance_of u d"
  by (simp_all add: balance_of_def)

lemma find_append: "find p (xs @ ys) = (case find p xs of None \<Rightarrow> find p ys | Some x \<Rightarrow> Some x)"
  by (induction xs) simp_all

lemma balance_of_append:
  "\<not> has_wallet (wUserID w) d \<Longrightarrow>
   balance_of u (d\<lparr>wallets := wallets d @ [w]\<rparr>) = (if u = wUserID w then Some (BalancePaise w) else balance_of u d)"
  by (auto simp: balance_of_def find_append has_wallet_def find_None_iff split: option.split
      dest!: find_SomeD) (metis imageI)

lemma balance_of_update:
  "balance_of u (d\<lparr>wallets := update_where (\<lambda>w. wUserID w = v) (set_balance b now) (wallets d)\<rparr>)
     = (if u = v \<and> has_wallet v d then Some b else balance_of u d)"
proof -
  have "map_option BalancePaise (find (\<lambda>w. wUserID w = u) (update_where (\<lambda>w. wUserID w = v) (set_balance b now) ws))
      = (if u = v \<and> v \<in> wUserID ` set ws then Some b
         else map_option BalancePaise (find (\<lambda>w. wUserID w = u) ws))" for ws
    by (induction ws) (auto simp: update_where_def)
  then show ?thesis by (simp add: balance_of_def has_wallet_def)
qed

lemma money_frame [simp]:
  "money (d\<lparr>users := us\<rparr>) = money d"
  "money (d\<lparr>transfers := ts\<rparr>) = money d"
  "money (d\<lparr>wallets := wallets d @ [w]\<rparr>) = money d + sint (BalancePaise w)"
  by (simp_all add: money_def)

lemma money_update:
  assumes "distinct (map wUserID (wallets d))" "balance_of u d = Some b"
  shows "money (d\<lparr>wallets := update_where (\<lambda>w. wUserID w = u) (set_balance b' now) (wallets d)\<rparr>)
    = money d - sint b + sint b'"
proof -
  obtain w where "w \<in> set (wallets d)" "wUserID w = u" "BalancePaise w = b"
    using assms by (auto simp: balance_of_Some_iff)
  then show ?thesis
    using sum_update_where_key [OF assms(1), of w u "\<lambda>w. sint (BalancePaise w)" "set_balance b' now"]
    by (simp add: money_def)
qed

section \<open>Holds\<close>

lemma held_sum_frame [simp]:
  "held_sum c u (d\<lparr>users := us\<rparr>) = held_sum c u d"
  "held_sum c u (d\<lparr>wallets := ws\<rparr>) = held_sum c u d"
  "held_sum c u (d\<lparr>transfers := transfers d @ [t]\<rparr>)
     = held_sum c u d + (if RecipientID t = u \<and> active_hold c t then sint (AmountPaise t) else 0)"
  by (simp_all add: held_sum_def)

lemma held_sum_nonneg: "transfers_ok d \<Longrightarrow> 0 \<le> held_sum c u d"
  by (auto simp: held_sum_def transfers_ok_def intro!: sum_list_nonneg) force

lemma held_sum_antimono:
  assumes "transfers_ok d" "c \<le> c'"
  shows "held_sum c' u d \<le> held_sum c u d"
proof -
  have "sum_list (map (\<lambda>t. if RecipientID t = u \<and> active_hold c' t then sint (AmountPaise t) else 0) (transfers d))
    \<le> sum_list (map (\<lambda>t. if RecipientID t = u \<and> active_hold c t then sint (AmountPaise t) else 0) (transfers d))"
    using assms by (intro sum_list_map_mono_int) (force simp: active_hold_def transfers_ok_def)
  then show ?thesis by (simp add: held_sum_def sum_list_filter_zero)
qed

lemma not_active_set_reversed [simp]: "\<not> active_hold c (set_reversed now b t)"
  by (simp add: active_hold_def)

text \<open>Reversing an active transfer releases exactly its hold.\<close>

lemma held_sum_reversed:
  assumes "transfers_ok d" "t \<in> set (transfers d)" "active_hold c t"
  shows "held_sum c u (d\<lparr>transfers := update_where (\<lambda>r. trID r = trID t) (set_reversed now b) (transfers d)\<rparr>)
    = held_sum c u d - (if RecipientID t = u then sint (AmountPaise t) else 0)"
proof -
  let ?v = "\<lambda>t. if RecipientID t = u \<and> active_hold c t then sint (AmountPaise t) else 0"
  have "distinct (map trID (transfers d))"
    using assms(1) by (simp add: transfers_ok_def)
  from sum_update_where_key [OF this assms(2) refl, of ?v "set_reversed now b"] show ?thesis
    using assms(3) by (simp add: held_sum_def sum_list_filter_zero)
qed

lemma held_sum_reversed_le:
  assumes "transfers_ok d"
  shows "held_sum c u (d\<lparr>transfers := update_where p (set_reversed now b) (transfers d)\<rparr>) \<le> held_sum c u d"
proof -
  have "sum_list (map (\<lambda>t. if RecipientID t = u \<and> active_hold c t then sint (AmountPaise t) else 0)
          (update_where p (set_reversed now b) ts)) \<le>
        sum_list (map (\<lambda>t. if RecipientID t = u \<and> active_hold c t then sint (AmountPaise t) else 0) ts)"
    if "\<forall>t \<in> set ts. 0 < sint (AmountPaise t)" for ts
    using that by (induction ts) (auto simp: update_where_def intro: add_increasing)
  from this [of "transfers d"] show ?thesis
    using assms by (simp add: held_sum_def sum_list_filter_zero transfers_ok_def)
qed

section \<open>The tables after a write\<close>

text \<open>From here on a write is described by what the queries above return after it.\<close>

lemma users_write [simp]:
  "users (apply_write (InsUser x) d) = users d @ [x]"
  "users (apply_write (InsWallet w) d) = users d"
  "users (apply_write (InsTransfer t) d) = users d"
  "users (apply_write (SetBalance v b now) d) = users d"
  "users (apply_write (SetReversed i now b) d) = users d"
  by simp_all

lemma transfers_write [simp]:
  "transfers (apply_write (InsUser x) d) = transfers d"
  "transfers (apply_write (InsWallet w) d) = transfers d"
  "transfers (apply_write (InsTransfer t) d) = transfers d @ [t]"
  "transfers (apply_write (SetBalance v b now) d) = transfers d"
  "transfers (apply_write (SetReversed i now b) d) =
     update_where (\<lambda>t. trID t = i) (set_reversed now b) (transfers d)"
  by simp_all

lemma has_wallet_write [simp]:
  "has_wallet u (apply_write (InsUser x) d) = has_wallet u d"
  "has_wallet u (apply_write (InsWallet w) d) \<longleftrightarrow> has_wallet u d \<or> u = wUserID w"
  "has_wallet u (apply_write (InsTransfer t) d) = has_wallet u d"
  "has_wallet u (apply_write (SetBalance v b now) d) = has_wallet u d"
  "has_wallet u (apply_write (SetReversed i now b) d) = has_wallet u d"
  by simp_all

lemma has_user_write [simp]:
  "has_user u (apply_write (InsUser x) d) \<longleftrightarrow> has_user u d \<or> u = uID x"
  "has_user u (apply_write (InsWallet w) d) = has_user u d"
  "has_user u (apply_write (InsTransfer t) d) = has_user u d"
  "has_user u (apply_write (SetBalance v b now) d) = has_user u d"
  "has_user u (apply_write (SetReversed i now b) d) = has_user u d"
  by simp_all

lemma balance_of_write [simp]:
  "balance_of u (apply_write (InsUser x) d) = balance_of u d"
  "\<not> has_wallet (wUserID w) d \<Longrightarrow> balance_of u (apply_write (InsWallet w) d) =
     (if u = wUserID w then Some (BalancePaise w) else balance_of u d)"
  "balance_of u (apply_write (InsTransfer t) d) = balance_of u d"
  "balance_of u (apply_write (SetBalance v b now) d) =
     (if u = v \<and> has_wallet v d then Some b else balance_of u d)"
  "balance_of u (apply_write (SetReversed i now b) d) = balance_of u d"
  by (simp_all add: balance_of_append balance_of_update)

lemma money_write [simp]:
  "money (apply_write (InsUser x) d) = money d"
  "money (apply_write (InsWallet w) d) = money d + sint (BalancePaise w)"
  "money (apply_write (InsTransfer t) d) = money d"
  "money (apply_write (SetReversed i now b) d) = money d"
  by simp_all

lemma money_SetBalance:
  assumes "distinct (map wUserID (wallets d))" "balance_of u d = Some b"
  shows "money (apply_write (SetBalance u b' now) d) = money d - sint b + sint b'"
  using money_update [OF assms] by simp

lemma wallet_ids_write [simp]:
  "map wUserID (wallets (apply_write (InsUser x) d)) = map wUserID (wallets d)"
  "map wUserID (wallets (apply_write (InsWallet w) d)) = map wUserID (wallets d) @ [wUserID w]"
  "map wUserID (wallets (apply_write (InsTransfer t) d)) = map wUserID (wallets d)"
  "map wUserID (wallets (apply_write (SetBalance u b now) d)) = map wUserID (wallets d)"
  "map wUserID (wallets (apply_write (SetReversed i now b) d)) = map wUserID (wallets d)"
  by simp_all

lemma held_sum_write [simp]:
  "held_sum c u (apply_write (InsUser x) d) = held_sum c u d"
  "held_sum c u (apply_write (InsWallet w) d) = held_sum c u d"
  "held_sum c u (apply_write (InsTransfer t) d)
     = held_sum c u d + (if RecipientID t = u \<and> active_hold c t then sint (AmountPaise t) else 0)"
  "held_sum c u (apply_write (SetBalance v b now) d) = held_sum c u d"
  by simp_all

lemma held_sum_SetReversed:
  assumes "transfers_ok d" "t \<in> set (transfers d)" "active_hold c t"
  shows "held_sum c u (apply_write (SetReversed (trID t) now b) d)
    = held_sum c u d - (if RecipientID t = u then sint (AmountPaise t) else 0)"
  using held_sum_reversed [OF assms] by simp

lemma length_wallets_write [simp]:
  "length (wallets (apply_write (InsUser x) d)) = length (wallets d)"
  "length (wallets (apply_write (InsWallet w) d)) = Suc (length (wallets d))"
  "length (wallets (apply_write (InsTransfer t) d)) = length (wallets d)"
  "length (wallets (apply_write (SetBalance u b now) d)) = length (wallets d)"
  "length (wallets (apply_write (SetReversed i now b) d)) = length (wallets d)"
  by simp_all

declare apply_write.simps [simp del]

end
