(* ===== verification/GoLib.thy ===== *)
theory GoLib
  imports Prelude
begin

text \<open>
  What the service uses of the Go standard library: decimal formatting and parsing
  (\<open>fmt\<close> \<open>%d\<close>, \<open>strconv.Itoa\<close>, \<open>strconv.ParseInt\<close>, \<open>strconv.Atoi\<close>),
  \<open>strings.CutPrefix\<close>, \<open>hex.EncodeToString\<close> and \<open>sha256.Sum256\<close>.
  A Go string is a sequence of bytes, so it is a \<open>string\<close> (a list of 8-bit characters)
  and \<open>len\<close> is \<open>length\<close>.
\<close>

unbundle bit_operations_syntax

section \<open>Decimal integers\<close>

definition digit_char :: "nat \<Rightarrow> char" where
  "digit_char d = char_of (48 + d)"

definition is_digit :: "char \<Rightarrow> bool" where
  "is_digit c \<longleftrightarrow> 48 \<le> (of_char c :: nat) \<and> (of_char c :: nat) \<le> 57"

definition digit_val :: "char \<Rightarrow> int" where
  "digit_val c = int (of_char c) - 48"

fun digits10 :: "nat \<Rightarrow> string" where
  "digits10 n = (if n < 10 then [digit_char n] else digits10 (n div 10) @ [digit_char (n mod 10)])"

declare digits10.simps [simp del]

definition fmt_d :: "int \<Rightarrow> string" where
  "fmt_d i = (if i < 0 then CHR ''-'' # digits10 (nat (- i)) else digits10 (nat i))"

fun value10 :: "int \<Rightarrow> string \<Rightarrow> int" where
  "value10 acc [] = acc"
| "value10 acc (c # cs) = value10 (10 * acc + digit_val c) cs"

text \<open>\<open>strconv.ParseInt(s, 10, 64)\<close>; \<open>strconv.Atoi\<close> is the same on 64-bit platforms.\<close>

fun parse_int64 :: "string \<Rightarrow> int64 option" where
  "parse_int64 s =
     (let (neg, ds) = (case s of [] \<Rightarrow> (False, [])
          | c # cs \<Rightarrow> if c = CHR ''-'' then (True, cs) else if c = CHR ''+'' then (False, cs) else (False, s));
          v = value10 0 ds; i = (if neg then - v else v)
      in if ds = [] \<or> \<not> list_all is_digit ds then None
         else if fits_int64 i then Some (word_of_int i) else None)"

declare parse_int64.simps [simp del]

lemma of_char_digit_char [simp]: "d < 10 \<Longrightarrow> of_char (digit_char d) = 48 + d"
  by (simp add: digit_char_def)

lemma is_digit_digit_char [simp]: "d < 10 \<Longrightarrow> is_digit (digit_char d)"
  by (simp add: is_digit_def)

lemma digit_val_digit_char [simp]: "d < 10 \<Longrightarrow> digit_val (digit_char d) = int d"
  by (simp add: digit_val_def)

lemma digits10_not_Nil [simp]: "digits10 n \<noteq> []"
  by (subst digits10.simps) simp

lemma digits10_all_digits: "list_all is_digit (digits10 n)"
proof (induction n rule: digits10.induct)
  case (1 n)
  then show ?case by (subst digits10.simps) auto
qed

lemma value10_append: "value10 acc (xs @ ys) = value10 (value10 acc xs) ys"
  by (induction xs arbitrary: acc) auto

lemma value10_digits10: "value10 0 (digits10 n) = int n"
proof (induction n rule: digits10.induct)
  case (1 n)
  show ?case
  proof (cases "n < 10")
    case True
    then show ?thesis by (subst digits10.simps) simp
  next
    case False
    with 1 have "value10 0 (digits10 (n div 10)) = int (n div 10)" by simp
    with False show ?thesis by (subst digits10.simps) (simp add: value10_append zdiv_int zmod_int)
  qed
qed

lemma digits10_inject: "digits10 m = digits10 n \<longleftrightarrow> m = n"
  by (metis value10_digits10 of_nat_eq_iff)

lemma is_digit_not_special: "is_digit c \<Longrightarrow> c \<noteq> CHR ''-'' \<and> c \<noteq> CHR ''+'' \<and> c \<noteq> CHR ''|''"
  by (auto simp: is_digit_def)

lemma digits10_hd_digit: "digits10 n = c # cs \<Longrightarrow> is_digit c"
  using digits10_all_digits [of n] by simp

lemma fmt_d_no_bar: "CHR ''|'' \<notin> set (fmt_d i)"
  using digits10_all_digits by (auto simp: fmt_d_def list_all_iff dest: is_digit_not_special)

lemma fmt_d_inject: "fmt_d i = fmt_d j \<longleftrightarrow> i = j"
proof
  assume eq: "fmt_d i = fmt_d j"
  have neq: "CHR ''-'' # ds \<noteq> digits10 n" for ds n
    using digits10_hd_digit [of n "CHR ''-''" ds] is_digit_not_special by metis
  show "i = j"
    using eq neq by (auto simp: fmt_d_def digits10_inject eq_commute [of "digits10 _" "CHR ''-'' # _"] split: if_splits)
qed simp

lemma parse_int64_fmt_d: "parse_int64 (fmt_d (sint a)) = Some a"
proof (cases "sint a < 0")
  case True
  then show ?thesis
    by (simp add: parse_int64.simps fmt_d_def digits10_all_digits value10_digits10)
next
  case False
  obtain c cs where d: "digits10 (nat (sint a)) = c # cs"
    by (metis digits10_not_Nil neq_Nil_conv)
  have "c \<noteq> CHR ''-'' \<and> c \<noteq> CHR ''+''"
    using digits10_hd_digit [OF d] is_digit_not_special by blast
  moreover have "list_all is_digit (c # cs)" "value10 0 (c # cs) = int (nat (sint a))"
    using digits10_all_digits value10_digits10 by (metis d)+
  ultimately show ?thesis
    using False by (simp add: parse_int64.simps fmt_d_def d)
qed

section \<open>strings.CutPrefix\<close>

fun cut_prefix :: "string \<Rightarrow> string \<Rightarrow> string option" where
  "cut_prefix [] s = Some s"
| "cut_prefix (p # ps) [] = None"
| "cut_prefix (p # ps) (c # cs) = (if p = c then cut_prefix ps cs else None)"

lemma cut_prefix_Some_iff: "cut_prefix p s = Some r \<longleftrightarrow> s = p @ r"
  by (induction p s rule: cut_prefix.induct) auto

section \<open>hex.EncodeToString\<close>

definition hex_digit :: "nat \<Rightarrow> char" where
  "hex_digit d = (if d < 10 then char_of (48 + d) else char_of (87 + d))"

definition hex_byte :: "8 word \<Rightarrow> string" where
  "hex_byte b = [hex_digit (unat b div 16), hex_digit (unat b mod 16)]"

definition hex_encode :: "8 word list \<Rightarrow> string" where
  "hex_encode bs = concat (map hex_byte bs)"

lemma of_char_hex_digit: "d < 16 \<Longrightarrow> of_char (hex_digit d) = (if d < 10 then 48 + d else 87 + d :: nat)"
  by (simp add: hex_digit_def)

lemma hex_digit_inject:
  assumes "c < 16" "d < 16"
  shows "hex_digit c = hex_digit d \<longleftrightarrow> c = d"
proof
  assume "hex_digit c = hex_digit d"
  then have "(of_char (hex_digit c) :: nat) = of_char (hex_digit d)" by simp
  then show "c = d"
    using assms by (simp add: of_char_hex_digit split: if_splits)
qed simp

lemma hex_byte_inject: "hex_byte a = hex_byte b \<longleftrightarrow> a = b"
proof
  assume "hex_byte a = hex_byte b"
  moreover have "unat a < 256" "unat b < 256"
    using unsigned_less [of a, where ?'a = nat] unsigned_less [of b, where ?'a = nat] by simp_all
  ultimately have "unat a div 16 = unat b div 16" "unat a mod 16 = unat b mod 16"
    by (simp_all add: hex_byte_def hex_digit_inject less_mult_imp_div_less)
  then have "unat a = unat b" by (metis div_mult_mod_eq)
  then show "a = b" by (rule unsigned_word_eqI)
qed simp

lemma hex_encode_inject: "hex_encode xs = hex_encode ys \<longleftrightarrow> xs = ys"
proof
  show "hex_encode xs = hex_encode ys \<Longrightarrow> xs = ys"
  proof (induction xs arbitrary: ys)
    case Nil
    then show ?case by (cases ys) (simp_all add: hex_encode_def hex_byte_def)
  next
    case (Cons x xs)
    then show ?case
      by (cases ys) (auto simp: hex_encode_def hex_byte_inject [symmetric] hex_byte_def)
  qed
qed simp

lemma length_hex_encode: "length (hex_encode bs) = 2 * length bs"
  by (induction bs) (simp_all add: hex_encode_def hex_byte_def)

end
