(* ===== verification/Obs.thy ===== *)
theory Obs
  imports GoLib
begin

text \<open>
  \<open>internal/obs\<close>: the Prometheus counters of \<open>metrics.go\<close> as a record of counts
  (a \<open>CounterVec\<close> is a count per label), the structured log records the service emits,
  and the ring buffer of \<open>log.go\<close> with its line splitting, its bound, its snapshot and
  its HTTP rendering.
\<close>

section \<open>Metrics\<close>

record metrics =
  HTTPRequests :: "string \<times> string \<times> string \<Rightarrow> nat"
  HTTPDuration :: "string \<Rightarrow> nat"  \<comment> \<open>observations per route\<close>
  TransfersApplied :: nat
  TransfersRejected :: "string \<Rightarrow> nat"
  IdempotentReplays :: nat
  ClaimsApplied :: nat
  ClaimsRejected :: "string \<Rightarrow> nat"
  ClaimReplays :: nat
  GetOrCreateRaceLost :: nat
  AuthFailures :: nat

definition NewMetrics :: metrics where
  "NewMetrics =
     \<lparr>HTTPRequests = (\<lambda>_. 0), HTTPDuration = (\<lambda>_. 0), TransfersApplied = 0,
      TransfersRejected = (\<lambda>_. 0), IdempotentReplays = 0, ClaimsApplied = 0,
      ClaimsRejected = (\<lambda>_. 0), ClaimReplays = 0, GetOrCreateRaceLost = 0, AuthFailures = 0\<rparr>"

text \<open>
  The collectors in the order of \<open>MustRegister\<close>, with name, help and labels; the bucket bounds of
  the histogram are in milliseconds.
\<close>

datatype collector =
    Counter (col_name: string) (col_help: string)
  | CounterVec (col_name: string) (col_help: string) (col_labels: "string list")
  | HistogramVec (col_name: string) (col_help: string) (col_buckets: "int list") (col_labels: "string list")

definition registered :: "collector list" where
  "registered =
     [CounterVec ''http_requests_total'' ''HTTP requests by route, method and status code.'' [''route'', ''method'', ''code''],
      HistogramVec ''http_request_duration_seconds'' ''HTTP request latency by route (p99 via histogram_quantile).''
        [5, 10, 25, 50, 100, 250, 500, 1000, 2500, 5000] [''route''],
      Counter ''transfers_applied_total'' ''Transfers that moved money.'',
      CounterVec ''transfers_rejected_total'' ''Transfers rejected, by reason.'' [''reason''],
      Counter ''idempotent_replays_total'' ''Retried transfers answered from the stored outcome.'',
      Counter ''claims_applied_total'' (''Transfers reversed at the sender'' @ [CHR 0x27] @ ''s request.''),
      CounterVec ''claims_rejected_total'' ''Claim-backs rejected, by reason.'' [''reason''],
      Counter ''claim_replays_total'' ''Retried claim-backs answered from the stored outcome.'',
      Counter ''get_or_create_race_lost_total'' ''Wallet creations that lost the concurrent insert race.'',
      Counter ''auth_failures_total'' ''Requests rejected for missing/invalid credentials.'']"

text \<open>\<open>MustRegister\<close> panics on two collectors of one name; there are none.\<close>

lemma registered_distinct: "distinct (map col_name registered)"
  by (simp add: registered_def)

definition bump :: "('l \<Rightarrow> nat) \<Rightarrow> 'l \<Rightarrow> 'l \<Rightarrow> nat" where
  "bump f l = f(l := Suc (f l))"

lemma bump_apply [simp]: "bump f l k = (if k = l then Suc (f k) else f k)"
  by (simp add: bump_def)

section \<open>Log records\<close>

datatype level = LevelInfo | LevelWarn | LevelError

text \<open>The levels are ordered by their numbers in slog: 0, 4, 8.\<close>

definition level_num :: "level \<Rightarrow> int" where
  "level_num l = (case l of LevelInfo \<Rightarrow> 0 | LevelWarn \<Rightarrow> 4 | LevelError \<Rightarrow> 8)"

instantiation level :: linorder
begin

definition less_eq_level :: "level \<Rightarrow> level \<Rightarrow> bool" where
  "less_eq_level a b \<longleftrightarrow> level_num a \<le> level_num b"

definition less_level :: "level \<Rightarrow> level \<Rightarrow> bool" where
  "less_level a b \<longleftrightarrow> level_num a < level_num b"

instance
  by standard (auto simp: less_eq_level_def less_level_def level_num_def split: level.splits)

end

lemma LevelInfo_least [simp]: "\<not> l < LevelInfo" "LevelInfo \<le> l"
  by (cases l; simp add: less_level_def less_eq_level_def level_num_def)+

datatype attr = AUuid uuid | AInt int | AText string

record log_record =
  rec_level :: level
  rec_msg :: string
  rec_attrs :: "(string \<times> attr) list"

definition log_info :: "string \<Rightarrow> (string \<times> attr) list \<Rightarrow> log_record" where
  "log_info msg attrs = \<lparr>rec_level = LevelInfo, rec_msg = msg, rec_attrs = attrs\<rparr>"

definition log_warn :: "string \<Rightarrow> (string \<times> attr) list \<Rightarrow> log_record" where
  "log_warn msg attrs = \<lparr>rec_level = LevelWarn, rec_msg = msg, rec_attrs = attrs\<rparr>"

definition log_error :: "string \<Rightarrow> (string \<times> attr) list \<Rightarrow> log_record" where
  "log_error msg attrs = \<lparr>rec_level = LevelError, rec_msg = msg, rec_attrs = attrs\<rparr>"

text \<open>\<open>slog.Logger.With\<close>: a record of the derived logger has the given attributes first.\<close>

definition with_attrs :: "(string \<times> attr) list \<Rightarrow> log_record \<Rightarrow> log_record" where
  "with_attrs attrs l = l\<lparr>rec_attrs := attrs @ rec_attrs l\<rparr>"

lemma with_attrs_simps [simp]:
  "rec_level (with_attrs attrs l) = rec_level l" "rec_msg (with_attrs attrs l) = rec_msg l"
  "rec_attrs (with_attrs attrs l) = attrs @ rec_attrs l"
  by (simp_all add: with_attrs_def)

lemma with_attrs_append: "with_attrs a (with_attrs b l) = with_attrs (a @ b) l"
  by (simp add: with_attrs_def)

section \<open>The ring buffer\<close>

record ring =
  ring_lines :: "string list"
  ring_max :: int

definition NewRing :: "int \<Rightarrow> ring" where
  "NewRing m = \<lparr>ring_lines = [], ring_max = m\<rparr>"

text \<open>
  \<open>r.lines = append(r.lines, line)\<close>, then the oldest lines beyond \<open>max\<close> are sliced
  off. The slice expression panics for a negative \<open>max\<close>; that is \<open>None\<close>.
\<close>

definition push :: "string \<Rightarrow> ring \<Rightarrow> ring option" where
  "push line r =
     (let ls = ring_lines r @ [line] in
      if int (length ls) > ring_max r then
        (if ring_max r < 0 then None
         else Some (r\<lparr>ring_lines := drop (nat (int (length ls) - ring_max r)) ls\<rparr>))
      else Some (r\<lparr>ring_lines := ls\<rparr>))"

text \<open>
  The loop of \<open>Write\<close>: \<open>i\<close> runs over the bytes, \<open>start\<close> is the index after the
  last newline. \<open>cur\<close> is \<open>p[start:i]\<close>.
\<close>

fun write_loop :: "string \<Rightarrow> string \<Rightarrow> ring \<Rightarrow> ring option" where
  "write_loop cur [] r = (if cur \<noteq> [] then push cur r else Some r)"
| "write_loop cur (b # p) r =
     (if b = CHR 0x0A then
        (if cur \<noteq> [] then Option.bind (push cur r) (write_loop [] p) else write_loop [] p r)
      else write_loop (cur @ [b]) p r)"

definition Write :: "string \<Rightarrow> ring \<Rightarrow> (nat \<times> ring) option" where
  "Write p r = map_option (\<lambda>r'. (length p, r')) (write_loop [] p r)"

text \<open>
  \<open>NewLogger\<close>: a record below the level of the handler is dropped; any other is rendered to one
  line, which \<open>io.MultiWriter\<close> gives to stdout first and, if stdout took it, to the ring.
  \<open>Stdout n\<close> says whether stdout takes the \<open>n\<close>-th line. A \<open>Handle\<close> that fails is ignored by slog.
\<close>

record logger =
  HandlerLevel :: level
  Stdout :: "nat \<Rightarrow> bool"
  attempts :: nat
  Sink :: ring

definition NewLogger :: "(nat \<Rightarrow> bool) \<Rightarrow> ring \<Rightarrow> logger" where
  "NewLogger out r = \<lparr>HandlerLevel = LevelInfo, Stdout = out, attempts = 0, Sink = r\<rparr>"

definition logger_Handle :: "(log_record \<Rightarrow> string) \<Rightarrow> log_record \<Rightarrow> logger \<Rightarrow> logger option" where
  "logger_Handle render l lg =
     (if rec_level l < HandlerLevel lg then Some lg
      else
        (let lg' = lg\<lparr>attempts := Suc (attempts lg)\<rparr> in
         if \<not> Stdout lg (attempts lg) then Some lg'
         else map_option (\<lambda>(n, r). lg'\<lparr>Sink := r\<rparr>) (Write (render l) (Sink lg))))"

definition Snapshot :: "ring \<Rightarrow> string list" where
  "Snapshot r = ring_lines r"

text \<open>
  \<open>GET /logs\<close>: \<open>q\<close> is the value of the \<open>limit\<close> query parameter, empty when absent.
\<close>

definition ring_served :: "string \<Rightarrow> ring \<Rightarrow> string list" where
  "ring_served q r =
     (let ls = Snapshot r in
      if q \<noteq> [] then
        (case parse_int64 q of
           None \<Rightarrow> ls
         | Some n \<Rightarrow> if sint n > 0 \<and> sint n < int (length ls) then drop (nat (int (length ls) - sint n)) ls else ls)
      else ls)"

definition ring_ServeHTTP :: "string \<Rightarrow> ring \<Rightarrow> string" where
  "ring_ServeHTTP q r = concat (map (\<lambda>l. l @ [CHR 0x0A]) (ring_served q r))"

text \<open>The specification: the non-empty lines of the bytes written, the last \<open>max\<close> kept.\<close>

fun lines_of :: "string \<Rightarrow> string \<Rightarrow> string list" where
  "lines_of cur [] = (if cur \<noteq> [] then [cur] else [])"
| "lines_of cur (b # p) =
     (if b = CHR 0x0A then (if cur \<noteq> [] then [cur] else []) @ lines_of [] p else lines_of (cur @ [b]) p)"

definition last_n :: "nat \<Rightarrow> 'a list \<Rightarrow> 'a list" where
  "last_n n xs = drop (length xs - n) xs"

lemma length_last_n [simp]: "length (last_n n xs) = min n (length xs)"
  by (auto simp: last_n_def)

lemma last_n_last_n_append: "last_n n (last_n n xs @ ys) = last_n n (xs @ ys)"
proof (cases "length xs \<le> n")
  case True
  then show ?thesis by (simp add: last_n_def)
next
  case False
  then show ?thesis
    by (simp add: last_n_def drop_append add.commute [of "length ys"])
qed

definition ring_ok :: "ring \<Rightarrow> bool" where
  "ring_ok r \<longleftrightarrow> 0 \<le> ring_max r \<and> int (length (ring_lines r)) \<le> ring_max r"

lemma push_last_n:
  "ring_max r = int m \<Longrightarrow> push line r = Some (r\<lparr>ring_lines := last_n m (ring_lines r @ [line])\<rparr>)"
  by (auto simp: push_def Let_def last_n_def nat_int_add Suc_diff_le simp flip: of_nat_Suc of_nat_diff)

lemma write_loop_last_n:
  "ring_max r = int m \<Longrightarrow> length (ring_lines r) \<le> m \<Longrightarrow>
   write_loop cur p r = Some (r\<lparr>ring_lines := last_n m (ring_lines r @ lines_of cur p)\<rparr>)"
proof (induction cur p r rule: write_loop.induct)
  case (1 cur r)
  then show ?case by (auto simp: push_last_n) (simp add: last_n_def)
next
  case (2 cur b p r)
  then show ?case
    by (auto simp: push_last_n last_n_last_n_append)
qed

end
