(* ===== verification/Tx.thy ===== *)
theory Tx
  imports Database Obs
begin

text \<open>
  \<open>internal/repository/tx.go\<close>: the statements a transaction may issue. A transaction body
  (the Go closure passed to \<open>WithTx\<close>) is a value of type \<open>txp\<close>: the next method call
  on \<open>repository.Tx\<close> together with what the closure does with its result. The same body is
  run in two ways: by \<open>exec_tx\<close>, all its statements in a row on one database, and in the
  theory \<open>Concurrency\<close>, one statement at a time among the statements of other transactions.

  The connection is a parameter: \<open>pg_link\<close> says for each round trip whether it succeeds,
  is lost before the server executes it, or is lost after.
\<close>

section \<open>The environment and the state of the process\<close>

datatype outcome = Fine | LostBefore string | LostAfter string

record pgenv =
  pg_link :: "nat \<Rightarrow> outcome"           \<comment> \<open>fate of the n-th round trip\<close>
  pg_clock :: "nat \<Rightarrow> pgtime"           \<comment> \<open>\<open>now()\<close> of a transaction begun at round trip n\<close>
  pg_uuid :: "nat \<Rightarrow> uuid"              \<comment> \<open>\<open>gen_random_uuid()\<close> at round trip n\<close>
  pg_others :: "nat \<Rightarrow> db \<Rightarrow> db"        \<comment> \<open>what other sessions commit before round trip n\<close>
  pg_interval :: "duration \<Rightarrow> pgtime"   \<comment> \<open>\<open>make_interval(secs => d.Seconds())\<close>\<close>
  go_clock :: "nat \<Rightarrow> int"              \<comment> \<open>\<open>time.Now()\<close> of the process after n round trips, nanoseconds\<close>

record world =
  db :: db
  tick :: nat
  mets :: metrics
  logs :: "log_record list"

definition deliver :: "outcome \<Rightarrow> 'b sql_result \<Rightarrow> 'b sql_result" where
  "deliver c res = (case c of
      Fine \<Rightarrow> res
    | LostBefore m \<Rightarrow> (Inl (OtherError m), [])
    | LostAfter m \<Rightarrow> (Inl (OtherError m), snd res))"

section \<open>The methods of Tx\<close>

definition Tx_WalletExists :: "outcome \<Rightarrow> uuid \<Rightarrow> db \<Rightarrow> bool sql_result" where
  "Tx_WalletExists c userID d = deliver c (sql_wallet_exists userID d)"

definition Tx_InsertWallet :: "outcome \<Rightarrow> pgtime \<Rightarrow> uuid \<Rightarrow> int64 \<Rightarrow> db \<Rightarrow> bool sql_result" where
  "Tx_InsertWallet c now userID seedPaise d =
     (case deliver c (sql_insert_wallet now userID seedPaise d) of
        (Inl err, ws) \<Rightarrow> (Inl err, ws)
      | (Inr affected, ws) \<Rightarrow> (Inr (affected = 1), ws))"

definition Tx_LockWallet :: "outcome \<Rightarrow> uuid \<Rightarrow> db \<Rightarrow> int64 sql_result" where
  "Tx_LockWallet c userID d =
     (case deliver c (sql_balance userID d) of
        (Inl err, ws) \<Rightarrow> (Inl (mapNoRows err), ws)
      | (Inr balance, ws) \<Rightarrow> (Inr balance, ws))"

definition Tx_InsertTransfer :: "outcome \<Rightarrow> pgtime \<Rightarrow> uuid \<Rightarrow> transfer \<Rightarrow> db \<Rightarrow> (uuid \<times> bool) sql_result" where
  "Tx_InsertTransfer c now fresh tr d =
     (case deliver c (sql_insert_transfer now fresh tr d) of
        (Inl err, ws) \<Rightarrow> (if err = PgxErrNoRows then (Inr (0, False), ws) else (Inl err, ws))
      | (Inr transferID, ws) \<Rightarrow> (Inr (transferID, True), ws))"

definition Tx_SumActiveHolds :: "outcome \<Rightarrow> pgtime \<Rightarrow> uuid \<Rightarrow> db \<Rightarrow> int64 sql_result" where
  "Tx_SumActiveHolds c cutoff userID d = deliver c (sql_sum_active_holds cutoff userID d)"

definition Tx_MarkReversed ::
  "outcome \<Rightarrow> pgtime \<Rightarrow> pgtime \<Rightarrow> uuid \<Rightarrow> int64 \<Rightarrow> db \<Rightarrow> (pgtime \<times> bool) sql_result" where
  "Tx_MarkReversed c now cutoff transferID senderBalanceAfter d =
     (case deliver c (sql_mark_reversed now cutoff transferID senderBalanceAfter d) of
        (Inl err, ws) \<Rightarrow> (if err = PgxErrNoRows then (Inr (0, False), ws) else (Inl err, ws))
      | (Inr reversedAt, ws) \<Rightarrow> (Inr (reversedAt, True), ws))"

definition Tx_UpdateWalletBalance :: "outcome \<Rightarrow> pgtime \<Rightarrow> uuid \<Rightarrow> int64 \<Rightarrow> db \<Rightarrow> unit sql_result" where
  "Tx_UpdateWalletBalance c now userID newBalance d = deliver c (sql_update_balance now userID newBalance d)"

section \<open>Transaction bodies\<close>

datatype 'a txp =
    TxReturn "goerr + 'a"
  | WalletExists uuid "goerr + bool \<Rightarrow> 'a txp"
  | InsertWallet uuid int64 "goerr + bool \<Rightarrow> 'a txp"
  | LockWallet uuid "goerr + int64 \<Rightarrow> 'a txp"
  | InsertTransfer transfer "goerr + (uuid \<times> bool) \<Rightarrow> 'a txp"
  | SumActiveHolds uuid duration "goerr + int64 \<Rightarrow> 'a txp"
  | MarkReversed uuid duration int64 "goerr + (pgtime \<times> bool) \<Rightarrow> 'a txp"
  | UpdateWalletBalance uuid int64 "goerr + unit \<Rightarrow> 'a txp"
  | TxObserve "metrics \<Rightarrow> metrics" log_record "'a txp"  \<comment> \<open>a counter and a log line, not rolled back\<close>

text \<open>\<open>if err != nil { return err }\<close>\<close>

definition orReturn :: "('b \<Rightarrow> 'a txp) \<Rightarrow> goerr + 'b \<Rightarrow> 'a txp" where
  "orReturn k r = (case r of Inl err \<Rightarrow> TxReturn (Inl err) | Inr x \<Rightarrow> k x)"

lemma orReturn_simps [simp]:
  "orReturn k (Inl err) = TxReturn (Inl err)"
  "orReturn k (Inr x) = k x"
  by (simp_all add: orReturn_def)

text \<open>One statement of a transaction that has the database to itself.\<close>

definition tx_stmt :: "pgenv \<Rightarrow> (outcome \<Rightarrow> uuid \<Rightarrow> db \<Rightarrow> 'b sql_result) \<Rightarrow> world \<Rightarrow> (goerr + 'b) \<times> world" where
  "tx_stmt env f w =
     (let (r, ws) = f (pg_link env (tick w)) (pg_uuid env (tick w)) (db w)
      in (r, w\<lparr>db := apply_writes ws (db w), tick := Suc (tick w)\<rparr>))"

definition cutoff_at :: "pgenv \<Rightarrow> pgtime \<Rightarrow> duration \<Rightarrow> pgtime" where
  "cutoff_at env now window = now - pg_interval env window"

primrec exec_tx :: "pgenv \<Rightarrow> pgtime \<Rightarrow> 'a txp \<Rightarrow> world \<Rightarrow> (goerr + 'a) \<times> world" where
  "exec_tx env now (TxReturn r) = (\<lambda>w. (r, w))"
| "exec_tx env now (WalletExists u k) = (\<lambda>w.
     case tx_stmt env (\<lambda>c fresh. Tx_WalletExists c u) w of (r, w') \<Rightarrow> exec_tx env now (k r) w')"
| "exec_tx env now (InsertWallet u b k) = (\<lambda>w.
     case tx_stmt env (\<lambda>c fresh. Tx_InsertWallet c now u b) w of (r, w') \<Rightarrow> exec_tx env now (k r) w')"
| "exec_tx env now (LockWallet u k) = (\<lambda>w.
     case tx_stmt env (\<lambda>c fresh. Tx_LockWallet c u) w of (r, w') \<Rightarrow> exec_tx env now (k r) w')"
| "exec_tx env now (InsertTransfer t k) = (\<lambda>w.
     case tx_stmt env (\<lambda>c fresh. Tx_InsertTransfer c now fresh t) w of (r, w') \<Rightarrow> exec_tx env now (k r) w')"
| "exec_tx env now (SumActiveHolds u win k) = (\<lambda>w.
     case tx_stmt env (\<lambda>c fresh. Tx_SumActiveHolds c (cutoff_at env now win) u) w of (r, w') \<Rightarrow>
       exec_tx env now (k r) w')"
| "exec_tx env now (MarkReversed i win b k) = (\<lambda>w.
     case tx_stmt env (\<lambda>c fresh. Tx_MarkReversed c now (cutoff_at env now win) i b) w of (r, w') \<Rightarrow>
       exec_tx env now (k r) w')"
| "exec_tx env now (UpdateWalletBalance u b k) = (\<lambda>w.
     case tx_stmt env (\<lambda>c fresh. Tx_UpdateWalletBalance c now u b) w of (r, w') \<Rightarrow> exec_tx env now (k r) w')"
| "exec_tx env now (TxObserve m l k) = (\<lambda>w.
     exec_tx env now k (w\<lparr>mets := m (mets w), logs := logs w @ [l]\<rparr>))"

section \<open>Any body keeps the constraints, whatever the connection does\<close>

lemma snd_deliver: "snd (deliver c res) = (case c of LostBefore m \<Rightarrow> [] | _ \<Rightarrow> snd res)"
  by (simp add: deliver_def split: outcome.split)

lemma schema_ok_deliver:
  "schema_ok d \<Longrightarrow> schema_ok (apply_writes (snd res) d) \<Longrightarrow> schema_ok (apply_writes (snd (deliver c res)) d)"
  by (simp add: snd_deliver split: outcome.split)

lemma snd_case_result:
  "snd (case res of (Inl err, ws) \<Rightarrow> (f err, ws) | (Inr x, ws) \<Rightarrow> (g x, ws)) = snd res"
  "snd (case res of (Inl err, ws) \<Rightarrow> if p err then (h, ws) else (f err, ws) | (Inr x, ws) \<Rightarrow> (g x, ws)) = snd res"
  by (auto split: prod.split sum.split)

lemma snd_Tx_methods:
  "snd (Tx_WalletExists c u d) = []"
  "snd (Tx_InsertWallet c now u b d) = snd (deliver c (sql_insert_wallet now u b d))"
  "snd (Tx_LockWallet c u d) = []"
  "snd (Tx_InsertTransfer c now fresh t d) = snd (deliver c (sql_insert_transfer now fresh t d))"
  "snd (Tx_SumActiveHolds c cu u d) = []"
  "snd (Tx_MarkReversed c now cu i b d) = snd (deliver c (sql_mark_reversed now cu i b d))"
  "snd (Tx_UpdateWalletBalance c now u b d) = snd (deliver c (sql_update_balance now u b d))"
  by (simp_all add: Tx_WalletExists_def Tx_InsertWallet_def Tx_LockWallet_def Tx_InsertTransfer_def
      Tx_SumActiveHolds_def Tx_MarkReversed_def Tx_UpdateWalletBalance_def snd_deliver snd_case_result
      split: outcome.split)

lemma schema_ok_Tx_methods:
  assumes "schema_ok d"
  shows
    "schema_ok (apply_writes (snd (Tx_WalletExists c u d)) d)"
    "schema_ok (apply_writes (snd (Tx_InsertWallet c now u b d)) d)"
    "schema_ok (apply_writes (snd (Tx_LockWallet c u d)) d)"
    "schema_ok (apply_writes (snd (Tx_InsertTransfer c now fresh t d)) d)"
    "schema_ok (apply_writes (snd (Tx_SumActiveHolds c cu u d)) d)"
    "schema_ok (apply_writes (snd (Tx_MarkReversed c now cu i b d)) d)"
    "schema_ok (apply_writes (snd (Tx_UpdateWalletBalance c now u b d)) d)"
  using assms by (simp_all add: snd_Tx_methods schema_ok_deliver wf_intros)

lemma tx_stmt_cases:
  obtains r ws where "f (pg_link env (tick w)) (pg_uuid env (tick w)) (db w) = (r, ws)"
    "tx_stmt env f w = (r, w\<lparr>db := apply_writes ws (db w), tick := Suc (tick w)\<rparr>)"
  by (cases "f (pg_link env (tick w)) (pg_uuid env (tick w)) (db w)") (simp add: tx_stmt_def)

lemma schema_ok_tx_stmt:
  assumes "schema_ok (apply_writes (snd (f (pg_link env (tick w)) (pg_uuid env (tick w)) (db w))) (db w))"
  shows "schema_ok (db (snd (tx_stmt env f w)))"
  using assms by (cases rule: tx_stmt_cases [of f env w]) auto

lemma schema_ok_exec_step:
  assumes "\<And>q w. q \<in> range k \<Longrightarrow> schema_ok (db w) \<Longrightarrow> schema_ok (db (snd (exec_tx env now q w)))"
    and "schema_ok (db (snd (tx_stmt env f w)))"
  shows "schema_ok (db (snd (case tx_stmt env f w of (r, w') \<Rightarrow> exec_tx env now (k r) w')))"
  using assms by (simp add: split_beta)

lemma schema_ok_exec_tx: "schema_ok (db w) \<Longrightarrow> schema_ok (db (snd (exec_tx env now p w)))"
proof (induction p arbitrary: w)
  case (TxReturn r)
  then show ?case by simp
next
  case (TxObserve m l p)
  then show ?case by simp
qed (simp only: exec_tx.simps, rule schema_ok_exec_step, blast, rule schema_ok_tx_stmt,
      rule schema_ok_Tx_methods, assumption)+

lemma tick_tx_stmt [simp]: "tick (snd (tx_stmt env f w)) = Suc (tick w)"
  by (cases rule: tx_stmt_cases [of f env w]) simp

lemma tick_exec_step:
  assumes "\<And>q w. q \<in> range k \<Longrightarrow> tick w \<le> tick (snd (exec_tx env now q w))"
  shows "tick w \<le> tick (snd (case tx_stmt env f w of (r, w') \<Rightarrow> exec_tx env now (k r) w'))"
proof -
  have "Suc (tick w) \<le> tick (snd (exec_tx env now (k (fst (tx_stmt env f w))) (snd (tx_stmt env f w))))"
    using assms [OF rangeI, of "snd (tx_stmt env f w)"] by simp
  then show ?thesis by (simp add: split_beta)
qed

lemma tick_exec_tx: "tick w \<le> tick (snd (exec_tx env now p w))"
proof (induction p arbitrary: w)
  case (TxReturn r)
  then show ?case by simp
next
  case (TxObserve m l p)
  show ?case using TxObserve [of "w\<lparr>mets := m (mets w), logs := logs w @ [l]\<rparr>"] by simp
qed (simp only: exec_tx.simps, rule tick_exec_step, blast)+

section \<open>Successful runs\<close>

text \<open>
  A body that returns a value had no lost round trip, and each statement's result is known.
  These equivalences step through a body that returns errors at once (\<open>orReturn\<close>).
\<close>

definition advance :: "db_write list \<Rightarrow> world \<Rightarrow> world" where
  "advance ws w = w\<lparr>db := apply_writes ws (db w), tick := Suc (tick w)\<rparr>"

lemma advance_simps [simp]:
  "db (advance ws w) = apply_writes ws (db w)"
  "tick (advance ws w) = Suc (tick w)"
  "mets (advance ws w) = mets w"
  "logs (advance ws w) = logs w"
  by (simp_all add: advance_def)

lemma exec_ok_WalletExists [run_simps]:
  "exec_tx env now (WalletExists u (orReturn k)) w = (Inr a, w') \<longleftrightarrow>
     pg_link env (tick w) = Fine \<and> exec_tx env now (k (has_wallet u (db w))) (advance [] w) = (Inr a, w')"
  by (auto simp: tx_stmt_def Tx_WalletExists_def deliver_def sql_wallet_exists_def advance_def
      split: outcome.splits)

lemma exec_ok_InsertWallet [run_simps]:
  "exec_tx env now (InsertWallet u b (orReturn k)) w = (Inr a, w') \<longleftrightarrow>
     pg_link env (tick w) = Fine \<and>
     (\<exists>n ws. sql_insert_wallet now u b (db w) = (Inr n, ws) \<and>
        exec_tx env now (k (n = 1)) (advance ws w) = (Inr a, w'))"
  by (auto simp: tx_stmt_def Tx_InsertWallet_def deliver_def advance_def
      split: outcome.splits sum.splits prod.splits)

lemma exec_ok_LockWallet [run_simps]:
  "exec_tx env now (LockWallet u (orReturn k)) w = (Inr a, w') \<longleftrightarrow>
     pg_link env (tick w) = Fine \<and>
     (\<exists>b. balance_of u (db w) = Some b \<and> exec_tx env now (k b) (advance [] w) = (Inr a, w'))"
  by (auto simp: tx_stmt_def Tx_LockWallet_def deliver_def sql_balance_def row_result_def balance_of_def
      advance_def split: outcome.splits sum.splits option.splits)

lemma exec_ok_InsertTransfer [run_simps]:
  "exec_tx env now (InsertTransfer t (orReturn k)) w = (Inr a, w') \<longleftrightarrow>
     pg_link env (tick w) = Fine \<and>
     ((\<exists>i ws. sql_insert_transfer now (pg_uuid env (tick w)) t (db w) = (Inr i, ws) \<and>
        exec_tx env now (k (i, True)) (advance ws w) = (Inr a, w')) \<or>
      (sql_insert_transfer now (pg_uuid env (tick w)) t (db w) = (Inl PgxErrNoRows, []) \<and>
        exec_tx env now (k (0, False)) (advance [] w) = (Inr a, w')))"
  by (auto simp: tx_stmt_def Tx_InsertTransfer_def deliver_def advance_def sql_insert_transfer_def
      unique_violation_def fk_violation_def check_violation_def
      split: outcome.splits sum.splits prod.splits if_splits)

lemma exec_ok_SumActiveHolds [run_simps]:
  "exec_tx env now (SumActiveHolds u win (orReturn k)) w = (Inr a, w') \<longleftrightarrow>
     pg_link env (tick w) = Fine \<and> fits_int64 (held_sum (cutoff_at env now win) u (db w)) \<and>
     exec_tx env now (k (word_of_int (held_sum (cutoff_at env now win) u (db w)))) (advance [] w) = (Inr a, w')"
  by (auto simp: tx_stmt_def Tx_SumActiveHolds_def deliver_def sql_sum_active_holds_def scan_int64_def
      advance_def split: outcome.splits sum.splits)

lemma exec_ok_MarkReversed [run_simps]:
  "exec_tx env now (MarkReversed i win b (orReturn k)) w = (Inr a, w') \<longleftrightarrow>
     pg_link env (tick w) = Fine \<and>
     (if \<exists>t \<in> set (transfers (db w)). trID t = i \<and> active_hold (cutoff_at env now win) t
      then exec_tx env now (k (now, True)) (advance [SetReversed i now b] w) = (Inr a, w')
      else exec_tx env now (k (0, False)) (advance [] w) = (Inr a, w'))"
  by (auto simp: tx_stmt_def Tx_MarkReversed_def deliver_def advance_def sql_mark_reversed_def
      split: outcome.splits sum.splits prod.splits if_splits)

lemma exec_ok_UpdateWalletBalance [run_simps]:
  "exec_tx env now (UpdateWalletBalance u b (orReturn k)) w = (Inr a, w') \<longleftrightarrow>
     pg_link env (tick w) = Fine \<and>
     (if has_wallet u (db w)
      then 0 \<le> sint b \<and> exec_tx env now (k ()) (advance [SetBalance u b now] w) = (Inr a, w')
      else exec_tx env now (k ()) (advance [] w) = (Inr a, w'))"
  by (auto simp: tx_stmt_def Tx_UpdateWalletBalance_def deliver_def sql_update_balance_def advance_def
      check_violation_def split: outcome.splits sum.splits if_splits)

lemma exec_ok_TxReturn [run_simps]:
  "exec_tx env now (TxReturn r) w = (Inr a, w') \<longleftrightarrow> r = Inr a \<and> w' = w"
  by auto

declare exec_tx.simps(2-8) [simp del]

end
