(* ===== verification/Store.thy ===== *)
theory Store
  imports Tx
begin

text \<open>
  \<open>internal/repository\<close> outside a transaction body: \<open>WithTx\<close> of \<open>store.go\<close> and the
  single-statement methods of \<open>users.go\<close>, \<open>wallets.go\<close> and \<open>transfers.go\<close>. Each
  round trip first lets the other sessions commit (\<open>pg_others\<close>), then runs its statement
  on the database it finds; a statement outside a transaction commits by itself. A method is a
  computation of the state monad over the process and database state \<open>world\<close>.
\<close>

type_synonym 'a go = "(world, 'a) state"

definition observe :: "(metrics \<Rightarrow> metrics) \<Rightarrow> log_record list \<Rightarrow> unit go" where
  "observe m ls = State (\<lambda>w. ((), w\<lparr>mets := m (mets w), logs := logs w @ ls\<rparr>))"

lemma run_observe [simp]:
  "run_state (observe m ls) w = ((), w\<lparr>mets := m (mets w), logs := logs w @ ls\<rparr>)"
  by (simp add: observe_def)

section \<open>A statement outside a transaction\<close>

definition query :: "pgenv \<Rightarrow> (pgtime \<Rightarrow> uuid \<Rightarrow> db \<Rightarrow> 'b sql_result) \<Rightarrow> (goerr + 'b) go" where
  "query env f = State (\<lambda>w.
     let n = tick w; d = pg_others env n (db w);
         (r, ws) = deliver (pg_link env n) (f (pg_clock env n) (pg_uuid env n) d)
     in (r, w\<lparr>db := apply_writes ws d, tick := Suc n\<rparr>))"

section \<open>WithTx\<close>

text \<open>
  \<open>fn\<close> runs on the database at \<open>BEGIN\<close>; an error of \<open>fn\<close> rolls everything back, and
  so does a lost \<open>COMMIT\<close> that never reached the server. A \<open>COMMIT\<close> whose reply is
  lost is an error to the caller although the transaction is committed.
\<close>

definition WithTx :: "pgenv \<Rightarrow> 'a txp \<Rightarrow> (goerr + 'a) go" where
  "WithTx env fn = State (\<lambda>w.
     let n = tick w; d0 = pg_others env n (db w); w0 = w\<lparr>db := d0, tick := Suc n\<rparr> in
     case pg_link env n of
       LostBefore m \<Rightarrow> (Inl (Wrapped ''begin tx'' (OtherError m)), w0)
     | LostAfter m \<Rightarrow> (Inl (Wrapped ''begin tx'' (OtherError m)), w0)
     | Fine \<Rightarrow>
        (case exec_tx env (pg_clock env n) fn w0 of
           (Inl err, w1) \<Rightarrow> (Inl err, w1\<lparr>db := d0\<rparr>)
         | (Inr a, w1) \<Rightarrow>
            (case pg_link env (tick w1) of
               Fine \<Rightarrow> (Inr a, w1\<lparr>tick := Suc (tick w1)\<rparr>)
             | LostBefore m \<Rightarrow> (Inl (Wrapped ''commit tx'' (OtherError m)), w1\<lparr>db := d0, tick := Suc (tick w1)\<rparr>)
             | LostAfter m \<Rightarrow> (Inl (Wrapped ''commit tx'' (OtherError m)), w1\<lparr>tick := Suc (tick w1)\<rparr>))))"

section \<open>users.go\<close>

definition CreateUser :: "pgenv \<Rightarrow> string \<Rightarrow> string \<Rightarrow> (goerr + user) go" where
  "CreateUser env username passwordHash = do {
     r \<leftarrow> query env (\<lambda>now fresh. sql_insert_user now fresh username passwordHash);
     State_Monad.return (case r of
       Inl err \<Rightarrow> if isUniqueViolation err then Inl RepoErrDuplicate else Inl err
     | Inr u \<Rightarrow> Inr u)
   }"

definition GetUserByUsername :: "pgenv \<Rightarrow> string \<Rightarrow> (goerr + user) go" where
  "GetUserByUsername env username = do {
     r \<leftarrow> query env (\<lambda>now fresh. sql_user_by_name username);
     State_Monad.return (case r of Inl err \<Rightarrow> Inl (mapNoRows err) | Inr u \<Rightarrow> Inr u)
   }"

definition GetUserByID :: "pgenv \<Rightarrow> uuid \<Rightarrow> (goerr + user) go" where
  "GetUserByID env i = do {
     r \<leftarrow> query env (\<lambda>now fresh. sql_user_by_id i);
     State_Monad.return (case r of Inl err \<Rightarrow> Inl (mapNoRows err) | Inr u \<Rightarrow> Inr u)
   }"

section \<open>wallets.go\<close>

definition GetOrCreateWallet :: "pgenv \<Rightarrow> uuid \<Rightarrow> int64 \<Rightarrow> (goerr + int64 \<times> bool \<times> bool) go" where
  "GetOrCreateWallet env userID seedPaise = do {
     r \<leftarrow> query env (\<lambda>now fresh. sql_wallet_exists userID);
     case r of
       Inl err \<Rightarrow> State_Monad.return (Inl err)
     | Inr exists \<Rightarrow> do {
         ins \<leftarrow> (if \<not> exists then query env (\<lambda>now fresh. sql_insert_wallet now userID seedPaise)
                else State_Monad.return (Inr 0));
         case ins of
           Inl insErr \<Rightarrow> State_Monad.return (Inl insErr)
         | Inr affected \<Rightarrow> do {
             let created = (\<not> exists \<and> affected = 1);
             let raceLost = (\<not> exists \<and> \<not> created);
             b \<leftarrow> query env (\<lambda>now fresh. sql_balance userID);
             State_Monad.return (case b of
               Inl err \<Rightarrow> Inl (mapNoRows err)
             | Inr balance \<Rightarrow> Inr (balance, created, raceLost))
           }
       }
   }"

definition GetWalletBalances :: "pgenv \<Rightarrow> uuid \<Rightarrow> duration \<Rightarrow> (goerr + int64 \<times> int64) go" where
  "GetWalletBalances env userID window = do {
     r \<leftarrow> query env (\<lambda>now fresh. sql_wallet_balances (cutoff_at env now window) userID);
     State_Monad.return (case r of Inl err \<Rightarrow> Inl (mapNoRows err) | Inr ba \<Rightarrow> Inr ba)
   }"

section \<open>transfers.go\<close>

definition scanTransfer :: "goerr + transfer \<Rightarrow> goerr + transfer" where
  "scanTransfer r = (case r of Inl err \<Rightarrow> Inl (mapNoRows err) | Inr t \<Rightarrow> Inr t)"

definition GetTransferByID :: "pgenv \<Rightarrow> uuid \<Rightarrow> (goerr + transfer) go" where
  "GetTransferByID env i = do {
     r \<leftarrow> query env (\<lambda>now fresh. sql_transfer_by_id i);
     State_Monad.return (scanTransfer r)
   }"

definition GetTransferBySenderKey :: "pgenv \<Rightarrow> uuid \<Rightarrow> string \<Rightarrow> (goerr + transfer) go" where
  "GetTransferBySenderKey env senderID key = do {
     r \<leftarrow> query env (\<lambda>now fresh. sql_transfer_by_key senderID key);
     State_Monad.return (scanTransfer r)
   }"

definition Ping :: "pgenv \<Rightarrow> (goerr + unit) go" where
  "Ping env = query env (\<lambda>now fresh d. (Inr (), []))"

section \<open>What a method does to the state\<close>

lemma run_query:
  "run_state (query env f) w =
     (fst (deliver (pg_link env (tick w)) (f (pg_clock env (tick w)) (pg_uuid env (tick w)) (pg_others env (tick w) (db w)))),
      w\<lparr>db := apply_writes (snd (deliver (pg_link env (tick w))
           (f (pg_clock env (tick w)) (pg_uuid env (tick w)) (pg_others env (tick w) (db w)))))
           (pg_others env (tick w) (db w)), tick := Suc (tick w)\<rparr>)"
  by (simp add: query_def Let_def split_beta)

text \<open>
  A read whose result is delivered. The methods below are computed from the database the
  other sessions have left (\<open>pg_others\<close>) and change nothing else.
\<close>

definition seen :: "pgenv \<Rightarrow> world \<Rightarrow> db" where
  "seen env w = pg_others env (tick w) (db w)"

definition after_read :: "pgenv \<Rightarrow> world \<Rightarrow> world" where
  "after_read env w = w\<lparr>db := seen env w, tick := Suc (tick w)\<rparr>"

lemma after_read_simps [simp]:
  "db (after_read env w) = seen env w" "tick (after_read env w) = Suc (tick w)"
  "mets (after_read env w) = mets w" "logs (after_read env w) = logs w"
  by (simp_all add: after_read_def)

lemma run_read:
  assumes "\<And>now fresh d. snd (f now fresh d) = []"
  shows "run_state (query env f) w =
    (fst (deliver (pg_link env (tick w)) (f (pg_clock env (tick w)) (pg_uuid env (tick w)) (seen env w))),
     after_read env w)"
  by (simp add: run_query snd_deliver assms after_read_def seen_def split: outcome.split)

lemma fst_deliver_Inr_iff: "fst (deliver c res) = Inr x \<longleftrightarrow> c = Fine \<and> fst res = Inr x"
  by (simp add: deliver_def split: outcome.split)

lemma fst_deliver_Fine [simp]: "fst (deliver Fine res) = fst res" "snd (deliver Fine res) = snd res"
  by (simp_all add: deliver_def)

lemma row_result_simps [simp]: "row_result None = Inl PgxErrNoRows" "row_result (Some x) = Inr x"
  by (simp_all add: row_result_def)

definition user_named :: "string \<Rightarrow> db \<Rightarrow> user option" where
  "user_named name d = find (\<lambda>u. Username u = name) (users d)"

definition transfer_with_id :: "uuid \<Rightarrow> db \<Rightarrow> transfer option" where
  "transfer_with_id i d = find (\<lambda>t. trID t = i) (transfers d)"

definition transfer_with_key :: "uuid \<Rightarrow> string \<Rightarrow> db \<Rightarrow> transfer option" where
  "transfer_with_key s k d = find (\<lambda>t. SenderID t = s \<and> IdempotencyKey t = k) (transfers d)"

text \<open>The result a lookup delivers: the row, not-found, or the error of the connection.\<close>

definition lookup_result :: "outcome \<Rightarrow> 'r option \<Rightarrow> goerr + 'r" where
  "lookup_result c row = (case c of
      Fine \<Rightarrow> (case row of None \<Rightarrow> Inl RepoErrNotFound | Some r \<Rightarrow> Inr r)
    | LostBefore m \<Rightarrow> Inl (OtherError m)
    | LostAfter m \<Rightarrow> Inl (OtherError m))"

lemma transfer_with_id_SomeD:
  "transfer_with_id i d = Some t \<Longrightarrow> t \<in> set (transfers d) \<and> trID t = i"
  by (auto simp: transfer_with_id_def dest: find_SomeD)

lemma lookup_result_InrD: "lookup_result c row = Inr r \<Longrightarrow> c = Fine \<and> row = Some r"
  by (auto simp: lookup_result_def split: outcome.splits option.splits)

lemma lookup_result_deliver:
  "(case fst (deliver c (row_result row, ws)) of Inl err \<Rightarrow> Inl (mapNoRows err) | Inr r \<Rightarrow> Inr r) = lookup_result c row"
  by (simp add: deliver_def lookup_result_def row_result_def split: outcome.split option.split)

lemma run_GetUserByUsername [run_simps]:
  "run_state (GetUserByUsername env name) w =
     (lookup_result (pg_link env (tick w)) (user_named name (seen env w)), after_read env w)"
  by (simp add: GetUserByUsername_def run_read split_beta)
    (simp add: sql_user_by_name_def lookup_result_deliver user_named_def)

lemma run_GetUserByID [run_simps]:
  "run_state (GetUserByID env i) w =
     (lookup_result (pg_link env (tick w)) (find (\<lambda>u. uID u = i) (users (seen env w))), after_read env w)"
  by (simp add: GetUserByID_def run_read split_beta) (simp add: sql_user_by_id_def lookup_result_deliver)

lemma run_GetTransferByID [run_simps]:
  "run_state (GetTransferByID env i) w =
     (lookup_result (pg_link env (tick w)) (transfer_with_id i (seen env w)), after_read env w)"
  by (simp add: GetTransferByID_def run_read split_beta scanTransfer_def)
    (simp add: sql_transfer_by_id_def lookup_result_deliver transfer_with_id_def)

lemma run_GetTransferBySenderKey [run_simps]:
  "run_state (GetTransferBySenderKey env s k) w =
     (lookup_result (pg_link env (tick w)) (transfer_with_key s k (seen env w)), after_read env w)"
  by (simp add: GetTransferBySenderKey_def run_read split_beta scanTransfer_def)
    (simp add: sql_transfer_by_key_def lookup_result_deliver transfer_with_key_def)

section \<open>Atomicity of WithTx\<close>

text \<open>
  \<open>WithTx\<close> either returns an error and leaves the database as it was at \<open>BEGIN\<close>, or
  the body's run from there is what it leaves; the third case is a commit whose reply was lost.
\<close>

lemma run_WithTx_cases:
  assumes "run_state (WithTx env fn) w = (r, w')"
  obtains
    (rolled_back) err where "r = Inl err" "db w' = seen env w"
  | (committed) a w1 where "exec_tx env (pg_clock env (tick w)) fn (after_read env w) = (Inr a, w1)"
      "db w' = db w1" "r = Inr a" "pg_link env (tick w) = Fine" "pg_link env (tick w1) = Fine"
      "mets w' = mets w1" "logs w' = logs w1" "tick w' = Suc (tick w1)"
  | (commit_reply_lost) a w1 m where "exec_tx env (pg_clock env (tick w)) fn (after_read env w) = (Inr a, w1)"
      "db w' = db w1" "r = Inl (Wrapped ''commit tx'' (OtherError m))" "pg_link env (tick w1) = LostAfter m"
  using assms
  by (auto simp: WithTx_def Let_def seen_def after_read_def split: outcome.splits prod.splits sum.splits)

lemma schema_ok_query:
  assumes "schema_ok (seen env w)"
    and "\<And>now fresh d. schema_ok d \<Longrightarrow> schema_ok (apply_writes (snd (f now fresh d)) d)"
  shows "schema_ok (db (snd (run_state (query env f) w)))"
  using assms by (simp add: run_query schema_ok_deliver seen_def [symmetric])

lemma schema_ok_WithTx:
  assumes "schema_ok (seen env w)"
  shows "schema_ok (db (snd (run_state (WithTx env fn) w)))"
proof -
  obtain r w' where run: "run_state (WithTx env fn) w = (r, w')" by force
  have "schema_ok (db (snd (exec_tx env now fn (after_read env w))))" for now
    by (rule schema_ok_exec_tx) (simp add: assms)
  note kept = this
  show ?thesis
    using run
  proof (cases rule: run_WithTx_cases)
    case rolled_back
    then show ?thesis using run assms by simp
  next
    case committed
    then show ?thesis using run kept [of "pg_clock env (tick w)"] by simp
  next
    case commit_reply_lost
    then show ?thesis using run kept [of "pg_clock env (tick w)"] by simp
  qed
qed

lemma tick_query [simp]: "tick (snd (run_state (query env f) w)) = Suc (tick w)"
  by (simp add: run_query)

lemma tick_WithTx: "tick w < tick (snd (run_state (WithTx env fn) w))"
proof -
  have "Suc (tick w) \<le> tick (snd (exec_tx env now fn (after_read env w)))" for now
    using tick_exec_tx [of "after_read env w" env now fn] by simp
  from this [of "pg_clock env (tick w)"] show ?thesis
    by (auto simp: WithTx_def Let_def after_read_def seen_def split: outcome.splits prod.splits sum.splits)
qed

end
