(* ===== verification/Extern.thy ===== *)
theory Extern
  imports Prelude "HOL-Library.List_Lexorder" "HOL-Library.Char_ord"
begin

text \<open>
  The third-party packages the service calls, as parameters: \<open>google/uuid\<close>,
  \<open>golang-jwt/jwt/v5\<close> and \<open>golang.org/x/crypto/bcrypt\<close>. What the service relies on
  is stated as hypotheses where it is used (\<open>uuid_ok\<close>, \<open>jwt_ok\<close>, \<open>bcrypt_ok\<close>).
\<close>

type_synonym gotime = int
  \<comment> \<open>\<open>time.Time\<close>: nanoseconds\<close>

text \<open>\<open>jwt.RegisteredClaims\<close>, the three fields the service sets.\<close>

record jwt_claims =
  Subject :: string
  IssuedAt :: gotime
  ExpiresAt :: gotime

record extern =
  uuid_String :: "uuid \<Rightarrow> string"
  uuid_Parse :: "string \<Rightarrow> uuid option"
  bcrypt_Generate :: "string \<Rightarrow> nat \<Rightarrow> string option"
    \<comment> \<open>\<open>GenerateFromPassword\<close>; the second argument stands for the random salt\<close>
  bcrypt_Compare :: "string \<Rightarrow> string \<Rightarrow> bool"
    \<comment> \<open>\<open>CompareHashAndPassword\<close> returned no error\<close>
  jwt_NewNumericDate :: "gotime \<Rightarrow> gotime"
  jwt_SignedString :: "jwt_claims \<Rightarrow> string \<Rightarrow> string option"
    \<comment> \<open>\<open>NewWithClaims(HS256, claims).SignedString(secret)\<close>\<close>
  jwt_ParseWithClaims :: "string \<Rightarrow> gotime \<Rightarrow> string \<Rightarrow> jwt_claims option"
    \<comment> \<open>of a token, at a time, with the secret as key, HS256 only, expiration required;
        \<open>None\<close>: an error or \<open>!token.Valid\<close>\<close>
  jwt_GetSubject :: "jwt_claims \<Rightarrow> string option"

text \<open>Documented behaviour of \<open>uuid.UUID.String\<close> and \<open>uuid.Parse\<close>: \<open>Parse\<close> inverts \<open>String\<close>.\<close>

definition uuid_ok :: "extern \<Rightarrow> bool" where
  "uuid_ok x \<longleftrightarrow> (\<forall>u. uuid_Parse x (uuid_String x u) = Some u)"

lemma uuid_String_inject: "uuid_ok x \<Longrightarrow> uuid_String x u = uuid_String x v \<longleftrightarrow> u = v"
  by (metis uuid_ok_def option.inject)

text \<open>
  Documented behaviour of the JWT package: \<open>NewNumericDate\<close> truncates to a precision, so it
  leaves a truncated time alone; claims with truncated times can be signed, and the token
  parses back to them under the same key until they expire; no token parses at or after the
  expiry it carries; \<open>RegisteredClaims.GetSubject\<close> returns the field.
\<close>

definition jwt_ok :: "extern \<Rightarrow> bool" where
  "jwt_ok x \<longleftrightarrow>
     (\<forall>t. jwt_NewNumericDate x (jwt_NewNumericDate x t) = jwt_NewNumericDate x t) \<and>
     (\<forall>c k. jwt_NewNumericDate x (IssuedAt c) = IssuedAt c \<longrightarrow> jwt_NewNumericDate x (ExpiresAt c) = ExpiresAt c \<longrightarrow>
        (\<exists>tok. jwt_SignedString x c k = Some tok \<and> tok \<noteq> [] \<and>
          (\<forall>now. now < ExpiresAt c \<longrightarrow> jwt_ParseWithClaims x tok now k = Some c))) \<and>
     (\<forall>tok now k c. jwt_ParseWithClaims x tok now k = Some c \<longrightarrow> now < ExpiresAt c) \<and>
     (\<forall>c. jwt_GetSubject x c = Some (Subject c))"

text \<open>
  Documented behaviour of bcrypt: a password of at most 72 bytes has a hash, and the hash
  compares equal to that password.
\<close>

definition bcrypt_ok :: "extern \<Rightarrow> bool" where
  "bcrypt_ok x \<longleftrightarrow> (\<forall>pw salt. length pw \<le> 72 \<longrightarrow>
     (\<exists>h. bcrypt_Generate x pw salt = Some h \<and> bcrypt_Compare x h pw))"

end
