(* ===== verification/Http.thy ===== *)
theory Http
  imports Store Extern
begin

text \<open>
  What the service uses of \<open>net/http\<close> and \<open>encoding/json\<close>, and the wire structs of
  \<open>internal/dto/dto.go\<close>. JSON is a value (\<open>json\<close>); a request carries the first JSON value
  of its body, or the error with which the decoder stops before it has one. A time is kept as
  \<open>JTime\<close>, which stands for its RFC 3339 text. A handler gets the request object and returns
  the response or a panic, and the request object as it leaves it: the router writes the
  matched pattern into the object it was given, and \<open>WithContext\<close> copies.
\<close>

section \<open>JSON values\<close>

datatype json =
    JNull
  | JBool bool
  | JNumber string  \<comment> \<open>the literal\<close>
  | JString string
  | JTime pgtime
  | JArray "json list"
  | JObject "(string \<times> json) list"

definition JInt :: "int64 \<Rightarrow> json" where
  "JInt i = JNumber (fmt_d (sint i))"

section \<open>Requests and responses\<close>

record http_request =
  Method :: string
  Path :: string
  Authorization :: string  \<comment> \<open>\<open>Header.Get("Authorization")\<close>, empty when absent\<close>
  LimitParam :: string     \<comment> \<open>\<open>URL.Query().Get("limit")\<close>\<close>
  Body :: "string + json"
  Pattern :: string        \<comment> \<open>written by the router\<close>
  PathID :: string         \<comment> \<open>\<open>PathValue("id")\<close>, written by the router\<close>
  CtxUserID :: "uuid option"  \<comment> \<open>the value under \<open>userIDKey{}\<close> in the context\<close>

datatype body = BodyJSON json | BodyText string

record http_response =
  RespStatus :: nat
  RespHeaders :: "(string \<times> string) list"
  RespBody :: body

text \<open>A response, or a panic with the headers set so far.\<close>

type_synonym served = "(string \<times> string) list + http_response"

type_synonym handler = "http_request \<Rightarrow> (served \<times> http_request) go"

section \<open>dto.go\<close>

record SignupRequest =
  sqUsername :: string
  sqPassword :: string

record TransferRequest =
  tqToUser :: string
  tqAmountPaise :: int64
  tqIdempotencyKey :: string

definition AuthResponse :: "string \<Rightarrow> string \<Rightarrow> json" where
  "AuthResponse token userID = JObject [(''token'', JString token), (''user_id'', JString userID)]"

definition AccountResponse :: "string \<Rightarrow> int64 \<Rightarrow> json" where
  "AccountResponse userID balance = JObject [(''user_id'', JString userID), (''balance_paise'', JInt balance)]"

definition BalanceResponse :: "int64 \<Rightarrow> int64 \<Rightarrow> json" where
  "BalanceResponse balance available =
     JObject [(''balance_paise'', JInt balance), (''available_paise'', JInt available)]"

definition TransferResponse :: "string \<Rightarrow> int64 \<Rightarrow> json" where
  "TransferResponse transferID newBalance =
     JObject [(''transfer_id'', JString transferID), (''new_balance'', JInt newBalance)]"

definition TransferDetails :: "extern \<Rightarrow> transfer \<Rightarrow> json" where
  "TransferDetails x tr = JObject
     ([(''transfer_id'', JString (uuid_String x (trID tr))),
       (''sender_id'', JString (uuid_String x (SenderID tr))),
       (''recipient_id'', JString (uuid_String x (RecipientID tr))),
       (''amount_paise'', JInt (AmountPaise tr)),
       (''status'', JString (Status tr)),
       (''created_at'', JTime (trCreatedAt tr))] @
      (case ReversedAt tr of None \<Rightarrow> [] | Some at \<Rightarrow> [(''reversed_at'', JTime at)]))"

definition ClaimResponse :: "string \<Rightarrow> string \<Rightarrow> int64 \<Rightarrow> pgtime \<Rightarrow> json" where
  "ClaimResponse transferID status newBalance reversedAt =
     JObject [(''transfer_id'', JString transferID), (''status'', JString status),
       (''new_balance'', JInt newBalance), (''reversed_at'', JTime reversedAt)]"

definition ErrorResponse :: "string \<Rightarrow> string \<Rightarrow> json" where
  "ErrorResponse message err =
     JObject [(''success'', JBool False), (''message'', JString message), (''error'', JString err)]"

section \<open>Decoding into a struct\<close>

text \<open>
  \<open>json.Decoder\<close> with \<open>DisallowUnknownFields\<close>: a key names the field with that exact tag,
  else the first whose tag is equal under case folding; \<open>null\<close> leaves a field alone; a
  later duplicate overrides; the first error is reported after all keys have been read.
  Folding maps a letter to upper case, and the two non-ASCII letters that fold to ASCII ones
  (long s, Kelvin sign; here as UTF-8 bytes) as well.
\<close>

definition upper_char :: "char \<Rightarrow> char" where
  "upper_char c = (if 97 \<le> (of_char c :: nat) \<and> (of_char c :: nat) \<le> 122 then char_of ((of_char c :: nat) - 32) else c)"

fun fold_key :: "string \<Rightarrow> string" where
  "fold_key (a # b # c # s) =
     (if a = CHR 0xC5 \<and> b = CHR 0xBF then CHR ''S'' # fold_key (c # s)
      else if a = CHR 0xE2 \<and> b = CHR 0x84 \<and> c = CHR 0xAA then CHR ''K'' # fold_key s
      else upper_char a # fold_key (b # c # s))"
| "fold_key [a, b] = (if a = CHR 0xC5 \<and> b = CHR 0xBF then ''S'' else [upper_char a, upper_char b])"
| "fold_key [a] = [upper_char a]"
| "fold_key [] = []"

declare fold_key.simps [simp del]

datatype field_kind = FString | FInt64

datatype field_value = VString string | VInt64 int64

definition field_zero :: "field_kind \<Rightarrow> field_value" where
  "field_zero k = (case k of FString \<Rightarrow> VString [] | FInt64 \<Rightarrow> VInt64 0)"

definition find_field :: "(string \<times> field_kind) list \<Rightarrow> string \<Rightarrow> (string \<times> field_kind) option" where
  "find_field fs key =
     (case find (\<lambda>f. fst f = key) fs of
        Some f \<Rightarrow> Some f
      | None \<Rightarrow> find (\<lambda>f. fold_key (fst f) = fold_key key) fs)"

datatype decode_error =
    SyntaxOrSize string                  \<comment> \<open>the body has no complete JSON value\<close>
  | UnknownField string
  | TypeMismatch string string           \<comment> \<open>what was found, the field\<close>

fun json_kind :: "json \<Rightarrow> string" where
  "json_kind JNull = ''null''"
| "json_kind (JBool b) = ''bool''"
| "json_kind (JNumber n) = ''number''"
| "json_kind (JString s) = ''string''"
| "json_kind (JTime t) = ''string''"
| "json_kind (JArray vs) = ''array''"
| "json_kind (JObject kvs) = ''object''"

definition decode_field :: "string \<times> field_kind \<Rightarrow> json \<Rightarrow> decode_error + field_value option" where
  "decode_field f v =
     (case v of
        JNull \<Rightarrow> Inr None
      | JString s \<Rightarrow> (case snd f of FString \<Rightarrow> Inr (Some (VString s)) | FInt64 \<Rightarrow> Inl (TypeMismatch ''string'' (fst f)))
      | JNumber n \<Rightarrow> (case snd f of
            FString \<Rightarrow> Inl (TypeMismatch ''number'' (fst f))
          | FInt64 \<Rightarrow> (case parse_int64 n of
                None \<Rightarrow> Inl (TypeMismatch (''number '' @ n) (fst f))
              | Some i \<Rightarrow> Inr (Some (VInt64 i))))
      | _ \<Rightarrow> Inl (TypeMismatch (json_kind v) (fst f)))"

fun decode_members ::
  "(string \<times> field_kind) list \<Rightarrow> (string \<times> json) list \<Rightarrow> (string \<Rightarrow> field_value) \<Rightarrow> decode_error option
     \<Rightarrow> decode_error + (string \<Rightarrow> field_value)" where
  "decode_members fs [] vals saved = (case saved of None \<Rightarrow> Inr vals | Some e \<Rightarrow> Inl e)"
| "decode_members fs ((key, v) # kvs) vals saved =
     (let keep = (\<lambda>e. case saved of None \<Rightarrow> Some e | Some e0 \<Rightarrow> Some e0) in
      case find_field fs key of
        None \<Rightarrow> decode_members fs kvs vals (keep (UnknownField key))
      | Some f \<Rightarrow> (case decode_field f v of
            Inl e \<Rightarrow> decode_members fs kvs vals (keep e)
          | Inr None \<Rightarrow> decode_members fs kvs vals saved
          | Inr (Some x) \<Rightarrow> decode_members fs kvs (vals(fst f := x)) saved))"

definition decode_struct ::
  "(string \<times> field_kind) list \<Rightarrow> string + json \<Rightarrow> decode_error + (string \<Rightarrow> field_value)" where
  "decode_struct fs b =
     (let zero = (\<lambda>n. case map_of fs n of None \<Rightarrow> VString [] | Some k \<Rightarrow> field_zero k) in
      case b of
        Inl err \<Rightarrow> Inl (SyntaxOrSize err)
      | Inr JNull \<Rightarrow> Inr zero
      | Inr (JObject kvs) \<Rightarrow> decode_members fs kvs zero None
      | Inr v \<Rightarrow> Inl (TypeMismatch (json_kind v) []))"

definition get_string :: "(string \<Rightarrow> field_value) \<Rightarrow> string \<Rightarrow> string" where
  "get_string vals n = (case vals n of VString s \<Rightarrow> s | VInt64 i \<Rightarrow> [])"

definition get_int64 :: "(string \<Rightarrow> field_value) \<Rightarrow> string \<Rightarrow> int64" where
  "get_int64 vals n = (case vals n of VString s \<Rightarrow> 0 | VInt64 i \<Rightarrow> i)"

definition decode_SignupRequest :: "string + json \<Rightarrow> decode_error + SignupRequest" where
  "decode_SignupRequest b =
     map_sum id (\<lambda>vals. \<lparr>sqUsername = get_string vals ''username'', sqPassword = get_string vals ''password''\<rparr>)
       (decode_struct [(''username'', FString), (''password'', FString)] b)"

definition decode_TransferRequest :: "string + json \<Rightarrow> decode_error + TransferRequest" where
  "decode_TransferRequest b =
     map_sum id (\<lambda>vals. \<lparr>tqToUser = get_string vals ''to_user'', tqAmountPaise = get_int64 vals ''amount_paise'',
         tqIdempotencyKey = get_string vals ''idempotency_key''\<rparr>)
       (decode_struct [(''to_user'', FString), (''amount_paise'', FInt64), (''idempotency_key'', FString)] b)"

text \<open>What a client that marshals the struct sends, and that it arrives.\<close>

definition encode_TransferRequest :: "TransferRequest \<Rightarrow> json" where
  "encode_TransferRequest q = JObject [(''to_user'', JString (tqToUser q)),
     (''amount_paise'', JInt (tqAmountPaise q)), (''idempotency_key'', JString (tqIdempotencyKey q))]"

lemma find_field_exact [simp]: "find (\<lambda>f. fst f = key) fs = Some f \<Longrightarrow> find_field fs key = Some f"
  by (simp add: find_field_def)

lemma decode_encode_TransferRequest: "decode_TransferRequest (Inr (encode_TransferRequest q)) = Inr q"
  by (simp add: decode_TransferRequest_def encode_TransferRequest_def decode_struct_def Let_def decode_field_def
      JInt_def parse_int64_fmt_d get_string_def get_int64_def)

end
