(* ===== verification/Sha256.thy ===== *)
theory Sha256
  imports Prelude
begin

text \<open>
  \<open>crypto/sha256.Sum256\<close> of the Go standard library (FIPS 180-4), on the bytes of a Go
  string: padding to 64-byte blocks, the message schedule, the 64 rounds of the compression
  function, and the big-endian digest.
\<close>

unbundle bit_operations_syntax

type_synonym u32 = "32 word"

definition sha_k :: "u32 list" where
  "sha_k =
    [1116352408, 1899447441, 3049323471, 3921009573, 961987163, 1508970993, 2453635748, 2870763221,
     3624381080, 310598401, 607225278, 1426881987, 1925078388, 2162078206, 2614888103, 3248222580,
     3835390401, 4022224774, 264347078, 604807628, 770255983, 1249150122, 1555081692, 1996064986,
     2554220882, 2821834349, 2952996808, 3210313671, 3336571891, 3584528711, 113926993, 338241895,
     666307205, 773529912, 1294757372, 1396182291, 1695183700, 1986661051, 2177026350, 2456956037,
     2730485921, 2820302411, 3259730800, 3345764771, 3516065817, 3600352804, 4094571909, 275423344,
     430227734, 506948616, 659060556, 883997877, 958139571, 1322822218, 1537002063, 1747873779,
     1955562222, 2024104815, 2227730452, 2361852424, 2428436474, 2756734187, 3204031479, 3329325298]"

definition sha_init :: "u32 list" where
  "sha_init = [1779033703, 3144134277, 1013904242, 2773480762, 1359893119, 2600822924, 528734635, 1541459225]"

definition bytes_of :: "string \<Rightarrow> 8 word list" where
  "bytes_of s = map (\<lambda>c. word_of_int (of_char c)) s"

definition be_bytes :: "nat \<Rightarrow> int \<Rightarrow> 8 word list" where
  "be_bytes k n = map (\<lambda>i. word_of_int (n div 256 ^ (k - Suc i) mod 256)) [0..<k]"

definition sha_pad :: "8 word list \<Rightarrow> 8 word list" where
  "sha_pad bs = bs @ [0x80] @ replicate ((119 - length bs mod 64) mod 64) 0 @ be_bytes 8 (8 * int (length bs))"

fun be_words :: "8 word list \<Rightarrow> u32 list" where
  "be_words (a # b # c # d # bs) =
     (push_bit 24 (ucast a) OR push_bit 16 (ucast b) OR push_bit 8 (ucast c) OR ucast d) # be_words bs"
| "be_words _ = []"

fun sha_schedule :: "nat \<Rightarrow> u32 list \<Rightarrow> u32 list" where
  "sha_schedule 0 ws = ws"
| "sha_schedule (Suc n) ws =
     (let l = length ws; v1 = ws ! (l - 2); v2 = ws ! (l - 15);
          t1 = word_rotr 17 v1 XOR word_rotr 19 v1 XOR drop_bit 10 v1;
          t2 = word_rotr 7 v2 XOR word_rotr 18 v2 XOR drop_bit 3 v2
      in sha_schedule n (ws @ [t1 + ws ! (l - 7) + t2 + ws ! (l - 16)]))"

fun sha_round :: "u32 list \<Rightarrow> u32 \<times> u32 \<Rightarrow> u32 list" where
  "sha_round [a, b, c, d, e, f, g, h] (k, w) =
     (let t1 = h + (word_rotr 6 e XOR word_rotr 11 e XOR word_rotr 25 e) + ((e AND f) XOR (NOT e AND g)) + k + w;
          t2 = (word_rotr 2 a XOR word_rotr 13 a XOR word_rotr 22 a) + ((a AND b) XOR (a AND c) XOR (b AND c))
      in [t1 + t2, a, b, c, d + t1, e, f, g])"
| "sha_round st _ = st"

definition sha_block :: "u32 list \<Rightarrow> u32 list \<Rightarrow> u32 list" where
  "sha_block st ws = map2 (+) st (foldl sha_round st (zip sha_k (sha_schedule 48 ws)))"

function sha_blocks :: "u32 list \<Rightarrow> u32 list \<Rightarrow> u32 list" where
  "sha_blocks st ws = (if ws = [] then st else sha_blocks (sha_block st (take 16 ws)) (drop 16 ws))"
  by pat_completeness auto
termination
  by (relation "measure (\<lambda>(st, ws). length ws)") auto

declare sha_blocks.simps [simp del]

definition digest_bytes :: "u32 list \<Rightarrow> 8 word list" where
  "digest_bytes st = concat (map (\<lambda>w. be_bytes 4 (uint w)) st)"

definition sum256 :: "string \<Rightarrow> 8 word list" where
  "sum256 s = digest_bytes (sha_blocks sha_init (be_words (sha_pad (bytes_of s))))"

text \<open>The digest of every message is 32 bytes.\<close>

lemma length_sha_round [simp]: "length (sha_round st kw) = length st"
  by (cases "(st, kw)" rule: sha_round.cases) (simp_all add: Let_def)

lemma length_sha_rounds: "length (foldl sha_round st kws) = length st"
  by (induction kws arbitrary: st) simp_all

lemma length_sha_blocks: "length (sha_blocks st ws) = length st"
proof (induction st ws rule: sha_blocks.induct)
  case (1 st ws)
  then show ?case
    by (subst sha_blocks.simps) (simp add: sha_block_def length_sha_rounds)
qed

lemma length_digest_bytes: "length (digest_bytes st) = 4 * length st"
  by (induction st) (simp_all add: digest_bytes_def be_bytes_def)

lemma length_sum256 [simp]: "length (sum256 s) = 32"
  by (simp add: sum256_def length_digest_bytes length_sha_blocks sha_init_def)

end
