(* ===== verification/Transfer_Service.thy ===== *)
theory Transfer_Service
  imports Store Transfer_Body Sha256
begin

text \<open>
  \<open>internal/service/transfer.go\<close>: \<open>Execute\<close>, \<open>resolveExistingKey\<close>, \<open>GetByID\<close>,
  \<open>ClaimBack\<close>, \<open>resolveUnappliedClaim\<close>, \<open>replayClaim\<close> and \<open>hashBody\<close>. A result is
  \<open>Inl err\<close> or \<open>Inr\<close> the value; \<open>ClaimBack\<close> dereferences two pointers when it replays,
  so its result is an option whose \<open>None\<close> is the panic of a nil dereference.
\<close>

section \<open>The body hash\<close>

definition body_text :: "string \<Rightarrow> int64 \<Rightarrow> string" where
  "body_text toUsername amountPaise = toUsername @ ''|'' @ fmt_d (sint amountPaise)"

definition hashBody :: "string \<Rightarrow> int64 \<Rightarrow> string" where
  "hashBody toUsername amountPaise = hex_encode (sum256 (body_text toUsername amountPaise))"

section \<open>Counters and log lines\<close>

definition count_transfer_rejected :: "string \<Rightarrow> metrics \<Rightarrow> metrics" where
  "count_transfer_rejected reason m = m\<lparr>TransfersRejected := bump (TransfersRejected m) reason\<rparr>"

definition count_transfer_applied :: "metrics \<Rightarrow> metrics" where
  "count_transfer_applied m = m\<lparr>TransfersApplied := Suc (TransfersApplied m)\<rparr>"

definition count_idempotent_replay :: "metrics \<Rightarrow> metrics" where
  "count_idempotent_replay m = m\<lparr>IdempotentReplays := Suc (IdempotentReplays m)\<rparr>"

definition count_claim_applied :: "metrics \<Rightarrow> metrics" where
  "count_claim_applied m = m\<lparr>ClaimsApplied := Suc (ClaimsApplied m)\<rparr>"

definition count_claim_rejected :: "string \<Rightarrow> metrics \<Rightarrow> metrics" where
  "count_claim_rejected reason m = m\<lparr>ClaimsRejected := bump (ClaimsRejected m) reason\<rparr>"

definition count_claim_replay :: "metrics \<Rightarrow> metrics" where
  "count_claim_replay m = m\<lparr>ClaimReplays := Suc (ClaimReplays m)\<rparr>"

section \<open>Execute\<close>

definition resolveExistingKey :: "pgenv \<Rightarrow> uuid \<Rightarrow> string \<Rightarrow> string \<Rightarrow> (goerr + transfer_result) go" where
  "resolveExistingKey env senderID key bodyHash = do {
     r \<leftarrow> GetTransferBySenderKey env senderID key;
     case r of
       Inl err \<Rightarrow> State_Monad.return (Inl (Wrapped ''load transfer for claimed key'' err))
     | Inr existing \<Rightarrow>
         if BodyHash existing \<noteq> bodyHash then do {
           observe (count_transfer_rejected ''idempotency_conflict'')
             [log_warn ''idempotency_conflict'' [(''sender_id'', AUuid senderID), (''transfer_id'', AUuid (trID existing))]];
           State_Monad.return (Inl ErrIdempotencyConflict)
         }
         else do {
           observe count_idempotent_replay
             [log_info ''idempotent_replay'' [(''sender_id'', AUuid senderID), (''transfer_id'', AUuid (trID existing))]];
           State_Monad.return (Inr \<lparr>TransferID = trID existing, NewBalance = SenderBalanceAfter existing, Replayed = True\<rparr>)
         }
   }"

text \<open>What \<open>Execute\<close> does with the result of its transaction.\<close>

definition execute_finish ::
  "pgenv \<Rightarrow> uuid \<Rightarrow> uuid \<Rightarrow> int64 \<Rightarrow> string \<Rightarrow> string \<Rightarrow> goerr + transfer_result \<Rightarrow> (goerr + transfer_result) go" where
  "execute_finish env senderID recipientID amountPaise key bodyHash res =
     (case res of
        Inr result \<Rightarrow> do {
          observe count_transfer_applied
            [log_info ''transfer_applied''
              [(''transfer_id'', AUuid (TransferID result)), (''sender_id'', AUuid senderID),
               (''recipient_id'', AUuid recipientID), (''amount_paise'', AInt (sint amountPaise))]];
          State_Monad.return (Inr result)
        }
      | Inl err \<Rightarrow>
          if errors_Is err ErrKeyExists then resolveExistingKey env senderID key bodyHash
          else if errors_Is err ErrInsufficientFunds then do {
            observe (count_transfer_rejected ''insufficient_funds'')
              [log_info ''insufficient_funds_rejected''
                [(''sender_id'', AUuid senderID), (''amount_paise'', AInt (sint amountPaise))]];
            State_Monad.return (Inl err)
          }
          else State_Monad.return (Inl err))"

definition Execute ::
  "pgenv \<Rightarrow> extern \<Rightarrow> transfer_service \<Rightarrow> uuid \<Rightarrow> string \<Rightarrow> int64 \<Rightarrow> string \<Rightarrow> (goerr + transfer_result) go" where
  "Execute env x t senderID toUsername amountPaise key =
     (if amountPaise \<le>s 0 then do {
        observe (count_transfer_rejected ''invalid_amount'') [];
        State_Monad.return (Inl (Invalid ''amount_paise must be a positive integer''))
      }
      else if key = [] \<or> length key > 128 then
        State_Monad.return (Inl (Invalid ''idempotency_key is required (1-128 chars)''))
      else do {
        r \<leftarrow> GetUserByUsername env toUsername;
        case r of
          Inl err \<Rightarrow>
            if errors_Is err RepoErrNotFound then do {
              observe (count_transfer_rejected ''unknown_recipient'') [];
              State_Monad.return (Inl ErrUnknownRecipient)
            }
            else State_Monad.return (Inl err)
        | Inr recipient \<Rightarrow>
            if uID recipient = senderID then do {
              observe (count_transfer_rejected ''self_transfer'') [];
              State_Monad.return (Inl ErrSelfTransfer)
            }
            else do {
              let bodyHash = hashBody toUsername amountPaise;
              res \<leftarrow> WithTx env (execute_body x t senderID (uID recipient) amountPaise key bodyHash);
              execute_finish env senderID (uID recipient) amountPaise key bodyHash res
            }
      })"

section \<open>GetByID\<close>

definition GetByID :: "pgenv \<Rightarrow> uuid \<Rightarrow> uuid \<Rightarrow> (goerr + transfer) go" where
  "GetByID env callerID transferID = do {
     r \<leftarrow> GetTransferByID env transferID;
     State_Monad.return (case r of
       Inl err \<Rightarrow> Inl (mapRepoNotFound err ErrNotFound)
     | Inr tr \<Rightarrow> if SenderID tr \<noteq> callerID \<and> RecipientID tr \<noteq> callerID then Inl ErrNotFound else Inr tr)
   }"

section \<open>ClaimBack\<close>

text \<open>The counter and the log line come first; then \<open>*tr.SenderBalanceAfterReversal\<close> and \<open>*tr.ReversedAt\<close>.\<close>

definition replayClaim :: "transfer \<Rightarrow> claim_result option go" where
  "replayClaim tr = do {
     observe count_claim_replay
       [log_info ''claim_replay'' [(''transfer_id'', AUuid (trID tr)), (''sender_id'', AUuid (SenderID tr))]];
     State_Monad.return (case SenderBalanceAfterReversal tr of
       None \<Rightarrow> None
     | Some newBalance \<Rightarrow> (case ReversedAt tr of
         None \<Rightarrow> None
       | Some reversedAt \<Rightarrow> Some \<lparr>cTransferID = trID tr, cNewBalance = newBalance, cReversedAt = reversedAt,
           cReplayed = True\<rparr>))
   }"

definition resolveUnappliedClaim :: "pgenv \<Rightarrow> uuid \<Rightarrow> (goerr + claim_result) option go" where
  "resolveUnappliedClaim env transferID = do {
     r \<leftarrow> GetTransferByID env transferID;
     case r of
       Inl err \<Rightarrow> State_Monad.return (Some (Inl (Wrapped ''load transfer after unapplied claim'' err)))
     | Inr tr \<Rightarrow>
         if Status tr = TransferReversed then do {
           res \<leftarrow> replayClaim tr;
           State_Monad.return (map_option Inr res)
         }
         else do {
           observe (count_claim_rejected ''window_expired'')
             [log_info ''claim_window_expired'' [(''transfer_id'', AUuid (trID tr)), (''sender_id'', AUuid (SenderID tr))]];
           State_Monad.return (Some (Inl ErrClaimWindowExpired))
         }
   }"

text \<open>What \<open>ClaimBack\<close> does with the result of its transaction.\<close>

definition claim_finish ::
  "pgenv \<Rightarrow> transfer \<Rightarrow> goerr + claim_result \<Rightarrow> (goerr + claim_result) option go" where
  "claim_finish env tr res =
     (case res of
        Inr result \<Rightarrow> do {
          observe count_claim_applied
            [log_info ''claim_applied''
              [(''transfer_id'', AUuid (trID tr)), (''sender_id'', AUuid (SenderID tr)),
               (''recipient_id'', AUuid (RecipientID tr)), (''amount_paise'', AInt (sint (AmountPaise tr)))]];
          State_Monad.return (Some (Inr result))
        }
      | Inl err \<Rightarrow>
          if errors_Is err ErrClaimNotApplied then resolveUnappliedClaim env (trID tr)
          else State_Monad.return (Some (Inl err)))"

definition ClaimBack ::
  "pgenv \<Rightarrow> extern \<Rightarrow> transfer_service \<Rightarrow> uuid \<Rightarrow> uuid \<Rightarrow> (goerr + claim_result) option go" where
  "ClaimBack env x t callerID transferID = do {
     r \<leftarrow> GetTransferByID env transferID;
     case r of
       Inl err \<Rightarrow> State_Monad.return (Some (Inl (mapRepoNotFound err ErrNotFound)))
     | Inr tr \<Rightarrow>
         if SenderID tr \<noteq> callerID then do {
           observe (count_claim_rejected ''not_sender'') [];
           State_Monad.return (Some (Inl ErrNotFound))
         }
         else if Status tr = TransferReversed then do {
           res \<leftarrow> replayClaim tr;
           State_Monad.return (map_option Inr res)
         }
         else do {
           res \<leftarrow> WithTx env (claim_body x t tr);
           claim_finish env tr res
         }
   }"

section \<open>The body hash tells request bodies apart\<close>

text \<open>
  The hashed text is unambiguous even for user names that contain the delimiter, because the
  decimal after the last delimiter never does.
\<close>

lemma last_delimiter_unique:
  assumes "xs @ c # ds = ys @ c # es" "c \<notin> set ds" "c \<notin> set es"
  shows "xs = ys \<and> ds = es"
  using assms
proof (induction xs arbitrary: ys)
  case Nil
  then show ?case by (cases ys) auto
next
  case (Cons x xs)
  then show ?case by (cases ys) auto
qed

lemma body_text_inject: "body_text u a = body_text v b \<longleftrightarrow> u = v \<and> a = b"
proof
  assume "body_text u a = body_text v b"
  then have "u @ CHR ''|'' # fmt_d (sint a) = v @ CHR ''|'' # fmt_d (sint b)"
    by (simp add: body_text_def)
  from last_delimiter_unique [OF this fmt_d_no_bar fmt_d_no_bar]
  have "u = v \<and> fmt_d (sint a) = fmt_d (sint b)" .
  then show "u = v \<and> a = b"
    by (auto simp: fmt_d_inject intro: signed_word_eqI)
qed simp

text \<open>Equal hashes of different bodies are a collision of SHA-256.\<close>

lemma hashBody_collision:
  assumes "hashBody u a = hashBody v b" "(u, a) \<noteq> (v, b)"
  shows "body_text u a \<noteq> body_text v b" "sum256 (body_text u a) = sum256 (body_text v b)"
  using assms by (auto simp: hashBody_def hex_encode_inject body_text_inject)

lemma length_hashBody: "length (hashBody u a) = 64"
  by (simp add: hashBody_def length_hex_encode)

end
