(* ===== verification/Wallet_Service.thy ===== *)
theory Wallet_Service
  imports Store
begin

text \<open>\<open>internal/service/wallet.go\<close>: get-or-create and the two balances.\<close>

record wallet_service =
  wsSeedPaise :: int64
  wsClaimWindow :: duration

definition count_wallet_race_lost :: "metrics \<Rightarrow> metrics" where
  "count_wallet_race_lost m = m\<lparr>GetOrCreateRaceLost := Suc (GetOrCreateRaceLost m)\<rparr>"

definition GetOrCreate :: "pgenv \<Rightarrow> wallet_service \<Rightarrow> uuid \<Rightarrow> (goerr + int64 \<times> bool) go" where
  "GetOrCreate env ws userID = do {
     r \<leftarrow> GetOrCreateWallet env userID (wsSeedPaise ws);
     case r of
       Inl err \<Rightarrow> State_Monad.return (Inl err)
     | Inr (balance, created, raceLost) \<Rightarrow> do {
         (if raceLost then
            observe count_wallet_race_lost [log_info ''get_or_create_race_lost'' [(''user_id'', AUuid userID)]]
          else State_Monad.return ());
         (if created then
            observe (\<lambda>m. m) [log_info ''wallet_created''
              [(''user_id'', AUuid userID), (''seed_paise'', AInt (sint (wsSeedPaise ws)))]]
          else State_Monad.return ());
         State_Monad.return (Inr (balance, created))
       }
   }"

definition GetBalance :: "pgenv \<Rightarrow> wallet_service \<Rightarrow> uuid \<Rightarrow> (goerr + int64 \<times> int64) go" where
  "GetBalance env ws userID = do {
     r \<leftarrow> GetWalletBalances env userID (wsClaimWindow ws);
     State_Monad.return (case r of
       Inl err \<Rightarrow> Inl (mapRepoNotFound err ErrNoWallet)
     | Inr (balance, available) \<Rightarrow> Inr (balance, available))
   }"

end
