(* ===== verification/Auth_Service.thy ===== *)
theory Auth_Service
  imports Store Extern
begin

text \<open>
  \<open>internal/service/auth.go\<close>: sign-up, log-in, and the tokens that are the only source of
  identity. bcrypt, the JWT package and UUID parsing are the parameters of \<open>Extern\<close>.
\<close>

record auth_service =
  secret :: string
  tokenTTL :: duration

text \<open>\<open>^[a-zA-Z0-9_.-]{3,32}$\<close>, on bytes: a byte above 127 is never part of a match.\<close>

definition username_char :: "char \<Rightarrow> bool" where
  "username_char c \<longleftrightarrow>
     (let n = (of_char c :: nat) in
      97 \<le> n \<and> n \<le> 122 \<or> 65 \<le> n \<and> n \<le> 90 \<or> 48 \<le> n \<and> n \<le> 57 \<or>
      c = CHR ''_'' \<or> c = CHR ''.'' \<or> c = CHR ''-'')"

definition usernameRe :: "string \<Rightarrow> bool" where
  "usernameRe s \<longleftrightarrow> 3 \<le> length s \<and> length s \<le> 32 \<and> list_all username_char s"

definition issueToken :: "pgenv \<Rightarrow> extern \<Rightarrow> auth_service \<Rightarrow> uuid \<Rightarrow> (goerr + string) go" where
  "issueToken env x a userID = State (\<lambda>w.
     let now = go_clock env (tick w);
         claims = \<lparr>Subject = uuid_String x userID, IssuedAt = jwt_NewNumericDate x now,
                   ExpiresAt = jwt_NewNumericDate x (now + tokenTTL a)\<rparr>
     in (case jwt_SignedString x claims (secret a) of
           None \<Rightarrow> Inl (OtherError ''jwt'')
         | Some token \<Rightarrow> Inr token, w))"

definition Signup ::
  "pgenv \<Rightarrow> extern \<Rightarrow> auth_service \<Rightarrow> string \<Rightarrow> string \<Rightarrow> (goerr + user \<times> string) go" where
  "Signup env x a username password =
     (if \<not> usernameRe username then
        State_Monad.return (Inl (Invalid (''username must be 3-32 chars of letters, digits, '_', '.', '-'' @ [CHR 0x27])))
      else if length password < 8 \<or> length password > 72 then
        State_Monad.return (Inl (Invalid ''password must be 8-72 characters''))
      else do {
        w \<leftarrow> State_Monad.get;
        case bcrypt_Generate x password (tick w) of
          None \<Rightarrow> State_Monad.return (Inl (Wrapped ''hash password'' (OtherError ''bcrypt'')))
        | Some hash \<Rightarrow> do {
            r \<leftarrow> CreateUser env username hash;
            case r of
              Inl err \<Rightarrow>
                if errors_Is err RepoErrDuplicate then State_Monad.return (Inl ErrUsernameTaken)
                else State_Monad.return (Inl err)
            | Inr user \<Rightarrow> do {
                tok \<leftarrow> issueToken env x a (uID user);
                State_Monad.return (case tok of Inl err \<Rightarrow> Inl err | Inr token \<Rightarrow> Inr (user, token))
              }
          }
      })"

definition Login ::
  "pgenv \<Rightarrow> extern \<Rightarrow> auth_service \<Rightarrow> string \<Rightarrow> string \<Rightarrow> (goerr + user \<times> string) go" where
  "Login env x a username password = do {
     r \<leftarrow> GetUserByUsername env username;
     case r of
       Inl err \<Rightarrow>
         if errors_Is err RepoErrNotFound then State_Monad.return (Inl ErrInvalidCredentials)
         else State_Monad.return (Inl err)
     | Inr user \<Rightarrow>
         if \<not> bcrypt_Compare x (PasswordHash user) password then State_Monad.return (Inl ErrInvalidCredentials)
         else do {
           tok \<leftarrow> issueToken env x a (uID user);
           State_Monad.return (case tok of Inl err \<Rightarrow> Inl err | Inr token \<Rightarrow> Inr (user, token))
         }
   }"

definition VerifyToken :: "pgenv \<Rightarrow> extern \<Rightarrow> auth_service \<Rightarrow> string \<Rightarrow> (goerr + uuid) go" where
  "VerifyToken env x a tokenString = State (\<lambda>w.
     (case jwt_ParseWithClaims x tokenString (go_clock env (tick w)) (secret a) of
        None \<Rightarrow> Inl ErrInvalidCredentials
      | Some claims \<Rightarrow> (case jwt_GetSubject x claims of
          None \<Rightarrow> Inl ErrInvalidCredentials
        | Some sub \<Rightarrow> (case uuid_Parse x sub of
            None \<Rightarrow> Inl ErrInvalidCredentials
          | Some u \<Rightarrow> Inr u)), w))"

end
