(* ===== verification/Handlers.thy ===== *)
theory Handlers
  imports Http Transfer_Service Wallet_Service Auth_Service
begin

text \<open>
  \<open>internal/handlers\<close>: one function per handler method, from the request to the response,
  through the service it calls; \<open>None\<close> is a panic. \<open>writeDomainError\<close> maps the domain errors
  to status codes and everything else to 503.
\<close>

section \<open>respond.go\<close>

definition writeJSON :: "nat \<Rightarrow> json \<Rightarrow> http_response" where
  "writeJSON status v =
     \<lparr>RespStatus = status, RespHeaders = [(''Content-Type'', ''application/json'')], RespBody = BodyJSON v\<rparr>"

definition writeError :: "nat \<Rightarrow> string \<Rightarrow> string \<Rightarrow> http_response" where
  "writeError status code msg = writeJSON status (ErrorResponse msg code)"

definition add_header :: "string \<Rightarrow> string \<Rightarrow> http_response \<Rightarrow> http_response" where
  "add_header k v r = r\<lparr>RespHeaders := (k, v) # RespHeaders r\<rparr>"

text \<open>The cases of the switch in \<open>writeDomainError\<close> before \<open>default\<close>.\<close>

definition domain_answer :: "goerr \<Rightarrow> http_response option" where
  "domain_answer err =
     (case errors_As_validation err of
        Some msg \<Rightarrow> Some (writeError 400 ''validation_error'' msg)
      | None \<Rightarrow>
        if errors_Is err ErrUsernameTaken then
          Some (writeError 409 ''username_taken'' ''that username is already registered'')
        else if errors_Is err ErrInvalidCredentials then
          Some (writeError 401 ''invalid_credentials'' ''invalid credentials'')
        else if errors_Is err ErrUnknownRecipient then
          Some (writeError 404 ''unknown_recipient'' ''recipient user does not exist'')
        else if errors_Is err ErrSelfTransfer then
          Some (writeError 400 ''self_transfer'' ''cannot transfer to yourself'')
        else if errors_Is err ErrNoWallet then
          Some (writeError 404 ''no_wallet'' ''no wallet yet; call POST /accounts first'')
        else if errors_Is err ErrInsufficientFunds then
          Some (writeError 422 ''insufficient_funds''
            ''available balance is lower than the transfer amount (recently received money is on hold while its senders can still claim it back)'')
        else if errors_Is err ErrIdempotencyConflict then
          Some (writeError 409 ''idempotency_conflict''
            ''idempotency_key was already used with a different request body'')
        else if errors_Is err ErrClaimWindowExpired then
          Some (writeError 409 ''claim_window_expired'' ''the claim window for this transfer has expired'')
        else if errors_Is err ErrNotFound then
          Some (writeError 404 ''not_found'' ''resource not found'')
        else None)"

definition writeDomainError :: "goerr \<Rightarrow> http_response go" where
  "writeDomainError err =
     (case domain_answer err of
        Some resp \<Rightarrow> State_Monad.return resp
      | None \<Rightarrow> do {
          observe (\<lambda>m. m) [log_error ''db_unavailable'' [(''error'', AText (error_text err))]];
          State_Monad.return (writeError 503 ''service_unavailable'' ''temporarily unable to process the request; safe to retry'')
        })"

text \<open>The text of a decoding error; \<open>struct\<close> is the Go struct decoded into.\<close>

definition decode_error_text :: "string \<Rightarrow> decode_error \<Rightarrow> string" where
  "decode_error_text struct e =
     (case e of
        SyntaxOrSize msg \<Rightarrow> msg
      | UnknownField key \<Rightarrow> ''json: unknown field '' @ [CHR 0x22] @ key @ [CHR 0x22]
      | TypeMismatch found fld \<Rightarrow>
          (if fld = [] then ''json: cannot unmarshal '' @ found @ '' into Go value of type dto.'' @ struct
           else ''json: cannot unmarshal '' @ found @ '' into Go struct field '' @ struct @ ''.'' @ fld @ '' of type ''
             @ (if fld = ''amount_paise'' then ''int64'' else ''string'')))"

definition decodeJSON :: "string \<Rightarrow> decode_error + 'v \<Rightarrow> http_response + 'v" where
  "decodeJSON struct d =
     (case d of
        Inl e \<Rightarrow> Inl (writeError 400 ''invalid_json''
          (''request body must be valid JSON: '' @ decode_error_text struct e))
      | Inr v \<Rightarrow> Inr v)"

text \<open>\<open>api.UserID\<close>: the zero UUID when the context has none.\<close>

definition UserID :: "http_request \<Rightarrow> uuid" where
  "UserID r = (case CtxUserID r of None \<Rightarrow> 0 | Some u \<Rightarrow> u)"

section \<open>auth.go\<close>

definition handle_Signup :: "pgenv \<Rightarrow> extern \<Rightarrow> auth_service \<Rightarrow> http_request \<Rightarrow> http_response option go" where
  "handle_Signup env x a r =
     (case decodeJSON ''SignupRequest'' (decode_SignupRequest (Body r)) of
        Inl resp \<Rightarrow> State_Monad.return (Some resp)
      | Inr req \<Rightarrow> do {
          res \<leftarrow> Signup env x a (sqUsername req) (sqPassword req);
          case res of
            Inl err \<Rightarrow> do { resp \<leftarrow> writeDomainError err; State_Monad.return (Some resp) }
          | Inr (user, token) \<Rightarrow>
              State_Monad.return (Some (writeJSON 201 (AuthResponse token (uuid_String x (uID user)))))
        })"

definition handle_Login :: "pgenv \<Rightarrow> extern \<Rightarrow> auth_service \<Rightarrow> http_request \<Rightarrow> http_response option go" where
  "handle_Login env x a r =
     (case decodeJSON ''SignupRequest'' (decode_SignupRequest (Body r)) of
        Inl resp \<Rightarrow> State_Monad.return (Some resp)
      | Inr req \<Rightarrow> do {
          res \<leftarrow> Login env x a (sqUsername req) (sqPassword req);
          case res of
            Inl err \<Rightarrow> do { resp \<leftarrow> writeDomainError err; State_Monad.return (Some resp) }
          | Inr (user, token) \<Rightarrow>
              State_Monad.return (Some (writeJSON 200 (AuthResponse token (uuid_String x (uID user)))))
        })"

section \<open>wallet.go\<close>

definition handle_CreateAccount ::
  "pgenv \<Rightarrow> extern \<Rightarrow> wallet_service \<Rightarrow> http_request \<Rightarrow> http_response option go" where
  "handle_CreateAccount env x ws r = do {
     let userID = UserID r;
     res \<leftarrow> GetOrCreate env ws userID;
     case res of
       Inl err \<Rightarrow> do { resp \<leftarrow> writeDomainError err; State_Monad.return (Some resp) }
     | Inr (balance, created) \<Rightarrow>
         State_Monad.return (Some (writeJSON (if created then 201 else 200)
           (AccountResponse (uuid_String x userID) balance)))
   }"

definition handle_GetMyAccount ::
  "pgenv \<Rightarrow> wallet_service \<Rightarrow> http_request \<Rightarrow> http_response option go" where
  "handle_GetMyAccount env ws r = do {
     res \<leftarrow> GetBalance env ws (UserID r);
     case res of
       Inl err \<Rightarrow> do { resp \<leftarrow> writeDomainError err; State_Monad.return (Some resp) }
     | Inr (balance, available) \<Rightarrow> State_Monad.return (Some (writeJSON 200 (BalanceResponse balance available)))
   }"

section \<open>transfer.go\<close>

definition handle_CreateTransfer ::
  "pgenv \<Rightarrow> extern \<Rightarrow> transfer_service \<Rightarrow> http_request \<Rightarrow> http_response option go" where
  "handle_CreateTransfer env x t r =
     (case decodeJSON ''TransferRequest'' (decode_TransferRequest (Body r)) of
        Inl resp \<Rightarrow> State_Monad.return (Some resp)
      | Inr req \<Rightarrow> do {
          res \<leftarrow> Execute env x t (UserID r) (tqToUser req) (tqAmountPaise req) (tqIdempotencyKey req);
          case res of
            Inl err \<Rightarrow> do { resp \<leftarrow> writeDomainError err; State_Monad.return (Some resp) }
          | Inr result \<Rightarrow>
              (let b = TransferResponse (uuid_String x (TransferID result)) (NewBalance result) in
               State_Monad.return (Some
                 (if Replayed result then add_header ''Idempotent-Replay'' ''true'' (writeJSON 200 b)
                  else writeJSON 201 b)))
        })"

definition handle_GetTransfer ::
  "pgenv \<Rightarrow> extern \<Rightarrow> http_request \<Rightarrow> http_response option go" where
  "handle_GetTransfer env x r =
     (case uuid_Parse x (PathID r) of
        None \<Rightarrow> State_Monad.return (Some (writeError 404 ''not_found'' ''resource not found''))
      | Some transferID \<Rightarrow> do {
          res \<leftarrow> GetByID env (UserID r) transferID;
          case res of
            Inl err \<Rightarrow> do { resp \<leftarrow> writeDomainError err; State_Monad.return (Some resp) }
          | Inr tr \<Rightarrow> State_Monad.return (Some (writeJSON 200 (TransferDetails x tr)))
        })"

definition handle_Claim ::
  "pgenv \<Rightarrow> extern \<Rightarrow> transfer_service \<Rightarrow> http_request \<Rightarrow> http_response option go" where
  "handle_Claim env x t r =
     (case uuid_Parse x (PathID r) of
        None \<Rightarrow> State_Monad.return (Some (writeError 404 ''not_found'' ''resource not found''))
      | Some transferID \<Rightarrow> do {
          res \<leftarrow> ClaimBack env x t (UserID r) transferID;
          case res of
            None \<Rightarrow> State_Monad.return None
          | Some (Inl err) \<Rightarrow> do { resp \<leftarrow> writeDomainError err; State_Monad.return (Some resp) }
          | Some (Inr result) \<Rightarrow>
              (let resp = writeJSON 200 (ClaimResponse (uuid_String x (cTransferID result)) ''reversed''
                     (cNewBalance result) (cReversedAt result)) in
               State_Monad.return (Some
                 (if cReplayed result then add_header ''Idempotent-Replay'' ''true'' resp else resp)))
        })"

section \<open>health.go\<close>

definition handle_Index :: "http_request \<Rightarrow> http_response option go" where
  "handle_Index r = State_Monad.return (Some (writeJSON 200 (JObject
     [(''docs'', JString ''https://github.com/Ria-verma/wallet-service''),
      (''endpoints'', JArray (map JString
        [''POST /auth/signup {username, password}'',
         ''POST /auth/login {username, password}'',
         ''POST /accounts (Bearer)'',
         ''GET /accounts/me (Bearer)'',
         ''POST /transfers {to_user, amount_paise, idempotency_key} (Bearer)'',
         ''GET /transfers/{id} (Bearer)'',
         ''GET /healthz | /readyz | /metrics | /logs''])),
      (''service'', JString ''wallet-service'')])))"

definition handle_Healthz :: "http_request \<Rightarrow> http_response option go" where
  "handle_Healthz r = State_Monad.return (Some (writeJSON 200 (JObject [(''status'', JString ''ok'')])))"

definition handle_Readyz :: "pgenv \<Rightarrow> http_request \<Rightarrow> http_response option go" where
  "handle_Readyz env r = do {
     res \<leftarrow> Ping env;
     State_Monad.return (Some (case res of
       Inl err \<Rightarrow> writeJSON 503 (JObject [(''reason'', JString ''database unreachable''), (''status'', JString ''unready'')])
     | Inr _ \<Rightarrow> writeJSON 200 (JObject [(''status'', JString ''ready'')])))
   }"

section \<open>The mapping of errors\<close>

lemma status_simps [simp]:
  "RespStatus (writeJSON s v) = s" "RespStatus (writeError s c m) = s" "RespStatus (add_header k h r) = RespStatus r"
  by (simp_all add: writeError_def writeJSON_def add_header_def)

lemma domain_answer_infra: "infra_error err \<Longrightarrow> domain_answer err = None"
  by (simp add: domain_answer_def infra_error_not_validation infra_error_not_Is)

lemma domain_answer_status: "domain_answer err = Some resp \<Longrightarrow> RespStatus resp \<in> {400, 401, 404, 409, 422}"
  by (auto simp only: domain_answer_def option.case option.inject option.distinct status_simps insert_iff simp_thms
      split: option.splits if_splits)

lemma writeDomainError_infra:
  "infra_error err \<Longrightarrow> fst (run_state (writeDomainError err) w) =
     writeError 503 ''service_unavailable'' ''temporarily unable to process the request; safe to retry''"
  by (simp add: writeDomainError_def domain_answer_infra)

lemma writeDomainError_status:
  "RespStatus (fst (run_state (writeDomainError err) w)) \<in> {400, 401, 404, 409, 422, 503}"
  using domain_answer_status [of err] by (auto simp: writeDomainError_def split: option.split)

lemma writeDomainError_frame [simp]:
  "db (snd (run_state (writeDomainError err) w)) = db w"
  "tick (snd (run_state (writeDomainError err) w)) = tick w"
  "mets (snd (run_state (writeDomainError err) w)) = mets w"
  by (simp_all add: writeDomainError_def split: option.split)

end
