(* ===== verification/Api.thy ===== *)
theory Api
  imports Handlers
begin

text \<open>
  \<open>internal/api\<close>: the middleware chain and the router, with the matching of
  \<open>http.ServeMux\<close> patterns that the router uses: methods, literal segments, \<open>{id}\<close> and
  \<open>{$}\<close>. Percent-escapes in paths and the query of a redirect are left out.
\<close>

text \<open>
  What the chain uses of the process: request ids, its clock, and the two library renderings.
\<close>

record http_env =
  NewString :: "nat \<Rightarrow> string"           \<comment> \<open>\<open>uuid.NewString()\<close>\<close>
  elapsed_ms :: "nat \<Rightarrow> nat \<Rightarrow> int"       \<comment> \<open>\<open>time.Since(start).Milliseconds()\<close> between two ticks\<close>
  promhttp_text :: "collector list \<Rightarrow> metrics \<Rightarrow> string"   \<comment> \<open>\<open>promhttp.HandlerFor\<close>\<close>
  slog_line :: "log_record \<Rightarrow> string"    \<comment> \<open>\<open>slog.JSONHandler\<close>\<close>
  stdout_ok :: "nat \<Rightarrow> bool"              \<comment> \<open>whether \<open>os.Stdout\<close> takes the n-th line\<close>

section \<open>Patterns\<close>

datatype pat_seg = Lit string | Wild string | TheEnd

fun split_slash :: "string \<Rightarrow> string \<Rightarrow> string list" where
  "split_slash cur [] = [cur]"
| "split_slash cur (c # cs) = (if c = CHR ''/'' then cur # split_slash [] cs else split_slash (cur @ [c]) cs)"

definition segments :: "string \<Rightarrow> string list" where
  "segments p = (case p of [] \<Rightarrow> [] | c # cs \<Rightarrow> split_slash [] cs)"

fun match_segs :: "pat_seg list \<Rightarrow> string list \<Rightarrow> string list option" where
  "match_segs [] [] = Some []"
| "match_segs [TheEnd] [s] = (if s = [] then Some [] else None)"
| "match_segs (Lit l # ps) (s # ss) = (if l = s then match_segs ps ss else None)"
| "match_segs (Wild n # ps) (s # ss) = (if s \<noteq> [] then map_option ((#) s) (match_segs ps ss) else None)"
| "match_segs _ _ = None"

text \<open>\<open>cleanPath\<close>\<close>

fun clean_segs :: "string list \<Rightarrow> string list \<Rightarrow> string list" where
  "clean_segs out [] = rev out"
| "clean_segs out (s # ss) =
     (if s = [] \<or> s = ''.'' then clean_segs out ss
      else if s = ''..'' then clean_segs (tl out) ss
      else clean_segs (s # out) ss)"

definition cleanPath :: "string \<Rightarrow> string" where
  "cleanPath p =
     (if p = [] then ''/''
      else let q = (if hd p = CHR ''/'' then p else CHR ''/'' # p);
               c = concat (map (\<lambda>s. CHR ''/'' # s) (clean_segs [] (segments q)));
               np = (if c = [] then ''/'' else c)
           in if last q = CHR ''/'' \<and> np \<noteq> ''/'' then np @ ''/'' else np)"

section \<open>router.go\<close>

datatype endpoint =
    Signup_ep | Login_ep | CreateAccount_ep | GetMyAccount_ep | CreateTransfer_ep | GetTransfer_ep
  | ClaimTransfer_ep | Index_ep | Healthz_ep | Readyz_ep | Metrics_ep | Logs_ep

record route =
  rtMethod :: string
  rtPath :: "pat_seg list"
  rtPattern :: string
  rtAuthed :: bool
  rtEndpoint :: endpoint

definition routes_table :: "route list" where
  "routes_table = map (\<lambda>(m, p, pat, authed, ep). \<lparr>rtMethod = m, rtPath = p, rtPattern = pat, rtAuthed = authed, rtEndpoint = ep\<rparr>)
     [(''POST'', [Lit ''auth'', Lit ''signup''], ''POST /auth/signup'', False, Signup_ep),
      (''POST'', [Lit ''auth'', Lit ''login''], ''POST /auth/login'', False, Login_ep),
      (''POST'', [Lit ''accounts''], ''POST /accounts'', True, CreateAccount_ep),
      (''GET'', [Lit ''accounts'', Lit ''me''], ''GET /accounts/me'', True, GetMyAccount_ep),
      (''POST'', [Lit ''transfers''], ''POST /transfers'', True, CreateTransfer_ep),
      (''GET'', [Lit ''transfers'', Wild ''id''], ''GET /transfers/{id}'', True, GetTransfer_ep),
      (''POST'', [Lit ''transfers'', Wild ''id'', Lit ''claim''], ''POST /transfers/{id}/claim'', True, ClaimTransfer_ep),
      (''GET'', [TheEnd], ''GET /{$}'', False, Index_ep),
      (''GET'', [Lit ''healthz''], ''GET /healthz'', False, Healthz_ep),
      (''GET'', [Lit ''readyz''], ''GET /readyz'', False, Readyz_ep),
      (''GET'', [Lit ''metrics''], ''GET /metrics'', False, Metrics_ep),
      (''GET'', [Lit ''logs''], ''GET /logs'', False, Logs_ep)]"

text \<open>A pattern with method \<open>GET\<close> also matches \<open>HEAD\<close>.\<close>

definition method_matches :: "string \<Rightarrow> string \<Rightarrow> bool" where
  "method_matches pat m \<longleftrightarrow> m = pat \<or> pat = ''GET'' \<and> m = ''HEAD''"

definition find_route :: "string \<Rightarrow> string \<Rightarrow> (route \<times> string list) option" where
  "find_route m path =
     (case find (\<lambda>rt. method_matches (rtMethod rt) m \<and> match_segs (rtPath rt) (segments path) \<noteq> None) routes_table of
        None \<Rightarrow> None
      | Some rt \<Rightarrow> map_option (\<lambda>ids. (rt, ids)) (match_segs (rtPath rt) (segments path)))"

definition allowed_methods :: "string \<Rightarrow> string list" where
  "allowed_methods path =
     (let ms = map rtMethod (filter (\<lambda>rt. match_segs (rtPath rt) (segments path) \<noteq> None) routes_table)
      in (if ''GET'' \<in> set ms then [''GET'', ''HEAD''] else []) @ (if ''POST'' \<in> set ms then [''POST''] else []))"

definition text_error :: "nat \<Rightarrow> string \<Rightarrow> http_response" where
  "text_error status msg =
     \<lparr>RespStatus = status,
      RespHeaders = [(''Content-Type'', ''text/plain; charset=utf-8''), (''X-Content-Type-Options'', ''nosniff'')],
      RespBody = BodyText (msg @ [CHR 0x0A])\<rparr>"

fun join_comma :: "string list \<Rightarrow> string" where
  "join_comma [] = []"
| "join_comma [s] = s"
| "join_comma (s # ss) = s @ '', '' @ join_comma ss"

section \<open>Request-scoped loggers\<close>

text \<open>
  \<open>obs.WithLogger\<close> puts a logger with more attributes into the context that \<open>m\<close> runs with, and
  \<open>obs.Log\<close> finds it there: what \<open>m\<close> appends to the log carries the attributes. Nested scopes
  prefix from the inside out, as \<open>Logger.With\<close> does. Lines emitted outside every scope go to
  the default logger, whose output is not the ring.
\<close>

definition scoped :: "(string \<times> attr) list \<Rightarrow> world \<Rightarrow> world \<Rightarrow> world" where
  "scoped attrs w w' = w'\<lparr>logs := logs w @ map (with_attrs attrs) (drop (length (logs w)) (logs w'))\<rparr>"

definition WithLogger :: "(string \<times> attr) list \<Rightarrow> 'a go \<Rightarrow> 'a go" where
  "WithLogger attrs m = State (\<lambda>w. let (a, w') = run_state m w in (a, scoped attrs w w'))"

lemma scoped_simps [simp]:
  "db (scoped attrs w w') = db w'" "tick (scoped attrs w w') = tick w'" "mets (scoped attrs w w') = mets w'"
  "logs (scoped attrs w w') = logs w @ map (with_attrs attrs) (drop (length (logs w)) (logs w'))"
  by (simp_all add: scoped_def)

lemma run_WithLogger [simp]:
  "run_state (WithLogger attrs m) w = (fst (run_state m w), scoped attrs w (snd (run_state m w)))"
  by (simp add: WithLogger_def split_beta)

section \<open>middleware.go\<close>

definition served_of :: "http_response option \<Rightarrow> served" where
  "served_of r = (case r of None \<Rightarrow> Inl [] | Some resp \<Rightarrow> Inr resp)"

text \<open>\<open>withUserID\<close> of \<open>context.go\<close>: the identity that handlers read with \<open>UserID\<close>.\<close>

definition withUserID :: "uuid \<Rightarrow> http_request \<Rightarrow> http_request" where
  "withUserID userID r = r\<lparr>CtxUserID := Some userID\<rparr>"

lemma UserID_withUserID [simp]: "UserID (withUserID userID r) = userID"
  by (simp add: withUserID_def UserID_def)

definition count_auth_failure :: "metrics \<Rightarrow> metrics" where
  "count_auth_failure m = m\<lparr>AuthFailures := Suc (AuthFailures m)\<rparr>"

definition authFail :: "string \<Rightarrow> http_response go" where
  "authFail reason = do {
     observe count_auth_failure [log_warn ''auth_failure'' [(''reason'', AText reason)]];
     State_Monad.return
       \<lparr>RespStatus = 401, RespHeaders = [(''Content-Type'', ''application/json'')],
        RespBody = BodyJSON (ErrorResponse reason ''unauthorized'')\<rparr>
   }"

definition authenticate ::
  "(string \<Rightarrow> (goerr + uuid) go) \<Rightarrow> (http_request \<Rightarrow> http_response option go) \<Rightarrow> http_request \<Rightarrow> http_response option go" where
  "authenticate verifier next r =
     (case cut_prefix ''Bearer '' (Authorization r) of
        None \<Rightarrow> do { resp \<leftarrow> authFail ''missing bearer token''; State_Monad.return (Some resp) }
      | Some token \<Rightarrow>
          if token = [] then do { resp \<leftarrow> authFail ''missing bearer token''; State_Monad.return (Some resp) }
          else do {
            v \<leftarrow> verifier token;
            case v of
              Inl err \<Rightarrow> do { resp \<leftarrow> authFail ''invalid or expired token''; State_Monad.return (Some resp) }
            | Inr userID \<Rightarrow> WithLogger [(''user_id'', AUuid userID)] (next (withUserID userID r))
          })"

text \<open>The router proper: it writes the pattern and \<open>{id}\<close> into the request it was given.\<close>

definition mux ::
  "(string \<Rightarrow> (goerr + uuid) go) \<Rightarrow> (endpoint \<Rightarrow> http_request \<Rightarrow> http_response option go) \<Rightarrow> handler" where
  "mux verifier routes r =
     (if cleanPath (Path r) \<noteq> Path r then
        State_Monad.return (Inr \<lparr>RespStatus = 301, RespHeaders = [(''Location'', cleanPath (Path r))],
          RespBody = BodyText []\<rparr>, r)
      else case find_route (Method r) (Path r) of
        Some (rt, ids) \<Rightarrow> do {
          let r' = r\<lparr>Pattern := rtPattern rt, PathID := (case ids of [] \<Rightarrow> [] | i # _ \<Rightarrow> i)\<rparr>;
          resp \<leftarrow> (if rtAuthed rt then authenticate verifier (routes (rtEndpoint rt)) r' else routes (rtEndpoint rt) r');
          State_Monad.return (served_of resp, r')
        }
      | None \<Rightarrow>
          (if allowed_methods (Path r) \<noteq> [] then
             State_Monad.return (Inr (add_header ''Allow'' (join_comma (allowed_methods (Path r)))
               (text_error 405 ''Method Not Allowed'')), r)
           else State_Monad.return (Inr (text_error 404 ''404 page not found''), r)))"

text \<open>\<open>withTimeout\<close>: the deadline shows as lost round trips; the request is a copy, so what
  \<open>next\<close> writes into it does not reach the caller's object.\<close>

definition withTimeout :: "handler \<Rightarrow> handler" where
  "withTimeout next r = do { (resp, r') \<leftarrow> next r; State_Monad.return (resp, r) }"

definition count_request :: "string \<Rightarrow> string \<Rightarrow> nat \<Rightarrow> metrics \<Rightarrow> metrics" where
  "count_request route method status m =
     m\<lparr>HTTPRequests := bump (HTTPRequests m) (route, method, fmt_d (int status)),
       HTTPDuration := bump (HTTPDuration m) route\<rparr>"

text \<open>
  The writer that \<open>metrics\<close> hands on: it remembers the last status written through it, the
  writer of \<open>net/http\<close> underneath sends the first. Both take 200 when none is written.
\<close>

record statusRecorder =
  header_sent :: "nat option"
  recorded :: nat

definition newRecorder :: statusRecorder where
  "newRecorder = \<lparr>header_sent = None, recorded = 200\<rparr>"

definition WriteHeader :: "nat \<Rightarrow> statusRecorder \<Rightarrow> statusRecorder" where
  "WriteHeader code r =
     (let r = r\<lparr>recorded := code\<rparr> in
      r\<lparr>header_sent := (case header_sent r of None \<Rightarrow> Some code | Some c \<Rightarrow> Some c)\<rparr>)"

definition status_sent :: "statusRecorder \<Rightarrow> nat" where
  "status_sent r = (case header_sent r of None \<Rightarrow> 200 | Some c \<Rightarrow> c)"

text \<open>
  A handler that writes at most one header, as every handler does, is recorded with the status
  that is sent; one that wrote two different ones would not be.
\<close>

lemma recorded_is_sent:
  "recorded newRecorder = status_sent newRecorder"
  "recorded (WriteHeader c newRecorder) = status_sent (WriteHeader c newRecorder)"
  "recorded (WriteHeader c' (WriteHeader c newRecorder)) = status_sent (WriteHeader c' (WriteHeader c newRecorder)) \<longleftrightarrow> c' = c"
  by (simp_all add: WriteHeader_def newRecorder_def status_sent_def)

lemma recorded_WriteHeader [simp]: "recorded (WriteHeader c r) = c"
  by (simp add: WriteHeader_def Let_def)

text \<open>A panic passes through: nothing is counted.\<close>

definition metrics_mw :: "http_env \<Rightarrow> handler \<Rightarrow> handler" where
  "metrics_mw henv next r = do {
     start \<leftarrow> State_Monad.get;
     (resp, r') \<leftarrow> next r;
     stop \<leftarrow> State_Monad.get;
     case resp of
       Inl hs \<Rightarrow> State_Monad.return (Inl hs, r')
     | Inr rs \<Rightarrow> do {
         let sr = WriteHeader (RespStatus rs) newRecorder;
         let route = (if Pattern r' = [] then ''unmatched'' else Pattern r');
         observe (count_request route (Method r') (recorded sr))
           [log_info ''request'' [(''status'', AInt (int (recorded sr))),
              (''duration_ms'', AInt (elapsed_ms henv (tick start) (tick stop)))]];
         State_Monad.return (Inr rs, r')
       }
   }"

definition request_attrs :: "string \<Rightarrow> http_request \<Rightarrow> (string \<times> attr) list" where
  "request_attrs i r = [(''request_id'', AText i), (''method'', AText (Method r)), (''path'', AText (Path r))]"

definition requestID :: "http_env \<Rightarrow> handler \<Rightarrow> handler" where
  "requestID henv next r = do {
     w \<leftarrow> State_Monad.get;
     let i = NewString henv (tick w);
     (resp, r') \<leftarrow> WithLogger (request_attrs i r) (next r);
     State_Monad.return (case resp of
         Inl hs \<Rightarrow> Inl ((''X-Request-Id'', i) # hs)
       | Inr rs \<Rightarrow> Inr (add_header ''X-Request-Id'' i rs), r)
   }"

text \<open>The panic is logged with the default logger of the process, not with the request's.\<close>

definition recovery :: "handler \<Rightarrow> http_request \<Rightarrow> http_response go" where
  "recovery next r = do {
     (resp, r') \<leftarrow> next r;
     State_Monad.return (case resp of
         Inr rs \<Rightarrow> rs
       | Inl hs \<Rightarrow> (let e = text_error 500
             (concat [[CHR ''{'', CHR 0x22], ''success'', [CHR 0x22], '':false,'', [CHR 0x22], ''message'', [CHR 0x22, CHR '':'', CHR 0x22],
                ''internal error'', [CHR 0x22, CHR '','', CHR 0x22], ''error'', [CHR 0x22, CHR '':'', CHR 0x22], ''internal'', [CHR 0x22, CHR ''}'']])
             in e\<lparr>RespHeaders := hs @ RespHeaders e\<rparr>))
   }"

definition NewRouter ::
  "http_env \<Rightarrow> (string \<Rightarrow> (goerr + uuid) go) \<Rightarrow> (endpoint \<Rightarrow> http_request \<Rightarrow> http_response option go)
     \<Rightarrow> http_request \<Rightarrow> http_response go" where
  "NewRouter henv verifier routes =
     recovery (requestID henv (metrics_mw henv (withTimeout (mux verifier routes))))"

end
