(* ===== verification/Config.thy ===== *)
theory Config
  imports GoLib
begin

text \<open>
  \<open>internal/config\<close>: \<open>Load\<close> from the environment, with \<open>time.ParseDuration\<close>. The product
  of a decimal fraction and a unit, which Go computes in \<open>float64\<close>, is the parameter
  \<open>frac\<close>. The process environment is a function that returns the empty string for an unset
  variable, as \<open>os.Getenv\<close> does.
\<close>

section \<open>time.ParseDuration\<close>

text \<open>\<open>leadingInt\<close>: \<open>None\<close> when the value exceeds \<open>1<<63\<close>.\<close>

definition two63 :: int where "two63 = 9223372036854775808"

fun leading_int :: "int \<Rightarrow> string \<Rightarrow> (int \<times> string) option" where
  "leading_int v [] = Some (v, [])"
| "leading_int v (c # cs) =
     (if \<not> is_digit c then Some (v, c # cs)
      else if v > two63 div 10 then None
      else let v' = v * 10 + digit_val c in if v' > two63 then None else leading_int v' cs)"

text \<open>\<open>leadingFraction\<close>: the digits, their scale, and the rest; it stops adding on overflow.\<close>

fun leading_fraction :: "int \<Rightarrow> int \<Rightarrow> bool \<Rightarrow> string \<Rightarrow> int \<times> int \<times> string" where
  "leading_fraction v scale overflow [] = (v, scale, [])"
| "leading_fraction v scale overflow (c # cs) =
     (if \<not> is_digit c then (v, scale, c # cs)
      else if overflow then leading_fraction v scale True cs
      else if v > (two63 - 1) div 10 then leading_fraction v scale True cs
      else let y = v * 10 + digit_val c in
           if y > two63 then leading_fraction v scale True cs
           else leading_fraction y (scale * 10) False cs)"

fun span_unit :: "string \<Rightarrow> string \<times> string" where
  "span_unit [] = ([], [])"
| "span_unit (c # cs) =
     (if c = CHR ''.'' \<or> is_digit c then ([], c # cs) else (case span_unit cs of (u, rest) \<Rightarrow> (c # u, rest)))"

definition unit_ns :: "string \<Rightarrow> int option" where
  "unit_ns u = map_of
     [(''ns'', 1), (''us'', 1000), ([CHR 0xC2, CHR 0xB5, CHR ''s''], 1000), ([CHR 0xCE, CHR 0xBC, CHR ''s''], 1000),
      (''ms'', 1000000), (''s'', 1000000000), (''m'', 60000000000), (''h'', 3600000000000)] u"

text \<open>The optional fraction: whether it has digits, their value, their scale, the rest.\<close>

definition fraction_part :: "string \<Rightarrow> bool \<times> int \<times> int \<times> string" where
  "fraction_part s =
     (case s of
        [] \<Rightarrow> (False, 0, 1, s)
      | d # s' \<Rightarrow>
          if d = CHR ''.''
          then (case leading_fraction 0 1 False s' of (f, sc, rest) \<Rightarrow> (length s' \<noteq> length rest, f, sc, rest))
          else (False, 0, 1, s))"

text \<open>The unit and the value of one term.\<close>

definition unit_part :: "(int \<Rightarrow> int \<Rightarrow> int \<Rightarrow> int) \<Rightarrow> int \<Rightarrow> int \<Rightarrow> int \<Rightarrow> string \<Rightarrow> (int \<times> string) option" where
  "unit_part frac v f scale s =
     (case span_unit s of (u, rest) \<Rightarrow>
        (case unit_ns u of None \<Rightarrow> None
         | Some n \<Rightarrow>
            if v > two63 div n then None
            else let w = v * n + (if f > 0 then frac f n scale else 0)
                 in if f > 0 \<and> w > two63 then None else Some (w, rest)))"

text \<open>One number with its unit: the nanoseconds and the rest of the text.\<close>

definition duration_term :: "(int \<Rightarrow> int \<Rightarrow> int \<Rightarrow> int) \<Rightarrow> string \<Rightarrow> (int \<times> string) option" where
  "duration_term frac s =
     (if s = [] \<or> \<not> (hd s = CHR ''.'' \<or> is_digit (hd s)) then None
      else case leading_int 0 s of None \<Rightarrow> None
      | Some (v, s1) \<Rightarrow>
         (case fraction_part s1 of (post, f, scale, s2) \<Rightarrow>
            if length s = length s1 \<and> \<not> post then None else unit_part frac v f scale s2))"

text \<open>The fuel is the length of the text: every term consumes at least one character.\<close>

fun duration_terms :: "nat \<Rightarrow> (int \<Rightarrow> int \<Rightarrow> int \<Rightarrow> int) \<Rightarrow> int \<Rightarrow> string \<Rightarrow> int option" where
  "duration_terms fuel frac d [] = Some d"
| "duration_terms 0 frac d s = None"
| "duration_terms (Suc fuel) frac d s =
     (case duration_term frac s of None \<Rightarrow> None
      | Some (v, s') \<Rightarrow> if d + v > two63 then None else duration_terms fuel frac (d + v) s')"

definition ParseDuration :: "(int \<Rightarrow> int \<Rightarrow> int \<Rightarrow> int) \<Rightarrow> string \<Rightarrow> duration option" where
  "ParseDuration frac s =
     (let (neg, t) = (case s of [] \<Rightarrow> (False, []) | c # cs \<Rightarrow>
            if c = CHR ''-'' then (True, cs) else if c = CHR ''+'' then (False, cs) else (False, s))
      in if t = ''0'' then Some 0 else if t = [] then None
      else case duration_terms (length t) frac 0 t of None \<Rightarrow> None
        | Some d \<Rightarrow> if neg then Some (- d) else if d > two63 - 1 then None else Some d)"

section \<open>config.go\<close>

record config =
  DatabaseURL :: string
  JWTSecret :: string
  Port :: string
  InitialBalancePaise :: int64
  TokenTTL :: duration
  DBTimeout :: duration
  ClaimWindow :: duration

definition getEnv :: "(string \<Rightarrow> string) \<Rightarrow> string \<Rightarrow> string \<Rightarrow> string" where
  "getEnv getenv key fallback = (let v = getenv key in if v \<noteq> [] then v else fallback)"

definition hours :: "int \<Rightarrow> duration" where "hours n = n * 3600000000000"

text \<open>\<open>fmt.Errorf\<close>: the format and its arguments.\<close>

datatype fmt_error = Errorf string "string list"

definition bad_balance :: string where
  "bad_balance = ''INITIAL_BALANCE_PAISE must be a non-negative integer, got %q''"

definition bad_window :: string where
  "bad_window = ''CLAIM_WINDOW must be a positive duration (e.g. 24h), got %q''"

definition Load :: "(int \<Rightarrow> int \<Rightarrow> int \<Rightarrow> int) \<Rightarrow> (string \<Rightarrow> string) \<Rightarrow> fmt_error + config" where
  "Load frac getenv =
     (let cfg = \<lparr>DatabaseURL = [], JWTSecret = [], Port = getEnv getenv ''PORT'' ''8080'', InitialBalancePaise = 100000,
            TokenTTL = hours 24, DBTimeout = 5000000000, ClaimWindow = hours 24\<rparr>;
          cfg = cfg\<lparr>DatabaseURL := getenv ''DATABASE_URL''\<rparr> in
      if DatabaseURL cfg = [] then Inl (Errorf ''DATABASE_URL is required'' [])
      else let cfg = cfg\<lparr>JWTSecret := getenv ''JWT_SECRET''\<rparr> in
      if length (JWTSecret cfg) < 16 then Inl (Errorf ''JWT_SECRET is required (min 16 chars)'' [])
      else
        let v = getenv ''INITIAL_BALANCE_PAISE'' in
        case (if v \<noteq> [] then
                (case parse_int64 v of
                   None \<Rightarrow> Inl (Errorf bad_balance [v])
                 | Some n \<Rightarrow> if n <s 0 then Inl (Errorf bad_balance [v])
                     else Inr (cfg\<lparr>InitialBalancePaise := n\<rparr>))
              else Inr cfg) of
          Inl e \<Rightarrow> Inl e
        | Inr cfg \<Rightarrow>
          (let v = getenv ''CLAIM_WINDOW'' in
           if v \<noteq> [] then
             (case ParseDuration frac v of
                None \<Rightarrow> Inl (Errorf bad_window [v])
              | Some d \<Rightarrow> if d \<le> 0 then Inl (Errorf bad_window [v])
                  else Inr (cfg\<lparr>ClaimWindow := d\<rparr>))
           else Inr cfg))"

text \<open>What the rest of the program relies on.\<close>

definition config_ok :: "config \<Rightarrow> bool" where
  "config_ok cfg \<longleftrightarrow> DatabaseURL cfg \<noteq> [] \<and> 16 \<le> length (JWTSecret cfg) \<and> Port cfg \<noteq> [] \<and>
     0 \<le> sint (InitialBalancePaise cfg) \<and> 0 < ClaimWindow cfg \<and> 0 < TokenTTL cfg"

lemma Load_config_ok: "Load frac getenv = Inr cfg \<Longrightarrow> config_ok cfg"
  by (auto simp: Load_def Let_def config_ok_def getEnv_def hours_def int64_sless_iff not_less
      split: if_splits option.splits sum.splits)

text \<open>The fuel of \<open>duration_terms\<close> suffices: more changes nothing.\<close>

lemma leading_int_shorter: "leading_int v s = Some (w, s') \<Longrightarrow> length s' \<le> length s"
  by (induction v s rule: leading_int.induct) (auto simp: Let_def split: if_splits)

lemma leading_fraction_shorter: "leading_fraction v sc ov s = (f, sc', s') \<Longrightarrow> length s' \<le> length s"
  by (induction v sc ov s rule: leading_fraction.induct) (force simp: Let_def split: if_splits)+

lemma span_unit_append: "span_unit s = (u, s') \<Longrightarrow> s = u @ s'"
  by (induction s arbitrary: u) (auto split: if_splits prod.splits)

lemma unit_ns_nonempty: "unit_ns u = Some n \<Longrightarrow> u \<noteq> []"
  by (auto simp: unit_ns_def)

lemma fraction_part_shorter: "fraction_part s = (post, f, sc, s') \<Longrightarrow> length s' \<le> length s"
  by (auto simp: fraction_part_def split: list.splits if_splits prod.splits dest: leading_fraction_shorter)

lemma unit_part_shorter:
  assumes "unit_part frac v f sc s = Some (w, s')"
  shows "length s' < length s"
proof -
  obtain u where u: "span_unit s = (u, s')" "u \<noteq> []"
    using assms unit_ns_nonempty
    by (auto simp: unit_part_def Let_def split: prod.splits option.splits if_splits)
  then show ?thesis using span_unit_append [OF u(1)] by (cases u) auto
qed

lemma duration_term_shorter:
  assumes "duration_term frac s = Some (v, s')"
  shows "length s' < length s"
proof -
  obtain a s1 post f sc s2 where "leading_int 0 s = Some (a, s1)" "fraction_part s1 = (post, f, sc, s2)"
    "unit_part frac a f sc s2 = Some (v, s')"
    using assms by (auto simp: duration_term_def split: if_splits option.splits prod.splits)
  then show ?thesis
    using leading_int_shorter fraction_part_shorter unit_part_shorter by fastforce
qed

lemma duration_terms_fuel:
  "length s \<le> m \<Longrightarrow> length s \<le> n \<Longrightarrow> duration_terms m frac d s = duration_terms n frac d s"
proof (induction m frac d s arbitrary: n rule: duration_terms.induct)
  case (3 fuel frac d c cs)
  then obtain n' where n: "n = Suc n'" by (cases n) auto
  have "duration_term frac (c # cs) = Some (v, s') \<Longrightarrow> length s' \<le> fuel \<and> length s' \<le> n'" for v s'
    using duration_term_shorter [of frac "c # cs" v s'] 3 n by auto
  then show ?case
    using 3 by (auto simp: n split: option.split)
qed auto

lemma Load_Port: "Load frac getenv = Inr cfg \<Longrightarrow> Port cfg = getEnv getenv ''PORT'' ''8080''"
  by (auto simp: Load_def Let_def split: if_splits option.splits)

end
