(* ===== verification/Ledger.thy ===== *)
theory Ledger
  imports Transfer_Effect
begin

text \<open>
  The invariants of the ledger, and the interface every one of them satisfies. The locale
  \<open>ledger_invariant\<close> lists the five ways the service changes the tables: time passes, a user
  is inserted, a wallet is created with its seed, a transfer moves money, a claim-back moves
  it back. Its interpretations are the three invariants of the design:
  \<^item> \<open>parties_ok\<close>: what every transfer row says of its parties and its reversal;
  \<^item> \<open>conserved\<close>: the balances add up to the number of wallets times the seed;
  \<^item> \<open>solvent\<close>: every balance covers the holds on it.
\<close>

section \<open>The invariants\<close>

text \<open>The columns of a transfer that no statement updates.\<close>

definition same_columns :: "transfer \<Rightarrow> transfer \<Rightarrow> bool" where
  "same_columns t t' \<longleftrightarrow>
     trID t = trID t' \<and> SenderID t = SenderID t' \<and> RecipientID t = RecipientID t' \<and>
     AmountPaise t = AmountPaise t' \<and> IdempotencyKey t = IdempotencyKey t' \<and> BodyHash t = BodyHash t' \<and>
     SenderBalanceAfter t = SenderBalanceAfter t' \<and> trCreatedAt t = trCreatedAt t'"

definition reversal_ok :: "transfer \<Rightarrow> bool" where
  "reversal_ok t \<longleftrightarrow>
     (if Status t = TransferReversed then ReversedAt t \<noteq> None \<and> SenderBalanceAfterReversal t \<noteq> None
      else ReversedAt t = None \<and> SenderBalanceAfterReversal t = None)"

definition transfer_ok :: "db \<Rightarrow> transfer \<Rightarrow> bool" where
  "transfer_ok d t \<longleftrightarrow>
     SenderID t \<noteq> RecipientID t \<and> has_wallet (SenderID t) d \<and> has_wallet (RecipientID t) d \<and> reversal_ok t"

definition parties_ok :: "db \<Rightarrow> bool" where
  "parties_ok d \<longleftrightarrow> (\<forall>t \<in> set (transfers d). transfer_ok d t)"

definition conserved :: "int64 \<Rightarrow> db \<Rightarrow> bool" where
  "conserved seed d \<longleftrightarrow> money d = sint seed * int (length (wallets d))"

definition solvent :: "pgtime \<Rightarrow> db \<Rightarrow> bool" where
  "solvent cutoff d \<longleftrightarrow> (\<forall>u b. balance_of u d = Some b \<longrightarrow> held_sum cutoff u d \<le> sint b)"

section \<open>The interface\<close>

locale ledger_invariant =
  fixes seed :: int64
    and Inv :: "pgtime \<Rightarrow> db \<Rightarrow> bool"
  assumes inv_later: "transfers_ok d \<Longrightarrow> Inv c d \<Longrightarrow> c \<le> c' \<Longrightarrow> Inv c' d"
    and inv_new_user: "Inv c d \<Longrightarrow> Inv c (apply_write (InsUser usr) d)"
    and inv_new_wallet:
      "Inv c d \<Longrightarrow> schema_ok d \<Longrightarrow> parties_ok d \<Longrightarrow> \<not> has_wallet u d \<Longrightarrow> 0 \<le> sint seed \<Longrightarrow>
       Inv c (ensure_wallet seed now u d)"
    and inv_transfer:
      "Inv c d \<Longrightarrow> schema_ok d \<Longrightarrow> s \<noteq> r \<Longrightarrow> 0 < sint amount \<Longrightarrow>
       balance_of s d = Some bs \<Longrightarrow> balance_of r d = Some br \<Longrightarrow>
       held_sum c s d \<le> sint bs - sint amount \<Longrightarrow> sint br + sint amount < 2 ^ 63 \<Longrightarrow>
       Inv c (apply_writes
         [InsTransfer (transfer_row now fresh s r amount key hash (bs - amount)),
          SetBalance s (bs - amount) now, SetBalance r (br + amount) now] d)"
    and inv_claim:
      "Inv c d \<Longrightarrow> schema_ok d \<Longrightarrow> t \<in> set (transfers d) \<Longrightarrow> active_hold c t \<Longrightarrow> transfer_ok d t \<Longrightarrow>
       balance_of (SenderID t) d = Some bs \<Longrightarrow> balance_of (RecipientID t) d = Some br \<Longrightarrow>
       sint (AmountPaise t) \<le> sint br \<Longrightarrow> sint bs + sint (AmountPaise t) < 2 ^ 63 \<Longrightarrow>
       Inv c (apply_writes
         [SetReversed (trID t) now (bs + AmountPaise t),
          SetBalance (RecipientID t) (br - AmountPaise t) now,
          SetBalance (SenderID t) (bs + AmountPaise t) now] d)"

section \<open>Amounts in range\<close>

lemma transfer_amounts:
  assumes "wallets_ok d" "balance_of s d = Some bs" "balance_of r d = Some br" "0 < sint amount"
    "sint br + sint amount < 2 ^ 63"
  shows "sint (bs - amount) = sint bs - sint amount" "sint (br + amount) = sint br + sint amount"
  using assms balance_of_nonneg [OF assms(1)] by (simp_all add: sint_int64_minus_exact sint_int64_plus_exact)

lemma transfers_ok_amount: "transfers_ok d \<Longrightarrow> t \<in> set (transfers d) \<Longrightarrow> 0 < sint (AmountPaise t)"
  by (simp add: transfers_ok_def)

lemma transfer_id_unique:
  "transfers_ok d \<Longrightarrow> t \<in> set (transfers d) \<Longrightarrow> t' \<in> set (transfers d) \<Longrightarrow> trID t = trID t' \<Longrightarrow> t = t'"
  by (auto simp: transfers_ok_def distinct_map inj_on_def)

section \<open>Interpretation: the rows of the transfers\<close>

lemma parties_ok_ensure_wallet: "parties_ok d \<Longrightarrow> parties_ok (ensure_wallet seed now u d)"
  by (simp add: parties_ok_def transfer_ok_def)

interpretation parties: ledger_invariant seed "\<lambda>c. parties_ok" for seed :: int64
proof unfold_locales
  fix c d s r amount bs br now fresh key hash
  assume "parties_ok d" "s \<noteq> r" "balance_of s d = Some bs" "balance_of r d = Some br"
  then show "parties_ok (apply_writes
       [InsTransfer (transfer_row now fresh s r amount key hash (bs - amount)),
        SetBalance s (bs - amount) now, SetBalance r (br + amount) now] d)"
    by (auto simp: parties_ok_def transfer_ok_def reversal_ok_def transfer_row_def balance_of_has_wallet)
next
  fix c d t bs br now
  assume "parties_ok d"
  then show "parties_ok (apply_writes
       [SetReversed (trID t) now (bs + AmountPaise t), SetBalance (RecipientID t) (br - AmountPaise t) now,
        SetBalance (SenderID t) (bs + AmountPaise t) now] d)"
    by (auto simp: parties_ok_def transfer_ok_def reversal_ok_def set_update_where)
qed (simp_all add: parties_ok_def transfer_ok_def)

section \<open>Interpretation: conservation of money\<close>

interpretation conserve: ledger_invariant seed "\<lambda>c. conserved seed" for seed :: int64
proof unfold_locales
  fix c d u now
  assume "conserved seed d" "\<not> has_wallet u d"
  then show "conserved seed (ensure_wallet seed now u d)"
    by (simp add: conserved_def ensure_wallet_def algebra_simps)
next
  fix c d s r amount bs br now fresh key hash
  assume a: "conserved seed d" "schema_ok d" "s \<noteq> r" "0 < sint (amount :: int64)"
    "balance_of s d = Some bs" "balance_of r d = Some br" "sint br + sint amount < 2 ^ 63"
  then have d: "distinct (map wUserID (wallets d))" and "wallets_ok d"
    by (auto simp: schema_ok_def wallets_ok_def)
  with a show "conserved seed (apply_writes
       [InsTransfer (transfer_row now fresh s r amount key hash (bs - amount)),
        SetBalance s (bs - amount) now, SetBalance r (br + amount) now] d)"
    using transfer_amounts [OF \<open>wallets_ok d\<close> a(5,6,4,7)]
    by (simp add: conserved_def money_SetBalance [of _ r br] money_SetBalance [of _ s bs])
next
  fix c d t bs br now
  assume a: "conserved seed d" "schema_ok d" "t \<in> set (transfers d)" "transfer_ok d t"
    "balance_of (SenderID t) d = Some bs" "balance_of (RecipientID t) d = Some br"
    "sint bs + sint (AmountPaise t) < 2 ^ 63"
  then have d: "distinct (map wUserID (wallets d))" and w: "wallets_ok d" and "0 < sint (AmountPaise t)"
    and neq: "SenderID t \<noteq> RecipientID t"
    by (auto simp: schema_ok_def wallets_ok_def transfers_ok_def transfer_ok_def)
  with a show "conserved seed (apply_writes
       [SetReversed (trID t) now (bs + AmountPaise t), SetBalance (RecipientID t) (br - AmountPaise t) now,
        SetBalance (SenderID t) (bs + AmountPaise t) now] d)"
    using transfer_amounts [OF w a(6,5) _ a(7)]
    by (simp add: conserved_def money_SetBalance [of _ "RecipientID t" br] money_SetBalance [of _ "SenderID t" bs])
qed (simp_all add: conserved_def)

section \<open>Interpretation: balances cover holds\<close>

lemma held_sum_no_wallet:
  assumes "parties_ok d" "\<not> has_wallet u d"
  shows "held_sum c u d = 0"
proof -
  have "filter (\<lambda>t. RecipientID t = u \<and> active_hold c t) (transfers d) = []"
    using assms by (auto simp: parties_ok_def transfer_ok_def filter_empty_conv)
  then show ?thesis by (simp add: held_sum_def)
qed

interpretation solvency: ledger_invariant seed solvent for seed :: int64
proof unfold_locales
  fix c d c'
  assume "transfers_ok d" "solvent c d" "c \<le> c'"
  then show "solvent c' d"
    unfolding solvent_def by (blast intro: order_trans held_sum_antimono)
next
  fix c d usr
  show "solvent c d \<Longrightarrow> solvent c (apply_write (InsUser usr) d)"
    by (simp add: solvent_def)
next
  fix c d u now
  assume "solvent c d" "parties_ok d" "\<not> has_wallet u d" "0 \<le> sint seed"
  then show "solvent c (ensure_wallet seed now u d)"
    by (simp add: solvent_def balance_of_ensure_wallet held_sum_no_wallet)
next
  fix c d s r amount bs br now fresh key hash
  assume a: "solvent c d" "schema_ok d" "s \<noteq> r" "0 < sint (amount :: int64)"
    "balance_of s d = Some bs" "balance_of r d = Some br"
    "held_sum c s d \<le> sint bs - sint amount" "sint br + sint amount < 2 ^ 63"
  then have "wallets_ok d" by (simp add: schema_ok_def)
  moreover have "held_sum c r d \<le> sint br + sint amount"
    using a(1,4,6) by (force simp: solvent_def)
  ultimately show "solvent c (apply_writes
       [InsTransfer (transfer_row now fresh s r amount key hash (bs - amount)),
        SetBalance s (bs - amount) now, SetBalance r (br + amount) now] d)"
    using transfer_amounts [OF \<open>wallets_ok d\<close> a(5,6,4,8)] a
    by (auto simp: solvent_def transfer_row_def balance_of_has_wallet split: if_splits)
next
  fix c d t bs br now
  assume a: "solvent c d" "schema_ok d" "t \<in> set (transfers d)" "active_hold c t" "transfer_ok d t"
    "balance_of (SenderID t) d = Some bs" "balance_of (RecipientID t) d = Some br"
    "sint (AmountPaise t) \<le> sint br" "sint bs + sint (AmountPaise t) < 2 ^ 63"
  then have w: "wallets_ok d" and t: "transfers_ok d" "0 < sint (AmountPaise t)"
    and neq: "SenderID t \<noteq> RecipientID t"
    by (auto simp: schema_ok_def transfers_ok_def transfer_ok_def)
  moreover have "held_sum c (SenderID t) d \<le> sint bs + sint (AmountPaise t)"
    using a(1,6) t(2) by (force simp: solvent_def)
  ultimately show "solvent c (apply_writes
       [SetReversed (trID t) now (bs + AmountPaise t), SetBalance (RecipientID t) (br - AmountPaise t) now,
        SetBalance (SenderID t) (bs + AmountPaise t) now] d)"
    using a transfer_amounts [OF w a(7,6) _ a(9)] held_sum_SetReversed [OF t(1) a(3,4), of _ now "bs + AmountPaise t"]
    by (auto simp: solvent_def balance_of_has_wallet)
qed

section \<open>Transfers and claims as a whole\<close>

context ledger_invariant
begin

lemma inv_ensure_wallets:
  "Inv c d \<Longrightarrow> schema_ok d \<Longrightarrow> parties_ok d \<Longrightarrow> 0 \<le> sint seed \<Longrightarrow> \<forall>u \<in> set ids. has_user u d \<Longrightarrow>
   Inv c (fold (ensure_wallet seed now) ids d) \<and> parties_ok (fold (ensure_wallet seed now) ids d)"
proof (induction ids arbitrary: d)
  case Nil
  then show ?case by simp
next
  case (Cons u ids)
  have "Inv c (ensure_wallet seed now u d)"
    using Cons.prems inv_new_wallet by (cases "has_wallet u d") (simp_all add: ensure_wallet_def)
  moreover have "schema_ok (ensure_wallet seed now u d)" "parties_ok (ensure_wallet seed now u d)"
    using Cons.prems by (simp_all add: schema_ok_ensure_wallet parties_ok_ensure_wallet)
  ultimately show ?case
    using Cons.IH [of "ensure_wallet seed now u d"] Cons.prems by simp
qed

text \<open>
  The funds check may have been made with an earlier cutoff than the one the invariant is stated
  for; the hold of the transfer claimed back must be active for the latter.
\<close>

lemma inv_transfer_spec_later:
  assumes "transfer_spec now c0 seed ids fresh s r amount key hash d = Inr (res, d')" "c0 \<le> c"
    and "Inv c d" "schema_ok d" "parties_ok d" "s \<noteq> r" "0 < sint amount" "0 \<le> sint seed"
    and "\<forall>u \<in> set ids. has_user u d"
  shows "Inv c d'"
  using assms(1)
proof (rule transfer_specE)
  fix bs br
  let ?d1 = "fold (ensure_wallet seed now) ids d"
  assume "balance_of s ?d1 = Some bs" "balance_of r ?d1 = Some br" "held_sum c0 s d \<le> sint bs - sint amount"
    "sint br + sint amount < 2 ^ 63"
    and d': "d' = apply_writes
       [InsTransfer (transfer_row now fresh s r amount key hash (bs - amount)),
        SetBalance s (bs - amount) now, SetBalance r (br + amount) now] ?d1"
  moreover have "held_sum c s d \<le> held_sum c0 s d"
    using assms(2,4) by (intro held_sum_antimono) (simp_all add: schema_ok_def)
  ultimately show "Inv c d'"
    unfolding d' using assms inv_ensure_wallets
    by (intro inv_transfer) (auto simp: schema_ok_ensure_wallets)
qed

lemmas inv_transfer_spec = inv_transfer_spec_later [OF _ order_refl]


lemma inv_claim_spec_later:
  assumes "claim_spec now c0 tr d = Inr (res, d')" "active_hold c t"
    and "Inv c d" "schema_ok d" "parties_ok d" and t: "t \<in> set (transfers d)" "same_columns t tr"
  shows "Inv c d'"
  using assms(1)
proof (rule claim_specE)
  fix bs br
  assume b: "balance_of (SenderID tr) d = Some bs" "balance_of (RecipientID tr) d = Some br"
    and rng: "sint (AmountPaise tr) \<le> sint br" "sint bs + sint (AmountPaise tr) < 2 ^ 63"
    and d': "d' = apply_writes
       [SetReversed (trID tr) now (bs + AmountPaise tr),
        SetBalance (RecipientID tr) (br - AmountPaise tr) now,
        SetBalance (SenderID tr) (bs + AmountPaise tr) now] d"
  have "transfer_ok d t" using assms(5) t(1) by (simp add: parties_ok_def)
  then show "Inv c d'"
    using inv_claim [OF assms(3,4) t(1) assms(2), of bs br now] b rng t(2)
    by (simp add: d' same_columns_def)
qed

lemma inv_claim_spec:
  assumes "claim_spec now c tr d = Inr (res, d')"
    and "Inv c d" "schema_ok d" "parties_ok d" and t: "t \<in> set (transfers d)" "same_columns t tr"
  shows "Inv c d'"
proof -
  have "active_hold c t"
    using assms(1)
  proof (rule claim_specE)
    fix t' assume t': "t' \<in> set (transfers d)" "trID t' = trID tr" "active_hold c t'"
    have "t' = t"
      using t t' assms(3) by (intro transfer_id_unique [of d]) (auto simp: schema_ok_def same_columns_def)
    with t' show ?thesis by simp
  qed
  then show ?thesis by (rule inv_claim_spec_later [OF assms(1) _ assms(2-6)])
qed

end

end
