(* ===== verification/Service_Invariants.thy ===== *)
theory Service_Invariants
  imports Ledger Transfer_Service Wallet_Service Auth_Service
begin

text \<open>
  Every operation of the three services keeps every ledger invariant, for any behaviour of the
  connection: lost statements, lost commits and commits whose reply is lost. Between two round
  trips the other sessions may commit anything that keeps the invariant and only evolves the
  tables (\<open>others_keep\<close>); the clock of the database never goes back (\<open>clock_mono\<close>).
\<close>

section \<open>What is assumed of the other sessions\<close>

text \<open>
  How committed work changes the tables: rows are never deleted, the columns of a transfer
  that no statement updates stay, and a reversed transfer is final.
\<close>

definition db_evolves :: "db \<Rightarrow> db \<Rightarrow> bool" where
  "db_evolves d d' \<longleftrightarrow>
     (\<forall>t \<in> set (transfers d). \<exists>t' \<in> set (transfers d'). same_columns t t' \<and>
        (Status t = TransferReversed \<longrightarrow> t' = t)) \<and>
     set (users d) \<subseteq> set (users d') \<and>
     (\<forall>u. has_wallet u d \<longrightarrow> has_wallet u d')"

definition cut_at :: "pgenv \<Rightarrow> duration \<Rightarrow> nat \<Rightarrow> pgtime" where
  "cut_at env win n = cutoff_at env (pg_clock env n) win"

definition clock_mono :: "pgenv \<Rightarrow> bool" where
  "clock_mono env \<longleftrightarrow> (\<forall>m n. m \<le> n \<longrightarrow> pg_clock env m \<le> pg_clock env n)"

definition ledger_db :: "(pgtime \<Rightarrow> db \<Rightarrow> bool) \<Rightarrow> pgtime \<Rightarrow> db \<Rightarrow> bool" where
  "ledger_db Inv c d \<longleftrightarrow> schema_ok d \<and> parties_ok d \<and> Inv c d"

definition ledger_at :: "(pgtime \<Rightarrow> db \<Rightarrow> bool) \<Rightarrow> pgenv \<Rightarrow> duration \<Rightarrow> world \<Rightarrow> bool" where
  "ledger_at Inv env win w \<longleftrightarrow> ledger_db Inv (cut_at env win (tick w)) (db w)"

definition others_keep :: "(pgtime \<Rightarrow> db \<Rightarrow> bool) \<Rightarrow> pgenv \<Rightarrow> duration \<Rightarrow> bool" where
  "others_keep Inv env win \<longleftrightarrow> (\<forall>n d. ledger_db Inv (cut_at env win n) d \<longrightarrow>
     ledger_db Inv (cut_at env win n) (pg_others env n d) \<and> db_evolves d (pg_others env n d))"

lemma db_evolves_refl [simp]: "db_evolves d d"
  by (auto simp: db_evolves_def same_columns_def)

lemma cut_at_mono: "clock_mono env \<Longrightarrow> m \<le> n \<Longrightarrow> cut_at env win m \<le> cut_at env win n"
  by (simp add: clock_mono_def cut_at_def cutoff_at_def)

lemma seen_ledger:
  "others_keep Inv env win \<Longrightarrow> ledger_at Inv env win w \<Longrightarrow>
   ledger_db Inv (cut_at env win (tick w)) (seen env w) \<and> db_evolves (db w) (seen env w)"
  by (simp add: others_keep_def ledger_at_def seen_def)

lemma same_columns_refl [simp]: "same_columns t t"
  by (simp add: same_columns_def)

lemma same_columns_sym: "same_columns t t' \<Longrightarrow> same_columns t' t"
  by (simp add: same_columns_def)

lemma db_evolves_transfer:
  "db_evolves d d' \<Longrightarrow> t \<in> set (transfers d) \<Longrightarrow> \<exists>t' \<in> set (transfers d'). same_columns t' t"
  by (metis db_evolves_def same_columns_sym)

section \<open>The operations keep the invariant\<close>

context ledger_invariant
begin

lemma ledger_db_later:
  "ledger_db Inv c d \<Longrightarrow> c \<le> c' \<Longrightarrow> ledger_db Inv c' d"
  using inv_later by (auto simp: ledger_db_def schema_ok_def)

lemma ledger_at_later:
  "clock_mono env \<Longrightarrow> ledger_db Inv (cut_at env win n) (db w) \<Longrightarrow> n \<le> tick w \<Longrightarrow> ledger_at Inv env win w"
  unfolding ledger_at_def by (rule ledger_db_later [OF _ cut_at_mono])

lemma keeps_observe: "keeps (ledger_at Inv env win) (observe m ls)"
  by (rule keepsI) (simp add: ledger_at_def)

lemma keeps_after_read:
  assumes "clock_mono env" "others_keep Inv env win" "ledger_at Inv env win w"
  shows "ledger_at Inv env win (after_read env w)"
  using seen_ledger [OF assms(2,3)]
  by (intro ledger_at_later [OF assms(1), of _ "tick w"]) simp_all

lemma keeps_statement:
  assumes env: "clock_mono env" "others_keep Inv env win"
    and f: "\<And>now fresh d. ledger_db Inv (cut_at env win n) d \<Longrightarrow>
      ledger_db Inv (cut_at env win n) (apply_writes (snd (f now fresh d)) d)"
    and w: "ledger_at Inv env win w" "tick w = n"
  shows "ledger_at Inv env win (snd (run_state (query env f) w))"
proof (rule ledger_at_later [OF env(1)])
  have "ledger_db Inv (cut_at env win n) (seen env w)"
    using seen_ledger [OF env(2) w(1)] w(2) by simp
  then show "ledger_db Inv (cut_at env win n) (db (snd (run_state (query env f) w)))"
    using f by (simp add: run_query snd_deliver seen_def split: outcome.split)
qed (use w in simp)

lemma keeps_read:
  assumes "clock_mono env" "others_keep Inv env win" "\<And>now fresh d. snd (f now fresh d) = []"
  shows "keeps (ledger_at Inv env win) (query env f)"
  using assms by (intro keepsI keeps_statement) auto

lemma ledger_db_insert_user:
  "ledger_db Inv c d \<Longrightarrow> ledger_db Inv c (apply_writes (snd (sql_insert_user now fresh name hash d)) d)"
  using schema_ok_insert_user [of d now fresh name hash]
  by (auto simp: ledger_db_def sql_insert_user_def Let_def inv_new_user parties_ok_def transfer_ok_def)

lemma ledger_db_insert_wallet:
  assumes "ledger_db Inv c d"
  shows "ledger_db Inv c (apply_writes (snd (sql_insert_wallet now u seed d)) d)"
proof -
  have "Inv c (apply_writes (snd (sql_insert_wallet now u seed d)) d)"
    using assms inv_new_wallet [of c d u now]
    by (auto simp: ledger_db_def sql_insert_wallet_def ensure_wallet_def)
  moreover have "parties_ok (apply_writes (snd (sql_insert_wallet now u seed d)) d)"
    using assms by (auto simp: ledger_db_def sql_insert_wallet_def parties_ok_def transfer_ok_def)
  ultimately show ?thesis
    using assms schema_ok_insert_wallet by (simp add: ledger_db_def)
qed

lemma keeps_insert_user:
  "clock_mono env \<Longrightarrow> others_keep Inv env win \<Longrightarrow>
   keeps (ledger_at Inv env win) (query env (\<lambda>now fresh. sql_insert_user now fresh name hash))"
  by (intro keepsI keeps_statement) (auto intro: ledger_db_insert_user)

lemma keeps_insert_wallet:
  "clock_mono env \<Longrightarrow> others_keep Inv env win \<Longrightarrow>
   keeps (ledger_at Inv env win) (query env (\<lambda>now fresh. sql_insert_wallet now u seed))"
  by (intro keepsI keeps_statement) (auto intro: ledger_db_insert_wallet)

text \<open>A transaction whose successful runs keep the invariant keeps it.\<close>

lemma keeps_WithTx:
  assumes env: "clock_mono env" "others_keep Inv env win" and w: "ledger_at Inv env win w"
    and body: "\<And>a w1. exec_tx env (pg_clock env (tick w)) fn (after_read env w) = (Inr a, w1) \<Longrightarrow>
      ledger_db Inv (cut_at env win (tick w)) (db w1)"
  shows "ledger_at Inv env win (snd (run_state (WithTx env fn) w))"
proof -
  obtain r w' where run: "run_state (WithTx env fn) w = (r, w')" by force
  then have "ledger_db Inv (cut_at env win (tick w)) (db w')"
    using seen_ledger [OF env(2) w] body by (cases rule: run_WithTx_cases) auto
  moreover have "tick w \<le> tick w'"
    using tick_WithTx [of w env fn] run by simp
  ultimately show ?thesis
    using ledger_at_later [OF env(1)] run by simp
qed

lemma execute_body_ledger:
  assumes "exec_tx env now (execute_body x t s r amount key hash) w = (Inr a, w1)"
    and "ledger_db Inv (cutoff_at env now (claimWindow t)) (db w)" "s \<noteq> r"
    and "seedPaise t = seed" "0 \<le> sint seed"
  shows "ledger_db Inv (cutoff_at env now (claimWindow t)) (db w1)"
proof -
  have ok: "schema_ok (db w)" "parties_ok (db w)" using assms(2) by (simp_all add: ledger_db_def)
  show ?thesis
    using assms(1) ok(1) assms(3)
  proof (rule execute_body_ok)
    fix n
    assume spec: "transfer_spec now (cutoff_at env now (claimWindow t)) (seedPaise t) (sort_ids x [s, r])
        (pg_uuid env n) s r amount key hash (db w) = Inr (a, db w1)"
      and "0 < sint amount" "has_user s (db w)" "has_user r (db w)"
    then have "Inv (cutoff_at env now (claimWindow t)) (db w1)" "parties_ok (db w1)"
      using assms ok inv_transfer_spec [OF spec [unfolded assms(4)]]
        parties.inv_transfer_spec [OF spec [unfolded assms(4)]]
      by (auto simp: ledger_db_def)
    moreover have "schema_ok (db w1)"
      using schema_ok_exec_tx [OF ok(1), of env now "execute_body x t s r amount key hash"] assms(1) by simp
    ultimately show ?thesis by (simp add: ledger_db_def)
  qed
qed

lemma claim_body_ledger:
  assumes "exec_tx env now (claim_body x t tr) w = (Inr a, w1)"
    and "ledger_db Inv (cutoff_at env now (claimWindow t)) (db w)"
    and row: "t' \<in> set (transfers (db w))" "same_columns t' tr"
  shows "ledger_db Inv (cutoff_at env now (claimWindow t)) (db w1)"
proof -
  have ok: "schema_ok (db w)" "parties_ok (db w)" using assms(2) by (simp_all add: ledger_db_def)
  have amt: "0 < sint (AmountPaise tr)"
    using ok(1) row by (auto simp: schema_ok_def transfers_ok_def same_columns_def)
  show ?thesis
    using assms(1) ok(1) amt
  proof (rule claim_body_ok)
    assume spec: "claim_spec now (cutoff_at env now (claimWindow t)) tr (db w) = Inr (a, db w1)"
    then have "Inv (cutoff_at env now (claimWindow t)) (db w1)" "parties_ok (db w1)"
      using assms(2) ok inv_claim_spec [OF spec _ ok row] parties.inv_claim_spec [OF spec _ ok row]
      by (auto simp: ledger_db_def)
    moreover have "schema_ok (db w1)"
      using schema_ok_exec_tx [OF ok(1), of env now "claim_body x t tr"] assms(1) by simp
    ultimately show ?thesis by (simp add: ledger_db_def)
  qed
qed

lemma keeps_execute_tx:
  assumes env: "clock_mono env" "others_keep Inv env win"
    and cfg: "seedPaise t = seed" "0 \<le> sint seed" "claimWindow t = win" and neq: "s \<noteq> r"
  shows "keeps (ledger_at Inv env win) (WithTx env (execute_body x t s r amount key hash))"
proof (rule keepsI)
  fix w assume w: "ledger_at Inv env win w"
  note seen = seen_ledger [OF env(2) w, THEN conjunct1]
  show "ledger_at Inv env win (snd (run_state (WithTx env (execute_body x t s r amount key hash)) w))"
    using env w
  proof (rule keeps_WithTx)
    fix a w1
    assume "exec_tx env (pg_clock env (tick w)) (execute_body x t s r amount key hash) (after_read env w) = (Inr a, w1)"
    from execute_body_ledger [OF this _ neq cfg(1,2)] seen cfg(3)
    show "ledger_db Inv (cut_at env win (tick w)) (db w1)" by (simp add: cut_at_def)
  qed
qed

lemma keeps_Execute:
  assumes env: "clock_mono env" "others_keep Inv env win"
    and cfg: "seedPaise t = seed" "0 \<le> sint seed" "claimWindow t = win"
  shows "keeps (ledger_at Inv env win) (Execute env x t s name amount key)"
  unfolding Execute_def execute_finish_def resolveExistingKey_def GetUserByUsername_def GetTransferBySenderKey_def
  using assms by (intro keeps_intros keeps_observe keeps_read keeps_execute_tx) auto

lemma keeps_GetByID:
  "clock_mono env \<Longrightarrow> others_keep Inv env win \<Longrightarrow> keeps (ledger_at Inv env win) (GetByID env caller i)"
  unfolding GetByID_def GetTransferByID_def by (intro keeps_intros keeps_read) auto

lemma keeps_resolveUnappliedClaim:
  "clock_mono env \<Longrightarrow> others_keep Inv env win \<Longrightarrow>
   keeps (ledger_at Inv env win) (resolveUnappliedClaim env i)"
  unfolding resolveUnappliedClaim_def replayClaim_def GetTransferByID_def
  by (intro keeps_intros keeps_observe keeps_read) auto

lemma keeps_claim_tx:
  assumes env: "clock_mono env" "others_keep Inv env win" and win: "claimWindow t = win"
    and w: "ledger_at Inv env win w" and tr: "tr \<in> set (transfers (db w))"
  shows "ledger_at Inv env win (snd (run_state (WithTx env (claim_body x t tr)) w))"
  using env w
proof (rule keeps_WithTx)
  fix a w1
  assume run: "exec_tx env (pg_clock env (tick w)) (claim_body x t tr) (after_read env w) = (Inr a, w1)"
  obtain t' where "t' \<in> set (transfers (seen env w))" "same_columns t' tr"
    using seen_ledger [OF env(2) w] db_evolves_transfer [OF _ tr] by blast
  with claim_body_ledger [OF run] seen_ledger [OF env(2) w] win
  show "ledger_db Inv (cut_at env win (tick w)) (db w1)" by (simp add: cut_at_def)
qed

lemma keeps_ClaimBack:
  assumes env: "clock_mono env" "others_keep Inv env win" and win: "claimWindow t = win"
  shows "keeps (ledger_at Inv env win) (ClaimBack env x t caller i)"
proof (rule keepsI)
  fix w assume "ledger_at Inv env win w"
  then have w1: "ledger_at Inv env win (after_read env w)" by (rule keeps_after_read [OF env])
  show "ledger_at Inv env win (snd (run_state (ClaimBack env x t caller i) w))"
  proof (cases "lookup_result (pg_link env (tick w)) (transfer_with_id i (seen env w))")
    case (Inl err)
    then show ?thesis using w1 by (simp add: ClaimBack_def run_GetTransferByID)
  next
    case (Inr tr)
    then have "tr \<in> set (transfers (db (after_read env w)))"
      by (auto dest: lookup_result_InrD transfer_with_id_SomeD)
    note tx = keeps_claim_tx [OF env win w1 this]
    have rest: "keeps (ledger_at Inv env win) (claim_finish env tr res)" for res
      unfolding claim_finish_def using env
      by (intro keeps_intros keeps_observe keeps_resolveUnappliedClaim) auto
    show ?thesis
      using Inr w1 keepsD [OF rest tx]
      by (auto simp: ClaimBack_def run_GetTransferByID replayClaim_def ledger_at_def split_beta)
  qed
qed

lemma keeps_GetOrCreate:
  assumes env: "clock_mono env" "others_keep Inv env win" and seed: "wsSeedPaise ws = seed"
  shows "keeps (ledger_at Inv env win) (GetOrCreate env ws u)"
  unfolding GetOrCreate_def GetOrCreateWallet_def seed
  by (intro keeps_intros keeps_observe keeps_insert_wallet [OF env] keeps_read [OF env]) simp_all

lemma keeps_GetBalance:
  "clock_mono env \<Longrightarrow> others_keep Inv env win \<Longrightarrow> keeps (ledger_at Inv env win) (GetBalance env ws u)"
  unfolding GetBalance_def GetWalletBalances_def by (intro keeps_intros keeps_read) auto

lemma keeps_issueToken: "keeps (ledger_at Inv env win) (issueToken env x a u)"
  by (rule keepsI) (simp add: issueToken_def Let_def)

lemma keeps_VerifyToken: "keeps (ledger_at Inv env win) (VerifyToken env x a tok)"
  by (rule keepsI) (simp add: VerifyToken_def)

lemma keeps_Signup:
  "clock_mono env \<Longrightarrow> others_keep Inv env win \<Longrightarrow> keeps (ledger_at Inv env win) (Signup env x a name pw)"
  unfolding Signup_def CreateUser_def
  by (intro keeps_intros keeps_insert_user keeps_issueToken)

lemma keeps_Login:
  "clock_mono env \<Longrightarrow> others_keep Inv env win \<Longrightarrow> keeps (ledger_at Inv env win) (Login env x a name pw)"
  unfolding Login_def GetUserByUsername_def
  by (intro keeps_intros keeps_read keeps_issueToken) auto

end

end
