(* ===== verification/App.thy ===== *)
theory App
  imports Api Config Service_Invariants
begin

text \<open>
  \<open>internal/app\<close>: the services built from the configuration, the handlers built from the
  services, and the routes. A request is served by \<open>NewHandler\<close>; every request keeps every
  ledger invariant, so a history of requests from an empty database does.
\<close>

definition auth_of :: "config \<Rightarrow> auth_service" where
  "auth_of cfg = \<lparr>secret = JWTSecret cfg, tokenTTL = TokenTTL cfg\<rparr>"

definition wallets_of :: "config \<Rightarrow> wallet_service" where
  "wallets_of cfg = \<lparr>wsSeedPaise = InitialBalancePaise cfg, wsClaimWindow = ClaimWindow cfg\<rparr>"

definition transfers_of :: "config \<Rightarrow> transfer_service" where
  "transfers_of cfg = \<lparr>seedPaise = InitialBalancePaise cfg, claimWindow = ClaimWindow cfg\<rparr>"

text \<open>\<open>obs.NewLogger\<close> on \<open>obs.NewRing(1000)\<close>, and the lines the logger has written to it.\<close>

definition ring_of :: "http_env \<Rightarrow> log_record list \<Rightarrow> ring option" where
  "ring_of henv ls =
     map_option Sink (fold (\<lambda>l lg. Option.bind lg (logger_Handle (slog_line henv) l)) ls
       (Some (NewLogger (stdout_ok henv) (NewRing 1000))))"

definition handle_Logs :: "http_env \<Rightarrow> http_request \<Rightarrow> http_response option go" where
  "handle_Logs henv r = do {
     w \<leftarrow> State_Monad.get;
     State_Monad.return (map_option
       (\<lambda>rg. \<lparr>RespStatus = 200, RespHeaders = [(''Content-Type'', ''application/x-ndjson'')],
              RespBody = BodyText (ring_ServeHTTP (LimitParam r) rg)\<rparr>) (ring_of henv (logs w)))
   }"

definition handle_Metrics :: "http_env \<Rightarrow> http_request \<Rightarrow> http_response option go" where
  "handle_Metrics henv r = do {
     w \<leftarrow> State_Monad.get;
     State_Monad.return (Some \<lparr>RespStatus = 200, RespHeaders = [], RespBody = BodyText (promhttp_text henv registered (mets w))\<rparr>)
   }"

definition Routes :: "pgenv \<Rightarrow> http_env \<Rightarrow> extern \<Rightarrow> config \<Rightarrow> endpoint \<Rightarrow> http_request \<Rightarrow> http_response option go" where
  "Routes env henv x cfg ep =
     (case ep of
        Signup_ep \<Rightarrow> handle_Signup env x (auth_of cfg)
      | Login_ep \<Rightarrow> handle_Login env x (auth_of cfg)
      | CreateAccount_ep \<Rightarrow> handle_CreateAccount env x (wallets_of cfg)
      | GetMyAccount_ep \<Rightarrow> handle_GetMyAccount env (wallets_of cfg)
      | CreateTransfer_ep \<Rightarrow> handle_CreateTransfer env x (transfers_of cfg)
      | GetTransfer_ep \<Rightarrow> handle_GetTransfer env x
      | ClaimTransfer_ep \<Rightarrow> handle_Claim env x (transfers_of cfg)
      | Index_ep \<Rightarrow> handle_Index
      | Healthz_ep \<Rightarrow> handle_Healthz
      | Readyz_ep \<Rightarrow> handle_Readyz env
      | Metrics_ep \<Rightarrow> handle_Metrics henv
      | Logs_ep \<Rightarrow> handle_Logs henv)"

definition NewHandler ::
  "pgenv \<Rightarrow> http_env \<Rightarrow> extern \<Rightarrow> config \<Rightarrow> http_request \<Rightarrow> http_response go" where
  "NewHandler env henv x cfg =
     NewRouter henv (VerifyToken env x (auth_of cfg)) (Routes env henv x cfg)"

text \<open>Requests served one after another.\<close>

definition serve_all ::
  "pgenv \<Rightarrow> http_env \<Rightarrow> extern \<Rightarrow> config \<Rightarrow> http_request list \<Rightarrow> world \<Rightarrow> world" where
  "serve_all env henv x cfg rs w = fold (\<lambda>r w. snd (run_state (NewHandler env henv x cfg r) w)) rs w"

section \<open>Predicates of the database\<close>

text \<open>
  A predicate that the counters and the log do not affect, kept by what the handlers call,
  is kept by the whole chain.
\<close>

definition db_pred :: "(world \<Rightarrow> bool) \<Rightarrow> bool" where
  "db_pred P \<longleftrightarrow> (\<forall>w w'. db w = db w' \<and> tick w = tick w' \<longrightarrow> P w = P w')"

lemma db_predD: "db_pred P \<Longrightarrow> P w \<Longrightarrow> db w = db w' \<Longrightarrow> tick w = tick w' \<Longrightarrow> P w'"
  unfolding db_pred_def by metis

lemma db_pred_observe: "db_pred P \<Longrightarrow> keeps P (observe m ls)"
  by (rule keepsI, rule db_predD, assumption, assumption) simp_all

lemma db_pred_writeDomainError: "db_pred P \<Longrightarrow> keeps P (writeDomainError err)"
  by (rule keepsI, rule db_predD, assumption, assumption) simp_all

lemma db_pred_authFail: "db_pred P \<Longrightarrow> keeps P (authFail reason)"
  unfolding authFail_def by (intro keeps_intros db_pred_observe)

lemma keeps_WithLogger:
  "(\<And>w ls. P w \<Longrightarrow> P (w\<lparr>logs := ls\<rparr>)) \<Longrightarrow> keeps P m \<Longrightarrow> keeps P (WithLogger attrs m)"
  by (rule keepsI) (simp add: scoped_def keepsD)

lemma db_pred_WithLogger: "db_pred P \<Longrightarrow> keeps P m \<Longrightarrow> keeps P (WithLogger attrs m)"
  by (rule keeps_WithLogger) (auto elim: db_predD)

lemma keeps_authenticate:
  "db_pred P \<Longrightarrow> (\<And>t. keeps P (verifier t)) \<Longrightarrow> (\<And>r. keeps P (next r)) \<Longrightarrow> keeps P (authenticate verifier next r)"
  unfolding authenticate_def by (intro keeps_intros db_pred_authFail db_pred_WithLogger)

lemma keeps_mux:
  "db_pred P \<Longrightarrow> (\<And>t. keeps P (verifier t)) \<Longrightarrow> (\<And>ep r. keeps P (routes ep r)) \<Longrightarrow> keeps P (mux verifier routes r)"
  unfolding mux_def by (intro keeps_intros keeps_authenticate)

lemma keeps_NewRouter:
  "db_pred P \<Longrightarrow> (\<And>t. keeps P (verifier t)) \<Longrightarrow> (\<And>ep r. keeps P (routes ep r)) \<Longrightarrow>
   keeps P (NewRouter henv verifier routes r)"
  unfolding NewRouter_def recovery_def requestID_def metrics_mw_def withTimeout_def
  by (intro keeps_intros db_pred_observe db_pred_WithLogger keeps_mux)

lemma db_pred_ledger_at: "db_pred (ledger_at Inv env win)"
  by (simp add: db_pred_def ledger_at_def)

context ledger_invariant
begin

lemma keeps_Routes:
  assumes env: "clock_mono env" "others_keep Inv env (ClaimWindow cfg)"
    and cfg: "InitialBalancePaise cfg = seed" "0 \<le> sint seed"
  shows "keeps (ledger_at Inv env (ClaimWindow cfg)) (Routes env henv x cfg ep r)"
proof -
  note err = db_pred_writeDomainError [OF db_pred_ledger_at]
  have t: "seedPaise (transfers_of cfg) = seed" "claimWindow (transfers_of cfg) = ClaimWindow cfg"
    "wsSeedPaise (wallets_of cfg) = seed"
    using cfg by (simp_all add: transfers_of_def wallets_of_def)
  have "keeps (ledger_at Inv env (ClaimWindow cfg)) (handle_Signup env x (auth_of cfg) r)"
    "keeps (ledger_at Inv env (ClaimWindow cfg)) (handle_Login env x (auth_of cfg) r)"
    unfolding handle_Signup_def handle_Login_def by (intro keeps_intros keeps_Signup keeps_Login err env)+
  moreover have "keeps (ledger_at Inv env (ClaimWindow cfg)) (handle_CreateAccount env x (wallets_of cfg) r)"
    "keeps (ledger_at Inv env (ClaimWindow cfg)) (handle_GetMyAccount env (wallets_of cfg) r)"
    unfolding handle_CreateAccount_def handle_GetMyAccount_def
    by (intro keeps_intros keeps_GetOrCreate [OF env t(3)] keeps_GetBalance err env)+
  moreover have "keeps (ledger_at Inv env (ClaimWindow cfg)) (handle_CreateTransfer env x (transfers_of cfg) r)"
    unfolding handle_CreateTransfer_def by (intro keeps_intros keeps_Execute [OF env t(1) cfg(2) t(2)] err)
  moreover have "keeps (ledger_at Inv env (ClaimWindow cfg)) (handle_GetTransfer env x r)"
    unfolding handle_GetTransfer_def by (intro keeps_intros keeps_GetByID err env)
  moreover have "keeps (ledger_at Inv env (ClaimWindow cfg)) (handle_Claim env x (transfers_of cfg) r)"
    unfolding handle_Claim_def by (intro keeps_intros keeps_ClaimBack [OF env t(2)] err)
  moreover have "keeps (ledger_at Inv env (ClaimWindow cfg)) (handle_Readyz env r)"
    unfolding handle_Readyz_def Ping_def by (intro keeps_intros keeps_read env) simp
  moreover have "keeps (ledger_at Inv env (ClaimWindow cfg)) (handle_Index r)"
    "keeps (ledger_at Inv env (ClaimWindow cfg)) (handle_Healthz r)"
    "keeps (ledger_at Inv env (ClaimWindow cfg)) (handle_Metrics henv r)"
    "keeps (ledger_at Inv env (ClaimWindow cfg)) (handle_Logs henv r)"
    unfolding handle_Index_def handle_Healthz_def handle_Metrics_def handle_Logs_def by (intro keeps_intros)+
  ultimately show ?thesis by (cases ep) (simp_all add: Routes_def)
qed

lemma keeps_NewHandler:
  assumes "clock_mono env" "others_keep Inv env (ClaimWindow cfg)" "InitialBalancePaise cfg = seed" "0 \<le> sint seed"
  shows "keeps (ledger_at Inv env (ClaimWindow cfg)) (NewHandler env henv x cfg r)"
  unfolding NewHandler_def
  by (intro keeps_NewRouter db_pred_ledger_at keeps_VerifyToken keeps_Routes assms)

lemma serve_all_ledger:
  assumes "clock_mono env" "others_keep Inv env (ClaimWindow cfg)" "InitialBalancePaise cfg = seed" "0 \<le> sint seed"
  shows "ledger_at Inv env (ClaimWindow cfg) w \<Longrightarrow> ledger_at Inv env (ClaimWindow cfg) (serve_all env henv x cfg rs w)"
proof (induction rs arbitrary: w)
  case Nil
  then show ?case by (simp add: serve_all_def)
next
  case (Cons r rs)
  then show ?case
    using keepsD [OF keeps_NewHandler [OF assms]] by (simp add: serve_all_def)
qed

end

section \<open>The invariant of the whole ledger\<close>

text \<open>Money is conserved and every balance covers the holds on it.\<close>

definition ledger_ok :: "int64 \<Rightarrow> pgtime \<Rightarrow> db \<Rightarrow> bool" where
  "ledger_ok seed c d \<longleftrightarrow> conserved seed d \<and> solvent c d"

lemma ledger_okI: "conserved seed d \<Longrightarrow> solvent c d \<Longrightarrow> ledger_ok seed c d"
  by (simp add: ledger_ok_def)

lemma ledger_okD: "ledger_ok seed c d \<Longrightarrow> conserved seed d" "ledger_ok seed c d \<Longrightarrow> solvent c d"
  by (simp_all add: ledger_ok_def)

interpretation ledger: ledger_invariant seed "ledger_ok seed" for seed :: int64
proof unfold_locales
  fix c d c' assume "transfers_ok d" "ledger_ok seed c d" "c \<le> c'"
  then show "ledger_ok seed c' d"
    by (intro ledger_okI) (auto dest: ledger_okD intro: solvency.inv_later)
next
  fix c d usr assume "ledger_ok seed c d"
  then show "ledger_ok seed c (apply_write (InsUser usr) d)"
    by (intro ledger_okI conserve.inv_new_user solvency.inv_new_user) (auto dest: ledger_okD)
next
  fix c d u now
  assume "ledger_ok seed c d" "schema_ok d" "parties_ok d" "\<not> has_wallet u d" "0 \<le> sint seed"
  then show "ledger_ok seed c (ensure_wallet seed now u d)"
    by (intro ledger_okI conserve.inv_new_wallet solvency.inv_new_wallet) (auto dest: ledger_okD)
next
  fix c d s r and amount :: int64 and bs br now fresh key hash
  assume a: "ledger_ok seed c d" "schema_ok d" "s \<noteq> r" "0 < sint amount"
    "balance_of s d = Some bs" "balance_of r d = Some br"
    "held_sum c s d \<le> sint bs - sint amount" "sint br + sint amount < 2 ^ 63"
  show "ledger_ok seed c (apply_writes
         [InsTransfer (transfer_row now fresh s r amount key hash (bs - amount)),
          SetBalance s (bs - amount) now, SetBalance r (br + amount) now] d)"
    using conserve.inv_transfer [OF ledger_okD(1) [OF a(1)] a(2-8)]
      solvency.inv_transfer [OF ledger_okD(2) [OF a(1)] a(2-8)] by (rule ledger_okI)
next
  fix c d t bs br now
  assume a: "ledger_ok seed c d" "schema_ok d" "t \<in> set (transfers d)" "active_hold c t" "transfer_ok d t"
    "balance_of (SenderID t) d = Some bs" "balance_of (RecipientID t) d = Some br"
    "sint (AmountPaise t) \<le> sint br" "sint bs + sint (AmountPaise t) < 2 ^ 63"
  show "ledger_ok seed c (apply_writes
         [SetReversed (trID t) now (bs + AmountPaise t),
          SetBalance (RecipientID t) (br - AmountPaise t) now,
          SetBalance (SenderID t) (bs + AmountPaise t) now] d)"
    using conserve.inv_claim [OF ledger_okD(1) [OF a(1)] a(2-9)]
      solvency.inv_claim [OF ledger_okD(2) [OF a(1)] a(2-9)] by (rule ledger_okI)
qed

end
