(* ===== verification/No_Panic.thy ===== *)
theory No_Panic
  imports App
begin

text \<open>
  No request ends in a panic: the two places where the code could panic are the dereferences
  of \<open>replayClaim\<close>, excluded by the ledger's rows (\<open>reversal_ok\<close>), and the slice of
  \<open>Ring.push\<close>, excluded by the bound the ring keeps. So the recovery middleware never
  answers with its 500.
\<close>

section \<open>The log ring\<close>

text \<open>The ring keeps its bound, so writing to it never panics.\<close>

lemma Write_last_n:
  "ring_max r = int m \<Longrightarrow> length (ring_lines r) \<le> m \<Longrightarrow>
   Write p r = Some (length p, r\<lparr>ring_lines := last_n m (ring_lines r @ lines_of [] p)\<rparr>)"
  by (simp add: Write_def write_loop_last_n)

text \<open>The records whose lines stdout took, from the \<open>n\<close>-th line on.\<close>

fun taken :: "(nat \<Rightarrow> bool) \<Rightarrow> nat \<Rightarrow> log_record list \<Rightarrow> log_record list" where
  "taken out n [] = []"
| "taken out n (l # ls) = (if out n then l # taken out (Suc n) ls else taken out (Suc n) ls)"

lemma logger_Handle_step:
  assumes "ring_max (Sink lg) = int m" "length (ring_lines (Sink lg)) \<le> m" "HandlerLevel lg = LevelInfo"
  shows "logger_Handle render l lg =
    Some (lg\<lparr>attempts := Suc (attempts lg),
      Sink := (if Stdout lg (attempts lg)
               then (Sink lg)\<lparr>ring_lines := last_n m (ring_lines (Sink lg) @ lines_of [] (render l))\<rparr> else Sink lg)\<rparr>)"
  using assms by (simp add: logger_Handle_def Let_def Write_last_n)

lemma logger_fold:
  assumes "ring_max (Sink lg) = int m" "length (ring_lines (Sink lg)) \<le> m" "HandlerLevel lg = LevelInfo"
  shows "map_option Sink (fold (\<lambda>l lg. Option.bind lg (logger_Handle render l)) ls (Some lg)) =
    Some ((Sink lg)\<lparr>ring_lines := last_n m (ring_lines (Sink lg) @ concat (map (lines_of [] \<circ> render)
      (taken (Stdout lg) (attempts lg) ls)))\<rparr>)"
  using assms
proof (induction ls arbitrary: lg)
  case Nil
  then show ?case by (simp add: last_n_def)
next
  case (Cons l ls)
  then show ?case
    using Cons.IH [of "lg\<lparr>attempts := Suc (attempts lg),
      Sink := (if Stdout lg (attempts lg)
               then (Sink lg)\<lparr>ring_lines := last_n m (ring_lines (Sink lg) @ lines_of [] (render l))\<rparr> else Sink lg)\<rparr>"]
    by (cases "Stdout lg (attempts lg)") (simp_all add: logger_Handle_step last_n_last_n_append o_def)
qed

text \<open>What the ring holds after any history of the log: the last lines that stdout took as well.\<close>

lemma ring_of_lines:
  "ring_of henv ls =
     Some \<lparr>ring_lines = last_n 1000 (concat (map (lines_of [] \<circ> slog_line henv) (taken (stdout_ok henv) 0 ls))),
           ring_max = 1000\<rparr>"
  using logger_fold [of "NewLogger (stdout_ok henv) (NewRing 1000)" 1000 "slog_line henv" ls]
  by (simp add: ring_of_def NewLogger_def NewRing_def)

lemma ring_of_Some: "\<exists>r. ring_of henv ls = Some r \<and> ring_max r = 1000 \<and> length (ring_lines r) \<le> 1000"
  by (simp add: ring_of_lines)

section \<open>Handlers that answer\<close>

text \<open>A handler that answers, and not with 500.\<close>

definition answers :: "(world \<Rightarrow> bool) \<Rightarrow> http_response option go \<Rightarrow> bool" where
  "answers P m \<longleftrightarrow> (\<forall>w. P w \<longrightarrow> (\<exists>resp. fst (run_state m w) = Some resp \<and> RespStatus resp \<noteq> 500))"

lemma decodeJSON_Inl_status: "decodeJSON st d = Inl resp \<Longrightarrow> RespStatus resp = 400"
  by (auto simp: decodeJSON_def split: sum.splits)

lemma answers_return: "RespStatus resp \<noteq> 500 \<Longrightarrow> answers P (State_Monad.return (Some resp))"
  by (simp add: answers_def)

lemma answers_domain_error: "answers P (do { resp \<leftarrow> writeDomainError err; State_Monad.return (Some resp) })"
proof -
  have "RespStatus (fst (run_state (writeDomainError err) w)) \<noteq> 500" for w
    using writeDomainError_status [of err w] by auto
  then show ?thesis by (simp add: answers_def split_beta)
qed

lemma answers_bind: "(\<And>a. answers (\<lambda>_. True) (f a)) \<Longrightarrow> answers P (State_Monad.bind m f)"
  by (simp add: answers_def split_beta)

lemma answers_case_sum:
  "(\<And>e. r = Inl e \<Longrightarrow> answers P (f e)) \<Longrightarrow> (\<And>a. r = Inr a \<Longrightarrow> answers P (g a)) \<Longrightarrow>
   answers P (case r of Inl e \<Rightarrow> f e | Inr a \<Rightarrow> g a)"
  by (cases r) simp_all

lemma answers_case_option:
  "(r = None \<Longrightarrow> answers P f) \<Longrightarrow> (\<And>a. r = Some a \<Longrightarrow> answers P (g a)) \<Longrightarrow>
   answers P (case r of None \<Rightarrow> f | Some a \<Rightarrow> g a)"
  by (cases r) simp_all

lemma answers_case_prod: "(\<And>a b. answers P (f a b)) \<Longrightarrow> answers P (case p of (a, b) \<Rightarrow> f a b)"
  by (cases p) simp

lemma answers_let: "(\<And>a. answers P (f a)) \<Longrightarrow> answers P (let a = v in f a)"
  by simp

lemmas answers_intros = answers_case_sum answers_case_option answers_case_prod answers_domain_error answers_return answers_bind

lemma answers_handlers:
  "answers P (handle_Signup env x a r)" "answers P (handle_Login env x a r)"
  "answers P (handle_CreateAccount env x ws r)" "answers P (handle_GetMyAccount env ws r)"
  "answers P (handle_CreateTransfer env x t r)" "answers P (handle_GetTransfer env x r)"
  "answers P (handle_Index r)" "answers P (handle_Healthz r)" "answers P (handle_Readyz env r)"
  "answers P (handle_Metrics henv r)"
  unfolding handle_Signup_def handle_Login_def handle_CreateAccount_def handle_GetMyAccount_def
      handle_CreateTransfer_def handle_GetTransfer_def handle_Index_def handle_Healthz_def handle_Readyz_def
      handle_Metrics_def Let_def
  by (intro answers_intros; simp add: decodeJSON_Inl_status split: sum.split)+

lemma answers_Logs: "answers P (handle_Logs henv r)"
  using ring_of_Some [of henv] by (fastforce simp: answers_def handle_Logs_def)

lemma answers_bind_keeps:
  "keeps P m \<Longrightarrow> (\<And>a. answers P (f a)) \<Longrightarrow> answers P (State_Monad.bind m f)"
  by (simp add: answers_def split_beta keeps_def)

lemma answers_bind_result:
  "(\<And>w. P w \<Longrightarrow> answers (\<lambda>_. True) (f (fst (run_state m w)))) \<Longrightarrow> answers P (State_Monad.bind m f)"
  by (simp add: answers_def split_beta)

section \<open>A claim never dereferences a missing column\<close>

lemma replayClaim_Some:
  "reversal_ok tr \<Longrightarrow> Status tr = TransferReversed \<Longrightarrow> fst (run_state (replayClaim tr) w) \<noteq> None"
  by (auto simp: replayClaim_def reversal_ok_def)

lemma ledger_db_row: "ledger_db Inv c d \<Longrightarrow> t \<in> set (transfers d) \<Longrightarrow> reversal_ok t"
  by (simp add: ledger_db_def parties_ok_def transfer_ok_def)

lemma resolveUnappliedClaim_Some:
  assumes "others_keep Inv env win" "ledger_at Inv env win w"
  shows "fst (run_state (resolveUnappliedClaim env i) w) \<noteq> None"
proof (cases "lookup_result (pg_link env (tick w)) (transfer_with_id i (seen env w))")
  case (Inl err)
  then show ?thesis by (simp add: resolveUnappliedClaim_def run_GetTransferByID)
next
  case (Inr tr)
  then have "reversal_ok tr"
    using seen_ledger [OF assms] ledger_db_row by (blast dest: lookup_result_InrD transfer_with_id_SomeD)
  then show ?thesis
    using Inr replayClaim_Some [of tr] by (auto simp: resolveUnappliedClaim_def run_GetTransferByID split_beta)
qed

context ledger_invariant
begin

lemma ClaimBack_Some:
  assumes env: "clock_mono env" "others_keep Inv env win" and win: "claimWindow t = win"
    and w: "ledger_at Inv env win w"
  shows "fst (run_state (ClaimBack env x t caller i) w) \<noteq> None"
proof (cases "lookup_result (pg_link env (tick w)) (transfer_with_id i (seen env w))")
  case (Inl err)
  then show ?thesis by (simp add: ClaimBack_def run_GetTransferByID)
next
  case (Inr tr)
  then have tr: "tr \<in> set (transfers (db (after_read env w)))"
    by (auto dest: lookup_result_InrD transfer_with_id_SomeD)
  then have "reversal_ok tr"
    using seen_ledger [OF env(2) w] ledger_db_row by auto
  moreover have "fst (run_state (claim_finish env tr res)
      (snd (run_state (WithTx env (claim_body x t tr)) (after_read env w)))) \<noteq> None" for res
    using resolveUnappliedClaim_Some [OF env(2) keeps_claim_tx [OF env win keeps_after_read [OF env w] tr]]
    by (simp add: claim_finish_def split: sum.split)
  ultimately show ?thesis
    using Inr replayClaim_Some [of tr] by (auto simp: ClaimBack_def run_GetTransferByID split_beta)
qed

lemma answers_Claim:
  assumes "clock_mono env" "others_keep Inv env win" "claimWindow t = win"
  shows "answers (ledger_at Inv env win) (handle_Claim env x t r)"
proof -
  have "answers (ledger_at Inv env win) (handle_Claim env x t r)" if "uuid_Parse x (PathID r) = Some i" for i
    unfolding handle_Claim_def that option.case
  proof (rule answers_bind_result)
    fix w assume "ledger_at Inv env win w"
    from ClaimBack_Some [OF assms this] obtain res
      where "fst (run_state (ClaimBack env x t (UserID r) i) w) = Some res" by blast
    then show "answers (\<lambda>_. True) (case fst (run_state (ClaimBack env x t (UserID r) i) w) of
        None \<Rightarrow> State_Monad.return None
      | Some (Inl err) \<Rightarrow> do { resp \<leftarrow> writeDomainError err; State_Monad.return (Some resp) }
      | Some (Inr result) \<Rightarrow>
          (let resp = writeJSON 200 (ClaimResponse (uuid_String x (cTransferID result)) ''reversed''
                 (cNewBalance result) (cReversedAt result)) in
           State_Monad.return (Some (if cReplayed result then add_header ''Idempotent-Replay'' ''true'' resp else resp))))"
      unfolding Let_def by (simp add: answers_domain_error answers_return split: sum.split)
  qed
  moreover have "answers (ledger_at Inv env win) (handle_Claim env x t r)" if "uuid_Parse x (PathID r) = None"
    unfolding handle_Claim_def that option.case by (rule answers_return) simp
  ultimately show ?thesis by (cases "uuid_Parse x (PathID r)") auto
qed

lemma answers_Routes:
  assumes "clock_mono env" "others_keep Inv env (ClaimWindow cfg)"
  shows "answers (ledger_at Inv env (ClaimWindow cfg)) (Routes env henv x cfg ep r)"
  using answers_Claim [OF assms, of "transfers_of cfg"]
  by (cases ep) (simp_all add: Routes_def answers_handlers answers_Logs transfers_of_def)

end

section \<open>Through the middleware\<close>

lemma answers_authFail: "answers P (do { resp \<leftarrow> authFail reason; State_Monad.return (Some resp) })"
  by (simp add: answers_def authFail_def)

lemma answers_WithLogger: "answers P m \<Longrightarrow> answers P (WithLogger attrs m)"
  by (simp add: answers_def)

lemma answers_authenticate:
  assumes "\<And>t. keeps P (verifier t)" "\<And>r. answers P (next r)"
  shows "answers P (authenticate verifier next r)"
  unfolding authenticate_def
  by (simp add: answers_authFail assms answers_bind_keeps answers_case_sum answers_WithLogger split: option.split)

lemma mux_answers:
  assumes "\<And>t. keeps P (verifier t)" "\<And>ep r. answers P (routes ep r)" "P w"
  shows "\<exists>resp. fst (fst (run_state (mux verifier routes r) w)) = Inr resp \<and> RespStatus resp \<noteq> 500"
proof -
  have sub: "\<exists>resp. fst (run_state (if rtAuthed rt then authenticate verifier (routes (rtEndpoint rt)) r'
      else routes (rtEndpoint rt) r') w) = Some resp \<and> RespStatus resp \<noteq> 500" for rt r'
    using answers_authenticate [of P verifier "routes (rtEndpoint rt)" r'] assms by (simp add: answers_def)
  show ?thesis
  proof (cases "find_route (Method r) (Path r)")
    case None
    then show ?thesis by (simp add: mux_def text_error_def add_header_def)
  next
    case (Some rt)
    obtain rte ids where rt: "rt = (rte, ids)" by (cases rt)
    from sub [of rte "r\<lparr>Pattern := rtPattern rte, PathID := (case ids of [] \<Rightarrow> [] | i # _ \<Rightarrow> i)\<rparr>"]
    obtain resp where "fst (run_state (if rtAuthed rte then authenticate verifier (routes (rtEndpoint rte))
        (r\<lparr>Pattern := rtPattern rte, PathID := (case ids of [] \<Rightarrow> [] | i # _ \<Rightarrow> i)\<rparr>)
      else routes (rtEndpoint rte) (r\<lparr>Pattern := rtPattern rte, PathID := (case ids of [] \<Rightarrow> [] | i # _ \<Rightarrow> i)\<rparr>)) w) = Some resp"
      "RespStatus resp \<noteq> 500" by blast
    then show ?thesis
      by (simp only: mux_def Some rt option.case prod.case Let_def) (simp add: served_of_def split_beta)
  qed
qed

lemma NewRouter_answers:
  assumes "\<And>t. keeps P (verifier t)" "\<And>ep r. answers P (routes ep r)" "P w"
  shows "RespStatus (fst (run_state (NewRouter henv verifier routes r) w)) \<noteq> 500"
proof -
  obtain resp where "fst (fst (run_state (mux verifier routes r) w)) = Inr resp" "RespStatus resp \<noteq> 500"
    using mux_answers [of P verifier routes w r, OF assms] by blast
  then show ?thesis
    by (simp add: NewRouter_def recovery_def requestID_def metrics_mw_def withTimeout_def Let_def split_beta)
qed

end
