(* ===== verification/Evolution.thy ===== *)
theory Evolution
  imports App
begin

text \<open>
  How the tables change over time: no row is ever deleted, no column of a transfer but its
  reversal is ever written, and a reversed transfer is final (\<open>db_evolves\<close>). This is what
  the ledger invariants assume of the other sessions (\<open>others_keep\<close>); here every request
  of the program itself is shown to guarantee it, whatever the connection does.
\<close>

section \<open>An order on tables\<close>

lemma same_columns_trans: "same_columns t u \<Longrightarrow> same_columns u v \<Longrightarrow> same_columns t v"
  by (simp add: same_columns_def)

lemma db_evolves_trans:
  assumes "db_evolves d d'" "db_evolves d' d''"
  shows "db_evolves d d''"
  unfolding db_evolves_def
proof (intro conjI ballI)
  fix t assume "t \<in> set (transfers d)"
  then obtain t' where t': "t' \<in> set (transfers d')" "same_columns t t'" "Status t = TransferReversed \<longrightarrow> t' = t"
    using assms(1) unfolding db_evolves_def by blast
  then obtain t'' where "t'' \<in> set (transfers d'')" "same_columns t' t''" "Status t' = TransferReversed \<longrightarrow> t'' = t'"
    using assms(2) unfolding db_evolves_def by blast
  with t' show "\<exists>t'' \<in> set (transfers d''). same_columns t t'' \<and> (Status t = TransferReversed \<longrightarrow> t'' = t)"
    by (intro bexI [of _ t'']) (auto intro: same_columns_trans)
qed (use assms in \<open>auto simp: db_evolves_def\<close>)

section \<open>Every statement moves forward in it\<close>

lemma db_evolvesI:
  "set (transfers d) \<subseteq> set (transfers d') \<Longrightarrow> set (users d) \<subseteq> set (users d') \<Longrightarrow>
   (\<And>u. has_wallet u d \<Longrightarrow> has_wallet u d') \<Longrightarrow> db_evolves d d'"
  unfolding db_evolves_def using same_columns_refl by blast

lemma db_evolves_write [simp]:
  "db_evolves d (apply_write (InsUser u) d)"
  "db_evolves d (apply_write (InsWallet wl) d)"
  "db_evolves d (apply_write (InsTransfer t) d)"
  "db_evolves d (apply_write (SetBalance v b now) d)"
  by (auto intro!: db_evolvesI)

lemma db_evolves_SetReversed:
  assumes "\<And>t. t \<in> set (transfers d) \<Longrightarrow> trID t = i \<Longrightarrow> Status t \<noteq> TransferReversed"
  shows "db_evolves d (apply_write (SetReversed i now b) d)"
  unfolding db_evolves_def
proof (intro conjI ballI)
  fix t assume t: "t \<in> set (transfers d)"
  show "\<exists>t' \<in> set (transfers (apply_write (SetReversed i now b) d)). same_columns t t' \<and>
      (Status t = TransferReversed \<longrightarrow> t' = t)"
  proof (cases "trID t = i")
    case True
    then show ?thesis
      using t assms by (intro bexI [of _ "set_reversed now b t"]) (auto simp: set_update_where same_columns_def)
  next
    case False
    then show ?thesis using t by (intro bexI [of _ t]) (auto simp: set_update_where)
  qed
qed auto

lemma active_hold_not_reversed: "active_hold c t \<Longrightarrow> Status t \<noteq> TransferReversed"
  by (simp add: active_hold_def TransferCompleted_def TransferReversed_def)

lemma evolves_mark_reversed:
  assumes "schema_ok d"
  shows "db_evolves d (apply_writes (snd (sql_mark_reversed now c i b d)) d)"
proof (cases "\<exists>t \<in> set (transfers d). trID t = i \<and> active_hold c t")
  case True
  then obtain t where t: "t \<in> set (transfers d)" "trID t = i" "active_hold c t" by blast
  have "transfers_ok d" using assms by (simp add: schema_ok_def)
  then have "Status t' \<noteq> TransferReversed" if "t' \<in> set (transfers d)" "trID t' = i" for t'
    using transfer_id_unique [of d t t'] t that active_hold_not_reversed by auto
  then have "db_evolves d (apply_write (SetReversed i now b) d)" by (rule db_evolves_SetReversed)
  with True show ?thesis by (simp add: sql_mark_reversed_def del: apply_write.simps)
next
  case False
  then show ?thesis by (simp only: sql_mark_reversed_def if_False snd_conv apply_writes_simps db_evolves_refl)
qed

lemma evolves_statements:
  "db_evolves d (apply_writes (snd (sql_insert_user now fresh name hash d)) d)"
  "db_evolves d (apply_writes (snd (sql_insert_wallet now u b d)) d)"
  "db_evolves d (apply_writes (snd (sql_insert_transfer now fresh t d)) d)"
  "db_evolves d (apply_writes (snd (sql_update_balance now u b d)) d)"
  by (simp_all add: sql_insert_user_def sql_insert_wallet_def sql_insert_transfer_def sql_update_balance_def Let_def
      del: apply_write.simps)

lemma evolves_deliver:
  "db_evolves d (apply_writes (snd res) d) \<Longrightarrow> db_evolves d (apply_writes (snd (deliver c res)) d)"
  by (simp add: snd_deliver split: outcome.split)

lemma evolves_Tx_methods:
  assumes "schema_ok d"
  shows
    "db_evolves d (apply_writes (snd (Tx_WalletExists c u d)) d)"
    "db_evolves d (apply_writes (snd (Tx_InsertWallet c now u b d)) d)"
    "db_evolves d (apply_writes (snd (Tx_LockWallet c u d)) d)"
    "db_evolves d (apply_writes (snd (Tx_InsertTransfer c now fresh t d)) d)"
    "db_evolves d (apply_writes (snd (Tx_SumActiveHolds c cu u d)) d)"
    "db_evolves d (apply_writes (snd (Tx_MarkReversed c now cu i b d)) d)"
    "db_evolves d (apply_writes (snd (Tx_UpdateWalletBalance c now u b d)) d)"
  using assms by (simp_all add: snd_Tx_methods evolves_deliver evolves_statements evolves_mark_reversed)

section \<open>So does every transaction and every request\<close>

definition grown :: "db \<Rightarrow> world \<Rightarrow> bool" where
  "grown d0 w \<longleftrightarrow> schema_ok (db w) \<and> db_evolves d0 (db w)"

lemma grownI: "schema_ok (db w) \<Longrightarrow> db_evolves d0 (db w) \<Longrightarrow> grown d0 w"
  by (simp add: grown_def)

lemma grown_tx_stmt:
  assumes "grown d0 w"
    and "\<And>c fresh d. schema_ok d \<Longrightarrow> schema_ok (apply_writes (snd (f c fresh d)) d)"
    and "\<And>c fresh d. schema_ok d \<Longrightarrow> db_evolves d (apply_writes (snd (f c fresh d)) d)"
  shows "grown d0 (snd (tx_stmt env f w))"
  using assms db_evolves_trans [of d0 "db w"] by (auto simp: grown_def tx_stmt_def split_beta)

lemma grown_exec_step:
  assumes "\<And>q w. q \<in> range k \<Longrightarrow> grown d0 w \<Longrightarrow> grown d0 (snd (exec_tx env now q w))"
    and "grown d0 (snd (tx_stmt env f w))"
  shows "grown d0 (snd (case tx_stmt env f w of (r, w') \<Rightarrow> exec_tx env now (k r) w'))"
  using assms by (simp add: split_beta)

lemma grown_exec_tx: "grown d0 w \<Longrightarrow> grown d0 (snd (exec_tx env now p w))"
proof (induction p arbitrary: w)
  case (TxReturn r)
  then show ?case by (simp add: exec_tx.simps)
next
  case (TxObserve m l p)
  then show ?case by (simp add: exec_tx.simps grown_def)
qed (simp only: exec_tx.simps, rule grown_exec_step, blast, rule grown_tx_stmt, assumption,
    erule schema_ok_Tx_methods, erule evolves_Tx_methods)+

definition others_evolve :: "pgenv \<Rightarrow> bool" where
  "others_evolve env \<longleftrightarrow> (\<forall>n d. schema_ok d \<longrightarrow> schema_ok (pg_others env n d) \<and> db_evolves d (pg_others env n d))"

lemma grown_seen: "others_evolve env \<Longrightarrow> grown d0 w \<Longrightarrow> schema_ok (seen env w) \<and> db_evolves d0 (seen env w)"
  using db_evolves_trans by (auto simp: others_evolve_def grown_def seen_def)

lemma grown_query:
  assumes env: "others_evolve env"
    and f: "\<And>now fresh d. schema_ok d \<Longrightarrow> schema_ok (apply_writes (snd (f now fresh d)) d)"
      "\<And>now fresh d. schema_ok d \<Longrightarrow> db_evolves d (apply_writes (snd (f now fresh d)) d)"
  shows "keeps (grown d0) (query env f)"
proof (rule keepsI)
  fix w assume w: "grown d0 w"
  note seen = grown_seen [OF env w]
  have "db_evolves (seen env w) (db (snd (run_state (query env f) w)))"
    using f(2) seen by (simp add: run_query seen_def evolves_deliver)
  then show "grown d0 (snd (run_state (query env f) w))"
    using seen by (auto intro: grownI schema_ok_query f(1) db_evolves_trans)
qed

lemma grown_read: "others_evolve env \<Longrightarrow> (\<And>now fresh d. snd (f now fresh d) = []) \<Longrightarrow> keeps (grown d0) (query env f)"
  by (rule grown_query) simp_all

lemma grown_WithTx:
  assumes env: "others_evolve env"
  shows "keeps (grown d0) (WithTx env fn)"
proof (rule keepsI)
  fix w assume "grown d0 w"
  then have seen: "grown d0 (after_read env w)" using grown_seen [OF env, of d0 w] by (simp add: grown_def)
  obtain r w' where run: "run_state (WithTx env fn) w = (r, w')" by force
  have "grown d0 (snd (exec_tx env (pg_clock env (tick w)) fn (after_read env w)))"
    by (rule grown_exec_tx [OF seen])
  with run seen have "grown d0 w'"
    by (cases rule: run_WithTx_cases) (auto simp: grown_def)
  then show "grown d0 (snd (run_state (WithTx env fn) w))" by (simp add: run)
qed

lemma grown_observe: "keeps (grown d0) (observe m ls)"
  by (rule keepsI) (simp add: grown_def)

lemma db_pred_grown: "db_pred (grown d0)"
  by (simp add: db_pred_def grown_def)

lemmas grown_intros = keeps_intros grown_observe grown_WithTx grown_read
  db_pred_writeDomainError [OF db_pred_grown]

lemma grown_issueToken: "keeps (grown d0) (issueToken env x a u)"
  by (rule keepsI) (simp add: issueToken_def Let_def)

lemma grown_VerifyToken: "keeps (grown d0) (VerifyToken env x a tok)"
  by (rule keepsI) (simp add: VerifyToken_def)

lemma grown_insert_user:
  "others_evolve env \<Longrightarrow> keeps (grown d0) (query env (\<lambda>now fresh. sql_insert_user now fresh name hash))"
  by (rule grown_query) (simp_all add: evolves_statements schema_ok_insert_user)

lemma grown_insert_wallet:
  "others_evolve env \<Longrightarrow> keeps (grown d0) (query env (\<lambda>now fresh. sql_insert_wallet now u b))"
  by (rule grown_query) (simp_all add: evolves_statements schema_ok_insert_wallet)

lemma grown_services:
  assumes "others_evolve env"
  shows "keeps (grown d0) (Signup env x a name pw)" "keeps (grown d0) (Login env x a name pw)"
    "keeps (grown d0) (GetOrCreate env ws u)" "keeps (grown d0) (GetBalance env ws u)"
    "keeps (grown d0) (Execute env x t u name amount key)" "keeps (grown d0) (GetByID env u i)"
    "keeps (grown d0) (ClaimBack env x t u i)" "keeps (grown d0) (Ping env)"
  unfolding Signup_def CreateUser_def Login_def GetUserByUsername_def GetOrCreate_def GetOrCreateWallet_def
    GetBalance_def GetWalletBalances_def Execute_def execute_finish_def resolveExistingKey_def
    GetTransferBySenderKey_def GetByID_def ClaimBack_def claim_finish_def resolveUnappliedClaim_def
    replayClaim_def GetTransferByID_def Ping_def
  by (intro grown_intros grown_issueToken grown_insert_user grown_insert_wallet assms; simp)+

lemma grown_Routes:
  assumes "others_evolve env"
  shows "keeps (grown d0) (Routes env henv x cfg ep r)"
  unfolding Routes_def handle_Signup_def handle_Login_def handle_CreateAccount_def handle_GetMyAccount_def
    handle_CreateTransfer_def handle_GetTransfer_def handle_Claim_def handle_Index_def handle_Healthz_def
    handle_Readyz_def handle_Metrics_def handle_Logs_def
  by (cases ep; simp only: endpoint.case; intro grown_intros grown_services assms)

lemma grown_NewHandler:
  "others_evolve env \<Longrightarrow> keeps (grown d0) (NewHandler env henv x cfg r)"
  unfolding NewHandler_def by (intro keeps_NewRouter db_pred_grown grown_VerifyToken grown_Routes)

lemma grown_serve_all:
  "others_evolve env \<Longrightarrow> grown d0 w \<Longrightarrow> grown d0 (serve_all env henv x cfg rs w)"
proof (induction rs arbitrary: w)
  case Nil
  then show ?case by (simp add: serve_all_def)
next
  case (Cons r rs)
  then show ?case
    using keepsD [OF grown_NewHandler] by (simp add: serve_all_def)
qed

end
