(* ===== verification/Transfer_Forward.thy ===== *)
theory Transfer_Forward
  imports Transfer_Effect
begin

text \<open>
  The bodies of \<open>Execute\<close> and \<open>ClaimBack\<close> on a connection that loses nothing: they
  return what the specifications \<open>transfer_spec\<close> and \<open>claim_spec\<close> return, errors
  included, and a successful run leaves the tables the specification gives. Together with
  \<open>Transfer_Effect\<close> (any connection, successful runs) this is the refinement in both
  directions.
\<close>

definition fault_free :: "pgenv \<Rightarrow> bool" where
  "fault_free env \<longleftrightarrow> (\<forall>n. pg_link env n = Fine)"

named_theorems fine_simps \<open>one statement on a connection that loses nothing\<close>

lemma fine_WalletExists [fine_simps]:
  "pg_link env (tick w) = Fine \<Longrightarrow>
   exec_tx env now (WalletExists u k) w = exec_tx env now (k (Inr (has_wallet u (db w)))) (advance [] w)"
  by (simp add: exec_tx.simps tx_stmt_def Tx_WalletExists_def deliver_def sql_wallet_exists_def advance_def)

lemma fine_InsertWallet [fine_simps]:
  "pg_link env (tick w) = Fine \<Longrightarrow>
   exec_tx env now (InsertWallet u b k) w =
     (case sql_insert_wallet now u b (db w) of
        (Inl e, ws) \<Rightarrow> exec_tx env now (k (Inl e)) (advance ws w)
      | (Inr n, ws) \<Rightarrow> exec_tx env now (k (Inr (n = 1))) (advance ws w))"
  by (simp add: exec_tx.simps tx_stmt_def Tx_InsertWallet_def deliver_def advance_def
      split: prod.split sum.split)

lemma fine_LockWallet [fine_simps]:
  "pg_link env (tick w) = Fine \<Longrightarrow>
   exec_tx env now (LockWallet u k) w =
     exec_tx env now (k (case balance_of u (db w) of None \<Rightarrow> Inl RepoErrNotFound | Some b \<Rightarrow> Inr b)) (advance [] w)"
  by (simp add: exec_tx.simps tx_stmt_def Tx_LockWallet_def deliver_def sql_balance_def row_result_def
      balance_of_def advance_def split: option.split)

lemma fine_SumActiveHolds [fine_simps]:
  "pg_link env (tick w) = Fine \<Longrightarrow>
   exec_tx env now (SumActiveHolds u win k) w =
     exec_tx env now (k (scan_int64 (held_sum (cutoff_at env now win) u (db w)))) (advance [] w)"
  by (simp add: exec_tx.simps tx_stmt_def Tx_SumActiveHolds_def deliver_def sql_sum_active_holds_def advance_def)

lemma fine_InsertTransfer [fine_simps]:
  "pg_link env (tick w) = Fine \<Longrightarrow>
   exec_tx env now (InsertTransfer t k) w =
     (case sql_insert_transfer now (pg_uuid env (tick w)) t (db w) of
        (Inl e, ws) \<Rightarrow> exec_tx env now (k (if e = PgxErrNoRows then Inr (0, False) else Inl e)) (advance [] w)
      | (Inr i, ws) \<Rightarrow> exec_tx env now (k (Inr (i, True))) (advance ws w))"
  by (auto simp: exec_tx.simps tx_stmt_def Tx_InsertTransfer_def deliver_def advance_def
      sql_insert_transfer_def split: prod.split sum.split)

lemma fine_MarkReversed [fine_simps]:
  "pg_link env (tick w) = Fine \<Longrightarrow>
   exec_tx env now (MarkReversed i win b k) w =
     (if \<exists>t \<in> set (transfers (db w)). trID t = i \<and> active_hold (cutoff_at env now win) t
      then exec_tx env now (k (Inr (now, True))) (advance [SetReversed i now b] w)
      else exec_tx env now (k (Inr (0, False))) (advance [] w))"
  by (simp add: exec_tx.simps tx_stmt_def Tx_MarkReversed_def deliver_def advance_def sql_mark_reversed_def)
    auto

lemma fine_UpdateWalletBalance [fine_simps]:
  "pg_link env (tick w) = Fine \<Longrightarrow>
   exec_tx env now (UpdateWalletBalance u b k) w =
     (if \<not> has_wallet u (db w) then exec_tx env now (k (Inr ())) (advance [] w)
      else if sint b < 0 then exec_tx env now (k (Inl check_violation)) (advance [] w)
      else exec_tx env now (k (Inr ())) (advance [SetBalance u b now] w))"
  by (simp add: exec_tx.simps tx_stmt_def Tx_UpdateWalletBalance_def deliver_def sql_update_balance_def advance_def)

lemma fine_TxObserve [fine_simps]:
  "exec_tx env now (TxObserve m l k) w = exec_tx env now k (w\<lparr>mets := m (mets w), logs := logs w @ [l]\<rparr>)"
  by (simp add: exec_tx.simps)

section \<open>The two loops\<close>

lemma fine_ensure_wallets:
  assumes "fault_free env" "schema_ok (db w)" "0 \<le> sint seed" "\<forall>u \<in> set ids. has_user u (db w)"
  obtains w1 where "exec_tx env now (ensure_wallets seed ids rest) w = exec_tx env now rest w1"
    "db w1 = fold (ensure_wallet seed now) ids (db w)" "mets w1 = mets w" "logs w1 = logs w"
proof -
  have "\<exists>w1. exec_tx env now (ensure_wallets seed ids rest) w = exec_tx env now rest w1 \<and>
      db w1 = fold (ensure_wallet seed now) ids (db w) \<and> mets w1 = mets w \<and> logs w1 = logs w"
    using assms(2-)
  proof (induction ids arbitrary: w)
    case Nil
    then show ?case by auto
  next
    case (Cons u ids)
    have fine: "pg_link env n = Fine" for n using assms(1) by (simp add: fault_free_def)
    show ?case
    proof (cases "has_wallet u (db w)")
      case True
      with Cons.IH [of "advance [] w"] Cons.prems show ?thesis
        by (simp add: fine_simps fine ensure_wallet_def)
    next
      case False
      let ?row = "InsWallet \<lparr>wUserID = u, BalancePaise = seed, wCreatedAt = now, wUpdatedAt = now\<rparr>"
      have ins: "sql_insert_wallet now u seed (db w) = (Inr 1, [?row])"
        using False Cons.prems by (simp add: sql_insert_wallet_def)
      then have "schema_ok (apply_write ?row (db w))"
        using schema_ok_insert_wallet [OF Cons.prems(1), of now u seed] by simp
      with Cons.IH [of "advance [?row] (advance [] w)"] Cons.prems False ins show ?thesis
        by (simp add: fine_simps fine ensure_wallet_def)
    qed
  qed
  then show ?thesis using that by blast
qed

lemma fine_lock_wallets:
  assumes "fault_free env" "\<forall>u \<in> set ids. has_wallet u (db w)"
  obtains w1 bals' where "exec_tx env now (lock_wallets ids bals rest) w = exec_tx env now (rest bals') w1"
    "\<And>u. u \<in> set ids \<Longrightarrow> balance_of u (db w) = Some (bals' u)"
    "db w1 = db w" "mets w1 = mets w" "logs w1 = logs w"
proof -
  have "\<exists>w1 bals'. exec_tx env now (lock_wallets ids bals rest) w = exec_tx env now (rest bals') w1 \<and>
      (\<forall>u. u \<in> set ids \<longrightarrow> balance_of u (db w) = Some (bals' u)) \<and>
      (\<forall>u. u \<notin> set ids \<longrightarrow> bals' u = bals u) \<and> db w1 = db w \<and> mets w1 = mets w \<and> logs w1 = logs w"
    using assms(2)
  proof (induction ids arbitrary: w bals)
    case Nil
    then show ?case by auto
  next
    case (Cons u ids)
    have fine: "pg_link env n = Fine" for n using assms(1) by (simp add: fault_free_def)
    obtain b where b: "balance_of u (db w) = Some b"
      using Cons.prems has_wallet_balance_of by fastforce
    have "\<forall>u \<in> set ids. has_wallet u (db (advance [] w))" using Cons.prems by simp
    from Cons.IH [OF this, of "bals(u := b)"] obtain w1 bals' where ih:
      "exec_tx env now (lock_wallets ids (bals(u := b)) rest) (advance [] w) = exec_tx env now (rest bals') w1"
      "\<forall>v. v \<in> set ids \<longrightarrow> balance_of v (db w) = Some (bals' v)"
      "\<forall>v. v \<notin> set ids \<longrightarrow> bals' v = (bals(u := b)) v" "db w1 = db w" "mets w1 = mets w" "logs w1 = logs w"
      unfolding advance_simps apply_writes_simps by blast
    have "balance_of u (db w) = Some (bals' u)"
      using ih(2,3) b by (cases "u \<in> set ids") auto
    moreover have "exec_tx env now (lock_wallets (u # ids) bals rest) w = exec_tx env now (rest bals') w1"
      using ih(1) b by (simp add: fine_simps fine)
    ultimately show ?case
      using ih(2-) by (intro exI [of _ w1] exI [of _ bals']) auto
  qed
  then show ?thesis using that by blast
qed

section \<open>Bodies that touch neither the counters nor the log\<close>

primrec silent :: "'a txp \<Rightarrow> bool" where
  "silent (TxReturn r) = True"
| "silent (WalletExists u k) = (\<forall>r. silent (k r))"
| "silent (InsertWallet u b k) = (\<forall>r. silent (k r))"
| "silent (LockWallet u k) = (\<forall>r. silent (k r))"
| "silent (InsertTransfer t k) = (\<forall>r. silent (k r))"
| "silent (SumActiveHolds u win k) = (\<forall>r. silent (k r))"
| "silent (MarkReversed i win b k) = (\<forall>r. silent (k r))"
| "silent (UpdateWalletBalance u b k) = (\<forall>r. silent (k r))"
| "silent (TxObserve m l k) = False"

lemma tx_stmt_obs [simp]:
  "mets (snd (tx_stmt env f w)) = mets w" "logs (snd (tx_stmt env f w)) = logs w"
  by (simp_all add: tx_stmt_def split_beta)

lemma silent_exec_tx:
  "silent p \<Longrightarrow> mets (snd (exec_tx env now p w)) = mets w \<and> logs (snd (exec_tx env now p w)) = logs w"
  by (induction p arbitrary: w) (simp_all add: exec_tx.simps split_beta)

lemma silent_orReturn: "(\<And>x. silent (k x)) \<Longrightarrow> silent (orReturn k r)"
  by (cases r) simp_all

lemma silent_lock_wallets: "(\<And>b. silent (rest b)) \<Longrightarrow> silent (lock_wallets ids bals rest)"
  by (induction ids arbitrary: bals) (simp_all add: silent_orReturn)

lemma silent_execute_move: "silent (execute_move t s r amount key hash bals)"
  by (auto simp: execute_move_def Let_def intro!: silent_orReturn)

lemma silent_claim_body: "silent (claim_body x t tr)"
  by (auto simp: claim_body_def claim_move_def Let_def intro!: silent_lock_wallets silent_orReturn)

section \<open>The bodies\<close>

lemma scan_int64_simps:
  "fits_int64 i \<Longrightarrow> scan_int64 i = Inr (word_of_int i)"
  "\<not> fits_int64 i \<Longrightarrow> scan_int64 i = Inl (OtherError ''numeric out of int64 range'')"
  by (simp_all add: scan_int64_def)

text \<open>The part under the locks, as one equation.\<close>

lemma fine_execute_move:
  fixes bals :: "uuid \<Rightarrow> int64" and t :: transfer_service and now :: pgtime
  assumes env: "fault_free env" and neq: "s \<noteq> r"
    and wal: "has_wallet s (db w)" "has_wallet r (db w)" and usr: "has_user s (db w)" "has_user r (db w)"
    and amt: "0 < sint amount" and bal: "0 \<le> sint (bals s)" "0 \<le> sint (bals r)"
  defines "held \<equiv> held_sum (cutoff_at env now (claimWindow t)) s (db w)"
    and "fresh \<equiv> pg_uuid env (Suc (tick w))"
  assumes held: "0 \<le> held"
  shows "fst (exec_tx env now (execute_move t s r amount key hash bals) w) =
     (if \<not> fits_int64 held then Inl (OtherError ''numeric out of int64 range'')
      else if (s, key) \<in> transfer_key ` set (transfers (db w)) then Inl ErrKeyExists
      else if fresh \<in> trID ` set (transfers (db w)) then Inl unique_violation
      else if sint (bals s) - sint amount < held then Inl ErrInsufficientFunds
      else if 2 ^ 63 \<le> sint (bals r) + sint amount then Inl check_violation
      else Inr \<lparr>TransferID = fresh, NewBalance = bals s - amount, Replayed = False\<rparr>)"
proof -
  have fine: "pg_link env n = Fine" for n using env by (simp add: fault_free_def)
  have sub: "sint (bals s - amount) = sint (bals s) - sint amount"
    using amt bal by (simp add: sint_int64_minus_exact)
  have add: "sint (bals r + amount) < 0 \<longleftrightarrow> 2 ^ 63 \<le> sint (bals r) + sint amount"
    using sint_int64_plus_nonneg_iff [of "bals r" amount] amt bal by auto
  have key: "transfer_key tr = (SenderID tr, IdempotencyKey tr)" for tr by (simp add: transfer_key_def)
  note defs = execute_move_def fine_simps fine scan_int64_simps Let_def sql_insert_transfer_def
    key int64_sless_iff sint_of_int_int64 new_transfer_row_def unique_violation_def held_def fresh_def
  show ?thesis
    using neq wal usr amt held sub add by (simp add: defs)
qed

text \<open>\<open>Execute\<close>'s closure returns what \<open>transfer_spec\<close> returns, on every branch.\<close>

theorem execute_body_fine:
  assumes env: "fault_free env" and ok: "schema_ok (db w)" and neq: "s \<noteq> r"
    and usr: "has_user s (db w)" "has_user r (db w)" and amt: "0 < sint amount" and seed: "0 \<le> sint (seedPaise t)"
  obtains n where
    "fst (exec_tx env now (execute_body x t s r amount key hash) w) =
       map_sum id fst (transfer_spec now (cutoff_at env now (claimWindow t)) (seedPaise t) (sort_ids x [s, r])
         (pg_uuid env n) s r amount key hash (db w))"
    "mets (snd (exec_tx env now (execute_body x t s r amount key hash) w)) = mets w"
    "logs (snd (exec_tx env now (execute_body x t s r amount key hash) w)) = logs w"
proof -
  let ?ids = "sort_ids x [s, r]" and ?held = "held_sum (cutoff_at env now (claimWindow t)) s (db w)"
  let ?d1 = "fold (ensure_wallet (seedPaise t) now) ?ids (db w)"
  have usr': "\<forall>u \<in> set ?ids. has_user u (db w)" using usr by simp
  have ok1: "schema_ok ?d1" using ok usr seed by (intro schema_ok_ensure_wallets) auto
  obtain w1 where run1: "exec_tx env now (execute_body x t s r amount key hash) w =
      exec_tx env now (lock_wallets ?ids (\<lambda>_. 0) (execute_move t s r amount key hash)) w1"
    and w1: "db w1 = ?d1" "mets w1 = mets w" "logs w1 = logs w"
    using fine_ensure_wallets [OF env ok seed usr', of now "lock_wallets ?ids (\<lambda>_. 0) (execute_move t s r amount key hash)"]
    unfolding execute_body_def Let_def by blast
  have "\<forall>u \<in> set ?ids. has_wallet u (db w1)" by (simp add: w1)
  from fine_lock_wallets [OF env this] obtain w2 bals
    where run2: "exec_tx env now (lock_wallets ?ids (\<lambda>_. 0) (execute_move t s r amount key hash)) w1 =
        exec_tx env now (execute_move t s r amount key hash bals) w2"
    and bal: "\<And>u. u \<in> set ?ids \<Longrightarrow> balance_of u ?d1 = Some (bals u)"
    and w2: "db w2 = ?d1" "mets w2 = mets w" "logs w2 = logs w"
    using w1 by metis
  have b: "balance_of s ?d1 = Some (bals s)" "balance_of r ?d1 = Some (bals r)"
    using bal by simp_all
  have nn: "0 \<le> sint (bals s)" "0 \<le> sint (bals r)"
    using ok1 b balance_of_nonneg by (auto simp: schema_ok_def)
  have wal: "has_wallet s (db w2)" "has_wallet r (db w2)" by (simp_all add: w2)
  have "has_user s (db w2)" "has_user r (db w2)" "0 \<le> held_sum (cutoff_at env now (claimWindow t)) s (db w2)"
    using usr ok held_sum_nonneg by (simp_all add: w2 schema_ok_def)
  note move = fine_execute_move [OF env neq wal this(1,2) amt nn this(3), of key hash]
  show ?thesis
  proof (rule that [of "Suc (tick w2)"])
    show "fst (exec_tx env now (execute_body x t s r amount key hash) w) =
       map_sum id fst (transfer_spec now (cutoff_at env now (claimWindow t)) (seedPaise t) ?ids
         (pg_uuid env (Suc (tick w2))) s r amount key hash (db w))"
      unfolding run1 run2 move by (simp add: transfer_spec_def Let_def b w2)
    show "mets (snd (exec_tx env now (execute_body x t s r amount key hash) w)) = mets w"
      "logs (snd (exec_tx env now (execute_body x t s r amount key hash) w)) = logs w"
      unfolding run1 run2 using silent_exec_tx [OF silent_execute_move] w2 by simp_all
  qed
qed

text \<open>\<open>ClaimBack\<close>'s closure returns what \<open>claim_spec\<close> returns.\<close>

theorem claim_body_fine:
  assumes env: "fault_free env" and ok: "schema_ok (db w)"
    and wal: "has_wallet (SenderID tr) (db w)" "has_wallet (RecipientID tr) (db w)"
    and amt: "0 < sint (AmountPaise tr)"
  shows "fst (exec_tx env now (claim_body x t tr) w) =
    map_sum id fst (claim_spec now (cutoff_at env now (claimWindow t)) tr (db w))"
proof -
  have fine: "pg_link env n = Fine" for n using env by (simp add: fault_free_def)
  let ?ids = "sort_ids x [SenderID tr, RecipientID tr]"
  have "\<forall>u \<in> set ?ids. has_wallet u (db w)" using wal by simp
  from fine_lock_wallets [OF env this] obtain w2 bals
    where run: "exec_tx env now (claim_body x t tr) w = exec_tx env now (claim_move t tr bals) w2"
    and bal: "\<And>u. u \<in> set ?ids \<Longrightarrow> balance_of u (db w) = Some (bals u)" and w2: "db w2 = db w"
    unfolding claim_body_def Let_def by metis
  have b: "balance_of (SenderID tr) (db w) = Some (bals (SenderID tr))"
    "balance_of (RecipientID tr) (db w) = Some (bals (RecipientID tr))"
    using bal by simp_all
  have nn: "0 \<le> sint (bals (SenderID tr))" "0 \<le> sint (bals (RecipientID tr))"
    using ok b balance_of_nonneg by (auto simp: schema_ok_def)
  have sub: "sint (bals (RecipientID tr) - AmountPaise tr) = sint (bals (RecipientID tr)) - sint (AmountPaise tr)"
    using amt nn by (simp add: sint_int64_minus_exact)
  have add: "sint (bals (SenderID tr) + AmountPaise tr) < 0 \<longleftrightarrow> 2 ^ 63 \<le> sint (bals (SenderID tr)) + sint (AmountPaise tr)"
    using sint_int64_plus_nonneg_iff [of "bals (SenderID tr)" "AmountPaise tr"] amt nn by auto
  show ?thesis
    unfolding run using wal sub add
    by (auto simp add: claim_move_def claim_spec_def Let_def fine_simps fine w2 b)
qed

end
