(* ===== verification/Transfer_Facts.thy ===== *)
theory Transfer_Facts
  imports Transfer_Service Transfer_Forward Ledger
begin

text \<open>
  What \<open>Execute\<close> and \<open>ClaimBack\<close> do as a whole: \<open>execute_abs\<close> and \<open>claim_abs\<close>
  say in one step which result a call returns and which tables it leaves, on every branch;
  on a connection that loses nothing the operations implement them exactly. On any
  connection a call either leaves the tables alone, or applies its specification once.
  Other sessions are quiet here; \<open>Linearizable\<close> and \<open>Concurrency\<close> treat them.
\<close>

definition quiet :: "pgenv \<Rightarrow> bool" where
  "quiet env \<longleftrightarrow> (\<forall>n d. pg_others env n d = d)"

lemma seen_quiet [simp]: "quiet env \<Longrightarrow> seen env w = db w"
  by (simp add: quiet_def seen_def)

lemma fault_free_link [simp]: "fault_free env \<Longrightarrow> pg_link env n = Fine"
  by (simp add: fault_free_def)

lemma lookup_result_simps [simp]:
  "lookup_result Fine None = Inl RepoErrNotFound"
  "lookup_result Fine (Some r) = Inr r"
  "lookup_result (LostBefore m) row = Inl (OtherError m)"
  "lookup_result (LostAfter m) row = Inl (OtherError m)"
  by (simp_all add: lookup_result_def)

section \<open>Rows found by key\<close>

lemma transfer_with_key_Some:
  "transfers_ok d \<Longrightarrow> transfer_with_key s k d = Some t \<longleftrightarrow>
     t \<in> set (transfers d) \<and> SenderID t = s \<and> IdempotencyKey t = k"
  using find_key_Some_iff [of transfer_key "transfers d" "(s, k)"]
  by (auto simp: transfers_ok_def transfer_with_key_def transfer_key_def)

lemma transfer_with_key_None: "transfer_with_key s k d = None \<longleftrightarrow> (s, k) \<notin> transfer_key ` set (transfers d)"
  by (auto simp: transfer_with_key_def find_None_iff transfer_key_def)

lemma transfer_with_id_Some:
  "transfers_ok d \<Longrightarrow> transfer_with_id i d = Some t \<longleftrightarrow> t \<in> set (transfers d) \<and> trID t = i"
  using find_key_Some_iff [of trID "transfers d" i] by (auto simp: transfers_ok_def transfer_with_id_def)

lemma user_named_has_user: "user_named name d = Some u \<Longrightarrow> has_user (uID u) d \<and> u \<in> set (users d)"
  by (auto simp: user_named_def has_user_def dest: find_SomeD)

section \<open>Execute as one step\<close>

definition replay_of :: "transfer \<Rightarrow> transfer_result" where
  "replay_of tr = \<lparr>TransferID = trID tr, NewBalance = SenderBalanceAfter tr, Replayed = True\<rparr>"

definition execute_settle ::
  "uuid \<Rightarrow> string \<Rightarrow> string \<Rightarrow> db \<Rightarrow> goerr + (transfer_result \<times> db) \<Rightarrow> (goerr + transfer_result) \<times> db" where
  "execute_settle s key h d res =
     (case res of
        Inr (result, d') \<Rightarrow> (Inr result, d')
      | Inl err \<Rightarrow>
          (if err = ErrKeyExists then
             (case transfer_with_key s key d of
                None \<Rightarrow> (Inl err, d)
              | Some old \<Rightarrow> (if BodyHash old \<noteq> h then (Inl ErrIdempotencyConflict, d) else (Inr (replay_of old), d)))
           else (Inl err, d)))"

definition execute_abs ::
  "extern \<Rightarrow> int64 \<Rightarrow> pgtime \<Rightarrow> pgtime \<Rightarrow> uuid \<Rightarrow> uuid \<Rightarrow> string \<Rightarrow> int64 \<Rightarrow> string \<Rightarrow> db
     \<Rightarrow> (goerr + transfer_result) \<times> db" where
  "execute_abs x seed now cutoff fresh s name amount key d =
     (if sint amount \<le> 0 then (Inl (Invalid ''amount_paise must be a positive integer''), d)
      else if key = [] \<or> length key > 128 then (Inl (Invalid ''idempotency_key is required (1-128 chars)''), d)
      else case user_named name d of
        None \<Rightarrow> (Inl ErrUnknownRecipient, d)
      | Some r \<Rightarrow>
          (if uID r = s then (Inl ErrSelfTransfer, d)
           else execute_settle s key (hashBody name amount) d
             (transfer_spec now cutoff seed (sort_ids x [s, uID r]) fresh s (uID r) amount key
                (hashBody name amount) d)))"

lemma transfer_spec_error:
  "transfer_spec now cutoff seed ids fresh s r amount key hash d = Inl err \<Longrightarrow>
   err \<in> {RepoErrNotFound, OtherError ''numeric out of int64 range'', ErrKeyExists, unique_violation,
     ErrInsufficientFunds, check_violation}"
  by (auto simp: transfer_spec_def Let_def split: option.splits if_splits)

lemma transfer_spec_key_exists:
  "transfer_spec now cutoff seed ids fresh s r amount key hash d = Inl ErrKeyExists \<Longrightarrow>
   (s, key) \<in> transfer_key ` set (transfers d)"
  by (auto simp: transfer_spec_def Let_def unique_violation_def check_violation_def split: option.splits if_splits)

text \<open>
  \<open>WithTx\<close> on a connection that loses nothing: the transaction runs on the tables that the other
  sessions have left at its \<open>BEGIN\<close>.
\<close>

lemma run_WithTx_fine:
  assumes "fault_free env"
    and "exec_tx env (pg_clock env (tick w)) fn (after_read env w) = (r, w1)"
  shows "run_state (WithTx env fn) w =
    (case r of Inl err \<Rightarrow> (Inl err, w1\<lparr>db := seen env w\<rparr>) | Inr a \<Rightarrow> (Inr a, w1\<lparr>tick := Suc (tick w1)\<rparr>))"
  using assms by (simp add: WithTx_def Let_def after_read_def seen_def split: sum.split)

lemma fine_execute_tx:
  assumes env: "fault_free env" and ok: "schema_ok (seen env w)" and neq: "s \<noteq> r"
    and usr: "has_user s (seen env w)" "has_user r (seen env w)" and amt: "0 < sint amount" and seed: "0 \<le> sint (seedPaise t)"
  obtains n w' where
    "run_state (WithTx env (execute_body x t s r amount key hash)) w =
      (case transfer_spec (pg_clock env (tick w)) (cutoff_at env (pg_clock env (tick w)) (claimWindow t))
         (seedPaise t) (sort_ids x [s, r]) (pg_uuid env n) s r amount key hash (seen env w) of
        Inl err \<Rightarrow> (Inl err, w'\<lparr>db := seen env w\<rparr>) | Inr (res, d') \<Rightarrow> (Inr res, w'\<lparr>db := d'\<rparr>))"
proof -
  let ?now = "pg_clock env (tick w)" and ?fn = "execute_body x t s r amount key hash"
  obtain res w1 where run: "exec_tx env ?now ?fn (after_read env w) = (res, w1)" by force
  show ?thesis
  proof (cases res)
    case (Inl err)
    obtain n where "res = map_sum id fst (transfer_spec ?now (cutoff_at env ?now (claimWindow t)) (seedPaise t)
        (sort_ids x [s, r]) (pg_uuid env n) s r amount key hash (seen env w))"
      using execute_body_fine [OF env, of "after_read env w" s r amount t ?now x key hash] run
        ok neq usr amt seed by (metis after_read_simps(1) fst_conv)
    then show ?thesis
      using that [where n = n and w' = w1] run_WithTx_fine [OF env run] Inl
      by (cases "transfer_spec ?now (cutoff_at env ?now (claimWindow t)) (seedPaise t)
        (sort_ids x [s, r]) (pg_uuid env n) s r amount key hash (seen env w)") auto
  next
    case (Inr a)
    show ?thesis
    proof (rule execute_body_ok [OF run [unfolded Inr] _ neq])
      fix n
      assume "transfer_spec ?now (cutoff_at env ?now (claimWindow t)) (seedPaise t) (sort_ids x [s, r]) (pg_uuid env n)
        s r amount key hash (db (after_read env w)) = Inr (a, db w1)"
      then show ?thesis
        using that [where n = n and w' = "w1\<lparr>tick := Suc (tick w1)\<rparr>"] run_WithTx_fine [OF env run] Inr by simp
    qed (use ok in simp)
  qed
qed

text \<open>The time of a transaction whose \<open>BEGIN\<close> is the second round trip of the call.\<close>

definition tx_time :: "pgenv \<Rightarrow> world \<Rightarrow> pgtime" where
  "tx_time env w = pg_clock env (Suc (tick w))"

lemma run_resolveExistingKey:
  assumes "fault_free env" "quiet env" "transfer_with_key s key (db w) = Some old"
  shows "fst (run_state (resolveExistingKey env s key h) w) =
      (if BodyHash old \<noteq> h then Inl ErrIdempotencyConflict else Inr (replay_of old))"
    and "db (snd (run_state (resolveExistingKey env s key h) w)) = db w"
  using assms by (simp_all add: resolveExistingKey_def run_simps replay_of_def)

lemma run_execute_finish:
  assumes env: "fault_free env" "quiet env"
    and spec: "transfer_spec now cutoff seed ids fresh s r amount key h d = res" and d: "db w = d"
  defines "w' \<equiv> (case res of Inl err \<Rightarrow> w | Inr (a, d') \<Rightarrow> w\<lparr>db := d'\<rparr>)"
  shows "fst (run_state (execute_finish env s r amount key h (map_sum id fst res)) w') = fst (execute_settle s key h d res)"
    and "db (snd (run_state (execute_finish env s r amount key h (map_sum id fst res)) w')) = snd (execute_settle s key h d res)"
proof -
  have "fst (run_state (execute_finish env s r amount key h (map_sum id fst res)) w') = fst (execute_settle s key h d res) \<and>
    db (snd (run_state (execute_finish env s r amount key h (map_sum id fst res)) w')) = snd (execute_settle s key h d res)"
  proof (cases res)
    case (Inr rd)
    then show ?thesis
      by (cases rd) (simp add: execute_finish_def execute_settle_def w'_def)
  next
    case (Inl err)
    show ?thesis
    proof (cases "err = ErrKeyExists")
      case True
      with Inl spec obtain old where "transfer_with_key s key (db w) = Some old"
        using transfer_with_key_None [of s key d] transfer_spec_key_exists d
        by (cases "transfer_with_key s key d") auto
      then show ?thesis
        using run_resolveExistingKey [OF env, of s key w old h] Inl True d
        by (simp add: execute_finish_def execute_settle_def w'_def)
    next
      case False
      with transfer_spec_error [OF spec [unfolded Inl]] have "\<not> errors_Is err ErrKeyExists"
        by (auto simp: unique_violation_def check_violation_def)
      then show ?thesis
        using Inl d False by (simp add: execute_finish_def execute_settle_def w'_def)
    qed
  qed
  then show "fst (run_state (execute_finish env s r amount key h (map_sum id fst res)) w') = fst (execute_settle s key h d res)"
    "db (snd (run_state (execute_finish env s r amount key h (map_sum id fst res)) w')) = snd (execute_settle s key h d res)"
    by simp_all
qed

text \<open>The calls that end before a transaction begins.\<close>

definition ends_early :: "uuid \<Rightarrow> string \<Rightarrow> int64 \<Rightarrow> string \<Rightarrow> db \<Rightarrow> bool" where
  "ends_early s name amount key d \<longleftrightarrow>
     sint amount \<le> 0 \<or> key = [] \<or> length key > 128 \<or> user_named name d = None \<or>
     (\<exists>r. user_named name d = Some r \<and> uID r = s)"

lemma Execute_early:
  assumes "fault_free env" "quiet env" "ends_early s name amount key (db w)"
  shows "fst (run_state (Execute env x t s name amount key) w) =
      fst (execute_abs x seed now cutoff fresh s name amount key (db w))"
    and "db (snd (run_state (Execute env x t s name amount key) w)) = db w"
    and "snd (execute_abs x seed now cutoff fresh s name amount key (db w)) = db w"
proof -
  consider "sint amount \<le> 0" | "0 < sint amount" "key = [] \<or> length key > 128"
    | "0 < sint amount" "key \<noteq> []" "length key \<le> 128" "user_named name (db w) = None"
    | r where "0 < sint amount" "key \<noteq> []" "length key \<le> 128" "user_named name (db w) = Some r" "uID r = s"
    using assms(3) unfolding ends_early_def by fastforce
  then have "fst (run_state (Execute env x t s name amount key) w) =
      fst (execute_abs x seed now cutoff fresh s name amount key (db w)) \<and>
    db (snd (run_state (Execute env x t s name amount key) w)) = db w \<and>
    snd (execute_abs x seed now cutoff fresh s name amount key (db w)) = db w"
    by cases (use assms in \<open>simp_all add: Execute_def execute_abs_def int64_sle_iff run_simps\<close>)
  then show "fst (run_state (Execute env x t s name amount key) w) =
      fst (execute_abs x seed now cutoff fresh s name amount key (db w))"
    "db (snd (run_state (Execute env x t s name amount key) w)) = db w"
    "snd (execute_abs x seed now cutoff fresh s name amount key (db w)) = db w"
    by simp_all
qed

lemma Execute_late:
  assumes "quiet env" "fault_free env" "\<not> ends_early s name amount key (db w)" "user_named name (db w) = Some r"
  shows "run_state (Execute env x t s name amount key) w =
    (case run_state (WithTx env (execute_body x t s (uID r) amount key (hashBody name amount))) (after_read env w) of
       (res, w1) \<Rightarrow> run_state (execute_finish env s (uID r) amount key (hashBody name amount) res) w1)"
  using assms by (auto simp: Execute_def ends_early_def int64_sle_iff run_simps Let_def)

lemma execute_abs_late:
  assumes "\<not> ends_early s name amount key d" "user_named name d = Some r"
  shows "execute_abs x seed now cutoff fresh s name amount key d =
    execute_settle s key (hashBody name amount) d
      (transfer_spec now cutoff seed (sort_ids x [s, uID r]) fresh s (uID r) amount key (hashBody name amount) d)"
  using assms by (auto simp: execute_abs_def ends_early_def)

lemma Execute_implements:
  assumes env: "fault_free env" "quiet env" and ok: "schema_ok (db w)" and usr: "has_user s (db w)"
    and seed: "0 \<le> sint (seedPaise t)"
  defines "now \<equiv> tx_time env w"
  obtains n where
    "fst (run_state (Execute env x t s name amount key) w) = fst (execute_abs x (seedPaise t) now
       (cutoff_at env now (claimWindow t)) (pg_uuid env n) s name amount key (db w))"
    "db (snd (run_state (Execute env x t s name amount key) w)) = snd (execute_abs x (seedPaise t) now
       (cutoff_at env now (claimWindow t)) (pg_uuid env n) s name amount key (db w))"
proof (cases "ends_early s name amount key (db w)")
  case True
  note early = Execute_early [OF env True]
  show ?thesis by (rule that [of 0]) (simp_all only: early)
next
  case False
  then obtain r where r: "user_named name (db w) = Some r" "uID r \<noteq> s" and amt: "0 < sint amount"
    by (auto simp: ends_early_def)
  let ?w1 = "after_read env w" and ?h = "hashBody name amount"
  have now: "pg_clock env (tick ?w1) = now" by (simp add: tx_time_def now_def)
  have pre: "schema_ok (db ?w1)" "s \<noteq> uID r" "has_user s (db ?w1)" "has_user (uID r) (db ?w1)"
    using ok usr env r user_named_has_user [OF r(1)] by auto
  have sn: "seen env ?w1 = db ?w1" using env by simp
  obtain n w' where tx: "run_state (WithTx env (execute_body x t s (uID r) amount key ?h)) ?w1 =
      (case transfer_spec now (cutoff_at env now (claimWindow t)) (seedPaise t) (sort_ids x [s, uID r])
         (pg_uuid env n) s (uID r) amount key ?h (db ?w1) of
        Inl err \<Rightarrow> (Inl err, w'\<lparr>db := db ?w1\<rparr>) | Inr (res, d') \<Rightarrow> (Inr res, w'\<lparr>db := d'\<rparr>))"
    using fine_execute_tx [OF env(1) pre [folded sn] amt seed, of x key ?h, unfolded sn now] by blast
  let ?spec = "transfer_spec now (cutoff_at env now (claimWindow t)) (seedPaise t) (sort_ids x [s, uID r])
         (pg_uuid env n) s (uID r) amount key ?h (db w)" and ?w2 = "w'\<lparr>db := db w\<rparr>"
  have tx: "run_state (WithTx env (execute_body x t s (uID r) amount key ?h)) ?w1 =
      (map_sum id fst ?spec, case ?spec of Inl err \<Rightarrow> ?w2 | Inr (a, d') \<Rightarrow> ?w2\<lparr>db := d'\<rparr>)"
    unfolding tx using env by (cases ?spec) auto
  have "db ?w2 = db w" by simp
  note finish = run_execute_finish [OF env refl this]
  show ?thesis
    by (rule that [of n]) (simp_all only: Execute_late [OF env(2,1) False r(1)] execute_abs_late [OF False r(1)] tx
        prod.case finish)
qed

lemma Execute_outcome:
  assumes env: "fault_free env" "quiet env" and ok: "schema_ok (db w)" and usr: "has_user s (db w)"
    and seed: "0 \<le> sint (seedPaise t)"
    and abs: "\<And>fresh. execute_abs x (seedPaise t) (tx_time env w) (cutoff_at env (tx_time env w) (claimWindow t))
      fresh s name amount key (db w) = (res, d)"
  shows "map_prod id db (run_state (Execute env x t s name amount key) w) = (res, d)"
  by (rule Execute_implements [OF assms(1-5), of x name amount key]) (simp add: abs prod_eq_iff)

section \<open>ClaimBack as one step\<close>

definition claim_replay_of :: "transfer \<Rightarrow> claim_result option" where
  "claim_replay_of tr =
     (case (SenderBalanceAfterReversal tr, ReversedAt tr) of
        (Some b, Some at) \<Rightarrow> Some \<lparr>cTransferID = trID tr, cNewBalance = b, cReversedAt = at, cReplayed = True\<rparr>
      | _ \<Rightarrow> None)"

definition claim_settle :: "db \<Rightarrow> goerr + (claim_result \<times> db) \<Rightarrow> (goerr + claim_result) option \<times> db" where
  "claim_settle d res =
     (case res of
        Inr (result, d') \<Rightarrow> (Some (Inr result), d')
      | Inl err \<Rightarrow> (Some (Inl (if err = ErrClaimNotApplied then ErrClaimWindowExpired else err)), d))"

definition claim_abs :: "pgtime \<Rightarrow> pgtime \<Rightarrow> uuid \<Rightarrow> uuid \<Rightarrow> db \<Rightarrow> (goerr + claim_result) option \<times> db" where
  "claim_abs now cutoff caller i d =
     (case transfer_with_id i d of
        None \<Rightarrow> (Some (Inl ErrNotFound), d)
      | Some tr \<Rightarrow>
          (if SenderID tr \<noteq> caller then (Some (Inl ErrNotFound), d)
           else if Status tr = TransferReversed then (map_option Inr (claim_replay_of tr), d)
           else claim_settle d (claim_spec now cutoff tr d)))"

lemma claim_spec_error:
  "claim_spec now cutoff tr d = Inl err \<Longrightarrow> err \<in> {RepoErrNotFound, ErrClaimNotApplied, check_violation}"
  by (auto simp: claim_spec_def split: option.splits if_splits)

lemma run_replayClaim [run_simps]:
  "run_state (replayClaim tr) w =
     (claim_replay_of tr, w\<lparr>mets := count_claim_replay (mets w),
        logs := logs w @ [log_info ''claim_replay'' [(''transfer_id'', AUuid (trID tr)), (''sender_id'', AUuid (SenderID tr))]]\<rparr>)"
  by (simp add: replayClaim_def claim_replay_of_def split: option.split)

lemma run_claim_finish:
  assumes env: "fault_free env" "quiet env" and row: "transfer_with_id (trID tr) (db w) = Some tr"
    and st: "Status tr \<noteq> TransferReversed" and spec: "claim_spec now cutoff tr (db w) = res"
  defines "w' \<equiv> (case res of Inl err \<Rightarrow> w | Inr (a, d') \<Rightarrow> w\<lparr>db := d'\<rparr>)"
  shows "fst (run_state (claim_finish env tr (map_sum id fst res)) w') = fst (claim_settle (db w) res) \<and>
    db (snd (run_state (claim_finish env tr (map_sum id fst res)) w')) = snd (claim_settle (db w) res)"
proof (cases res)
  case (Inr rd)
  then show ?thesis
    by (cases rd) (simp add: claim_finish_def claim_settle_def w'_def)
next
  case (Inl err)
  show ?thesis
  proof (cases "err = ErrClaimNotApplied")
    case True
    then show ?thesis
      using Inl env row st
      by (simp add: claim_finish_def claim_settle_def w'_def resolveUnappliedClaim_def run_simps)
  next
    case False
    with claim_spec_error [OF spec [unfolded Inl]] have "\<not> errors_Is err ErrClaimNotApplied"
      by (auto simp: check_violation_def)
    then show ?thesis
      using Inl False by (simp add: claim_finish_def claim_settle_def w'_def)
  qed
qed

lemma fine_claim_tx:
  fixes t :: transfer_service
  assumes env: "fault_free env" and ok: "schema_ok (seen env w)"
    and wal: "has_wallet (SenderID tr) (seen env w)" "has_wallet (RecipientID tr) (seen env w)" and amt: "0 < sint (AmountPaise tr)"
  defines "spec \<equiv> claim_spec (pg_clock env (tick w)) (cutoff_at env (pg_clock env (tick w)) (claimWindow t)) tr (seen env w)"
  obtains w' where
    "run_state (WithTx env (claim_body x t tr)) w =
      (map_sum id fst spec, case spec of Inl err \<Rightarrow> w'\<lparr>db := seen env w\<rparr> | Inr (res, d') \<Rightarrow> w'\<lparr>db := d'\<rparr>)"
proof -
  let ?now = "pg_clock env (tick w)" and ?fn = "claim_body x t tr"
  obtain res w1 where run: "exec_tx env ?now ?fn (after_read env w) = (res, w1)" by force
  have res: "res = map_sum id fst spec"
    using claim_body_fine [OF env, of "after_read env w" tr ?now x t] run ok wal amt
    by (simp add: spec_def)
  show ?thesis
  proof (cases res)
    case (Inl err)
    with res obtain err' where "spec = Inl err'" by (cases spec) auto
    then show ?thesis
      using that [of w1] run_WithTx_fine [OF env run] Inl res by simp
  next
    case (Inr a)
    show ?thesis
    proof (rule claim_body_ok [OF run [unfolded Inr] _ amt])
      assume "claim_spec ?now (cutoff_at env ?now (claimWindow t)) tr (db (after_read env w)) = Inr (a, db w1)"
      then have "spec = Inr (a, db w1)" by (simp add: spec_def)
      then show ?thesis
        using that [of "w1\<lparr>tick := Suc (tick w1)\<rparr>"] run_WithTx_fine [OF env run] Inr by simp
    qed (use ok in simp)
  qed
qed

lemma ClaimBack_implements:
  assumes env: "fault_free env" "quiet env" and ok: "schema_ok (db w)" "parties_ok (db w)"
  defines "now \<equiv> tx_time env w"
  shows "fst (run_state (ClaimBack env x t caller i) w) =
      fst (claim_abs now (cutoff_at env now (claimWindow t)) caller i (db w))"
    and "db (snd (run_state (ClaimBack env x t caller i) w)) =
      snd (claim_abs now (cutoff_at env now (claimWindow t)) caller i (db w))"
proof -
  have "fst (run_state (ClaimBack env x t caller i) w) =
      fst (claim_abs now (cutoff_at env now (claimWindow t)) caller i (db w)) \<and>
    db (snd (run_state (ClaimBack env x t caller i) w)) =
      snd (claim_abs now (cutoff_at env now (claimWindow t)) caller i (db w))"
  proof (cases "transfer_with_id i (db w)")
    case None
    then show ?thesis using env by (simp add: ClaimBack_def claim_abs_def run_simps)
  next
    case (Some tr)
    show ?thesis
    proof (cases "SenderID tr \<noteq> caller \<or> Status tr = TransferReversed")
      case True
      then show ?thesis using env Some by (auto simp: ClaimBack_def claim_abs_def run_simps)
    next
      case False
      let ?w1 = "after_read env w"
      have tok: "transfers_ok (db w)" using ok by (simp add: schema_ok_def)
      have tr: "tr \<in> set (transfers (db w))" "trID tr = i"
        using Some tok by (auto simp: transfer_with_id_Some)
      have pre: "schema_ok (db ?w1)" "has_wallet (SenderID tr) (db ?w1)" "has_wallet (RecipientID tr) (db ?w1)"
        "0 < sint (AmountPaise tr)"
        using ok tr env by (auto simp: parties_ok_def transfer_ok_def schema_ok_def transfers_ok_def)
      let ?spec = "claim_spec now (cutoff_at env now (claimWindow t)) tr (db w)"
      have now: "pg_clock env (tick ?w1) = now" by (simp add: now_def tx_time_def)
      have d1: "db ?w1 = db w" using env by simp
      have sn: "seen env ?w1 = db ?w1" using env by simp
      obtain w' where tx: "run_state (WithTx env (claim_body x t tr)) ?w1 =
          (map_sum id fst (claim_spec now (cutoff_at env now (claimWindow t)) tr (db ?w1)),
           case claim_spec now (cutoff_at env now (claimWindow t)) tr (db ?w1) of
             Inl err \<Rightarrow> w'\<lparr>db := db ?w1\<rparr> | Inr (res, d') \<Rightarrow> w'\<lparr>db := d'\<rparr>)"
        using fine_claim_tx [OF env(1) pre(1-3) [folded sn] pre(4), of x t, unfolded sn now] by blast
      let ?w2 = "w'\<lparr>db := db w\<rparr>"
      have tx: "run_state (WithTx env (claim_body x t tr)) ?w1 =
          (map_sum id fst ?spec, case ?spec of Inl err \<Rightarrow> ?w2 | Inr (a, d') \<Rightarrow> ?w2\<lparr>db := d'\<rparr>)"
        unfolding tx d1 by (cases ?spec) auto
      have "transfer_with_id (trID tr) (db (w'\<lparr>db := db w\<rparr>)) = Some tr" using Some tr by simp
      from run_claim_finish [OF env this _ refl, of now "cutoff_at env now (claimWindow t)"] False
      have finish: "fst (run_state (claim_finish env tr (map_sum id fst ?spec))
          (case ?spec of Inl err \<Rightarrow> ?w2 | Inr (a, d') \<Rightarrow> ?w2\<lparr>db := d'\<rparr>)) = fst (claim_settle (db w) ?spec)"
        "db (snd (run_state (claim_finish env tr (map_sum id fst ?spec))
          (case ?spec of Inl err \<Rightarrow> ?w2 | Inr (a, d') \<Rightarrow> ?w2\<lparr>db := d'\<rparr>))) = snd (claim_settle (db w) ?spec)"
        by simp_all
      have "run_state (ClaimBack env x t caller i) w =
          run_state (claim_finish env tr (fst (run_state (WithTx env (claim_body x t tr)) ?w1)))
            (snd (run_state (WithTx env (claim_body x t tr)) ?w1))"
        using False Some env by (simp add: ClaimBack_def run_simps split_beta)
      moreover have "claim_abs now (cutoff_at env now (claimWindow t)) caller i (db w) = claim_settle (db w) ?spec"
        using False Some by (simp add: claim_abs_def)
      ultimately show ?thesis
        unfolding tx by (simp only: fst_conv snd_conv finish)
    qed
  qed
  then show "fst (run_state (ClaimBack env x t caller i) w) =
      fst (claim_abs now (cutoff_at env now (claimWindow t)) caller i (db w))"
    "db (snd (run_state (ClaimBack env x t caller i) w)) =
      snd (claim_abs now (cutoff_at env now (claimWindow t)) caller i (db w))"
    by simp_all
qed

section \<open>Any connection: at most one application per call\<close>

definition lost_reply :: "goerr + 'a \<Rightarrow> bool" where
  "lost_reply r \<longleftrightarrow> (\<exists>m. r = Inl (Wrapped ''commit tx'' (OtherError m)))"

lemma lost_reply_not_key [simp]:
  "lost_reply r \<Longrightarrow> r = Inl e \<Longrightarrow> \<not> errors_Is e ErrKeyExists"
  "lost_reply r \<Longrightarrow> r = Inl e \<Longrightarrow> \<not> errors_Is e ErrInsufficientFunds"
  "lost_reply r \<Longrightarrow> r = Inl e \<Longrightarrow> \<not> errors_Is e ErrClaimNotApplied"
  by (auto simp: lost_reply_def)

lemma run_WithTx_quiet:
  assumes run: "run_state (WithTx env fn) w = (r, w')" and quiet: "quiet env"
  obtains (unchanged) err where "r = Inl err" "db w' = db w"
    | (applied) a w1 where "exec_tx env (pg_clock env (tick w)) fn (after_read env w) = (Inr a, w1)"
        "db w' = db w1" "r = Inr a \<or> lost_reply r"
  using run
proof (cases rule: run_WithTx_cases)
  case (rolled_back err)
  then show ?thesis using unchanged quiet by simp
next
  case committed
  then show ?thesis using applied by blast
next
  case commit_reply_lost
  then show ?thesis using applied by (auto simp: lost_reply_def)
qed

lemma resolveExistingKey_effect:
  assumes "quiet env"
  shows "db (snd (run_state (resolveExistingKey env s key h) w)) = db w"
    and "fst (run_state (resolveExistingKey env s key h) w) = Inr res \<Longrightarrow> Replayed res"
  using assms by (auto simp: resolveExistingKey_def run_simps run_state_if split: sum.splits if_splits)

lemma execute_finish_effect:
  assumes "quiet env"
  shows "db (snd (run_state (execute_finish env s r amount key h res) w)) = db w"
    and "fst (run_state (execute_finish env s r amount key h (Inl e)) w) = Inr result \<Longrightarrow> Replayed result"
    and "fst (run_state (execute_finish env s r amount key h (Inr result)) w) = Inr result"
    and "lost_reply res \<Longrightarrow> fst (run_state (execute_finish env s r amount key h res) w) = res"
  using assms resolveExistingKey_effect [OF assms]
  by (auto simp: execute_finish_def lost_reply_def split: sum.splits if_splits)

lemma Execute_effect:
  assumes run: "run_state (Execute env x t s name amount key) w = (r, w')"
    and quiet: "quiet env" and ok: "schema_ok (db w)"
  defines "now \<equiv> tx_time env w"
  obtains (unchanged) "db w' = db w" "\<And>res. r = Inr res \<Longrightarrow> Replayed res"
    | (applied) rcpt n res where "user_named name (db w) = Some rcpt" "uID rcpt \<noteq> s"
        "transfer_spec now (cutoff_at env now (claimWindow t)) (seedPaise t) (sort_ids x [s, uID rcpt])
           (pg_uuid env n) s (uID rcpt) amount key (hashBody name amount) (db w) = Inr (res, db w')"
        "\<not> ends_early s name amount key (db w)" "has_user s (db w)" "r = Inr res \<or> lost_reply r"
proof (cases "ends_early s name amount key (db w) \<or> pg_link env (tick w) \<noteq> Fine")
  case True
  then have "db w' = db w \<and> (\<forall>res. r = Inr res \<longrightarrow> Replayed res)"
    using run quiet
    by (auto simp: ends_early_def Execute_def int64_sle_iff run_simps lookup_result_def
        split: if_splits outcome.splits sum.splits option.splits)
  then show ?thesis using unchanged by blast
next
  case False
  then obtain rcpt where rcpt: "user_named name (db w) = Some rcpt" "uID rcpt \<noteq> s" and amt: "0 < sint amount"
    by (auto simp: ends_early_def)
  let ?h = "hashBody name amount"
  obtain res w1 where tx: "run_state (WithTx env (execute_body x t s (uID rcpt) amount key ?h)) (after_read env w) = (res, w1)"
    by force
  have fin: "run_state (execute_finish env s (uID rcpt) amount key ?h res) w1 = (r, w')"
    using run False rcpt quiet tx by (simp add: Execute_def ends_early_def int64_sle_iff run_simps Let_def)
  note eff = execute_finish_effect [OF quiet, where w = w1 and s = s and r = "uID rcpt" and amount = amount and key = key and h = ?h]
  from tx quiet show ?thesis
  proof (cases rule: run_WithTx_quiet)
    case (unchanged err)
    then show ?thesis using that(1) fin eff(1) [of res] eff(2) [of err] quiet by auto
  next
    case (applied a w2)
    have now: "pg_clock env (tick (after_read env w)) = now" by (simp add: now_def tx_time_def)
    have "schema_ok (db (after_read env (after_read env w)))" "s \<noteq> uID rcpt" using ok quiet rcpt by auto
    from execute_body_ok [OF applied(1) [unfolded now] this] obtain n where
      "transfer_spec now (cutoff_at env now (claimWindow t)) (seedPaise t) (sort_ids x [s, uID rcpt])
         (pg_uuid env n) s (uID rcpt) amount key ?h (db w) = Inr (a, db w2)" "has_user s (db w)"
      using quiet by auto
    moreover have "db w' = db w2" using eff(1) [of res] fin applied(2) by simp
    moreover have "r = Inr a \<or> lost_reply r"
      using applied(3) eff(3) [of a] eff(4) [of res] fin by auto
    ultimately show ?thesis using that(2) rcpt False by simp
  qed
qed

lemma claim_replay_of_Some:
  "reversal_ok tr \<Longrightarrow> Status tr = TransferReversed \<Longrightarrow> \<exists>res. claim_replay_of tr = Some res \<and> cReplayed res"
  by (auto simp: reversal_ok_def claim_replay_of_def)

lemma parties_ok_row: "parties_ok d \<Longrightarrow> transfer_with_id i d = Some tr \<Longrightarrow> transfer_ok d tr \<and> reversal_ok tr"
  by (auto simp: parties_ok_def transfer_ok_def dest: transfer_with_id_SomeD)

lemma resolveUnappliedClaim_effect:
  assumes "quiet env" "parties_ok (db w)"
  shows "db (snd (run_state (resolveUnappliedClaim env i) w)) = db w"
    and "fst (run_state (resolveUnappliedClaim env i) w) \<noteq> None"
    and "fst (run_state (resolveUnappliedClaim env i) w) = Some (Inr res) \<Longrightarrow> cReplayed res"
proof -
  have "db (snd (run_state (resolveUnappliedClaim env i) w)) = db w \<and>
    (\<exists>r. fst (run_state (resolveUnappliedClaim env i) w) = Some r \<and> (\<forall>res. r = Inr res \<longrightarrow> cReplayed res))"
  proof (cases "lookup_result (pg_link env (tick w)) (transfer_with_id i (db w))")
    case (Inl err)
    then show ?thesis using assms by (simp add: resolveUnappliedClaim_def run_simps)
  next
    case (Inr tr)
    then have "reversal_ok tr" using parties_ok_row [OF assms(2)] by (auto dest: lookup_result_InrD)
    then show ?thesis
      using claim_replay_of_Some [of tr] Inr assms
      by (auto simp: resolveUnappliedClaim_def run_simps run_state_if)
  qed
  then show "db (snd (run_state (resolveUnappliedClaim env i) w)) = db w"
    "fst (run_state (resolveUnappliedClaim env i) w) \<noteq> None"
    "fst (run_state (resolveUnappliedClaim env i) w) = Some (Inr res) \<Longrightarrow> cReplayed res"
    by auto
qed

lemma claim_finish_effect:
  assumes "quiet env" "parties_ok (db w)"
  shows "db (snd (run_state (claim_finish env tr res) w)) = db w"
    and "fst (run_state (claim_finish env tr res) w) \<noteq> None"
    and "fst (run_state (claim_finish env tr (Inl e)) w) = Some (Inr result) \<Longrightarrow> cReplayed result"
    and "fst (run_state (claim_finish env tr (Inr result)) w) = Some (Inr result)"
    and "lost_reply res \<Longrightarrow> fst (run_state (claim_finish env tr res) w) = Some res"
  using assms resolveUnappliedClaim_effect [OF assms]
  by (auto simp: claim_finish_def lost_reply_def split: sum.splits if_splits)

lemma ClaimBack_effect:
  assumes run: "run_state (ClaimBack env x t caller i) w = (r, w')"
    and quiet: "quiet env" and ok: "schema_ok (db w)" "parties_ok (db w)"
  defines "now \<equiv> tx_time env w"
  obtains (unchanged) "db w' = db w" "r \<noteq> None" "\<And>res. r = Some (Inr res) \<Longrightarrow> cReplayed res"
    | (applied) tr res where "transfer_with_id i (db w) = Some tr" "SenderID tr = caller" "Status tr \<noteq> TransferReversed"
        "claim_spec now (cutoff_at env now (claimWindow t)) tr (db w) = Inr (res, db w')"
        "r = Some (Inr res) \<or> (\<exists>e. r = Some e \<and> lost_reply e)"
proof (cases "\<exists>tr. lookup_result (pg_link env (tick w)) (transfer_with_id i (db w)) = Inr tr \<and>
    SenderID tr = caller \<and> Status tr \<noteq> TransferReversed")
  case False
  then have "db w' = db w \<and> (\<exists>e. r = Some e \<and> (\<forall>res. e = Inr res \<longrightarrow> cReplayed res))"
    using run quiet claim_replay_of_Some parties_ok_row [OF ok(2)]
    by (cases "lookup_result (pg_link env (tick w)) (transfer_with_id i (db w))")
      (fastforce simp: ClaimBack_def run_simps run_state_if dest: lookup_result_InrD split: if_splits)+
  then show ?thesis using unchanged by blast
next
  case True
  then obtain tr where tr: "lookup_result (pg_link env (tick w)) (transfer_with_id i (db w)) = Inr tr"
    "SenderID tr = caller" "Status tr \<noteq> TransferReversed" by blast
  then have row: "transfer_with_id i (db w) = Some tr" by (auto dest: lookup_result_InrD)
  then have "tr \<in> set (transfers (db w))" by (auto dest: transfer_with_id_SomeD)
  then have amt: "0 < sint (AmountPaise tr)" using ok by (simp add: schema_ok_def transfers_ok_def)
  obtain res w1 where tx: "run_state (WithTx env (claim_body x t tr)) (after_read env w) = (res, w1)" by force
  have fin: "run_state (claim_finish env tr res) w1 = (r, w')"
    using run tr quiet tx by (simp add: ClaimBack_def run_simps)
  from tx quiet show ?thesis
  proof (cases rule: run_WithTx_quiet)
    case (unchanged err)
    then have "parties_ok (db w1)" using ok quiet by simp
    note eff = claim_finish_effect [OF quiet this, where tr = tr]
    show ?thesis using that(1) fin eff(1) [of res] eff(2) [of res] eff(3) [of err] unchanged quiet by auto
  next
    case (applied a w2)
    have now: "pg_clock env (tick (after_read env w)) = now" by (simp add: now_def tx_time_def)
    have "schema_ok (db (after_read env (after_read env w)))" using ok quiet by simp
    from claim_body_ok [OF applied(1) [unfolded now] this amt]
    have spec: "claim_spec now (cutoff_at env now (claimWindow t)) tr (db w) = Inr (a, db w1)"
      using quiet applied(2) by auto
    have "parties_ok (db w1)"
      using parties.inv_claim_spec [OF spec ok(2,1,2) \<open>tr \<in> _\<close>]
      by (simp add: same_columns_def)
    note eff = claim_finish_effect [OF quiet this, where tr = tr]
    have "db w' = db w1" using eff(1) [of res] fin by simp
    moreover have "r = Some (Inr a) \<or> (\<exists>e. r = Some e \<and> lost_reply e)"
      using applied(3) eff(4) [of a] eff(5) [of res] fin by auto
    ultimately show ?thesis using that(2) row tr spec by simp
  qed
qed

section \<open>Funds\<close>

lemma held_sum_covers:
  assumes "transfers_ok d" "t \<in> set (transfers d)" "active_hold c t"
  shows "sint (AmountPaise t) \<le> held_sum c (RecipientID t) d"
  unfolding held_sum_def using assms
  by (intro value_le_sum [of t _ "\<lambda>t. sint (AmountPaise t)"]) (auto simp: transfers_ok_def less_imp_le)

lemma solvent_fits:
  assumes "schema_ok d" "parties_ok d" "solvent c d"
  shows "fits_int64 (held_sum c u d)"
proof (cases "balance_of u d")
  case None
  then show ?thesis using held_sum_no_wallet [OF assms(2)] by (simp add: balance_of_None_iff fits_int64_def)
next
  case (Some b)
  then have "held_sum c u d \<le> sint b" "0 \<le> held_sum c u d"
    using assms held_sum_nonneg by (auto simp: solvent_def schema_ok_def)
  then show ?thesis using sint_int64_range [of b] by (simp add: fits_int64_def)
qed

lemma two_balances_le_money:
  assumes "wallets_ok d" "u \<noteq> v" "balance_of u d = Some b" "balance_of v d = Some c"
  shows "sint b + sint c \<le> money d"
proof -
  have dist: "distinct (map wUserID (wallets d))" using assms(1) by (rule wallets_ok_distinct)
  obtain wu wv where "wu \<in> set (wallets d)" "wUserID wu = u" "BalancePaise wu = b"
    "wv \<in> set (wallets d)" "wUserID wv = v" "BalancePaise wv = c"
    using assms(3,4) by (auto simp: balance_of_Some_iff [OF dist])
  then show ?thesis
    using two_values_le_sum [of wu "wallets d" wv "\<lambda>w. sint (BalancePaise w)"] assms(1,2)
    by (auto simp: money_def wallets_ok_def)
qed

section \<open>A key that is already stored\<close>

lemma transfer_spec_used_key:
  assumes "fits_int64 (held_sum cutoff s d)" "(s, key) \<in> transfer_key ` set (transfers d)" "s \<in> set ids" "r \<in> set ids"
  shows "transfer_spec now cutoff seed ids fresh s r amount key h d = Inl ErrKeyExists"
proof -
  obtain bs br where "balance_of s (fold (ensure_wallet seed now) ids d) = Some bs"
    "balance_of r (fold (ensure_wallet seed now) ids d) = Some br"
    using assms(3,4) has_wallet_balance_of [of _ "fold (ensure_wallet seed now) ids d"] by force
  then show ?thesis using assms(1,2) by (simp add: transfer_spec_def Let_def)
qed

lemma execute_abs_used_key:
  assumes ok: "schema_ok d" and held: "fits_int64 (held_sum cutoff s d)"
    and old: "old \<in> set (transfers d)" "SenderID old = s" "IdempotencyKey old = key"
    and late: "\<not> ends_early s name amount key d"
  shows "execute_abs x seed now cutoff fresh s name amount key d =
    ((if BodyHash old \<noteq> hashBody name amount then Inl ErrIdempotencyConflict else Inr (replay_of old)), d)"
proof -
  obtain r where r: "user_named name d = Some r" using late by (auto simp: ends_early_def)
  have "transfer_with_key s key d = Some old"
    using ok old by (simp add: transfer_with_key_Some schema_ok_def)
  moreover have "(s, key) \<in> transfer_key ` set (transfers d)"
    using old by (force simp: transfer_key_def)
  ultimately show ?thesis
    using transfer_spec_used_key [OF held] r
    by (simp add: execute_abs_late [OF late r] execute_settle_def)
qed

text \<open>The row a transfer leaves, and what it leaves alone.\<close>

lemma transfer_spec_row:
  assumes "transfer_spec now cutoff seed ids fresh s r amount key h d = Inr (res, d')"
  obtains old where "old \<in> set (transfers d')" "SenderID old = s" "IdempotencyKey old = key" "BodyHash old = h"
    "replay_of old = res\<lparr>Replayed := True\<rparr>" "trID old \<notin> trID ` set (transfers d)"
    "users d' = users d" "RecipientID old = r" "AmountPaise old = amount" "d' \<noteq> d"
  using assms
proof (rule transfer_specE)
  fix bs br
  let ?row = "transfer_row now fresh s r amount key h (bs - amount)"
  assume a: "fresh \<notin> trID ` set (transfers d)" "res = \<lparr>TransferID = fresh, NewBalance = bs - amount, Replayed = False\<rparr>"
    "d' = apply_writes [InsTransfer ?row, SetBalance s (bs - amount) now, SetBalance r (br + amount) now]
       (fold (ensure_wallet seed now) ids d)"
  then have "?row \<in> set (transfers d')" by simp
  moreover have "d' \<noteq> d"
    using a(1) \<open>?row \<in> set (transfers d')\<close> by (force simp: transfer_row_def)
  ultimately show thesis
    using a by (intro that [of ?row]) (simp_all add: transfer_row_def replay_of_def)
qed

text \<open>Every operation of the transfer service keeps the constraints of the schema.\<close>

abbreviation keeps_schema :: "'a go \<Rightarrow> bool" where
  "keeps_schema \<equiv> keeps (\<lambda>w. schema_ok (db w))"

lemma keeps_schema_observe: "keeps_schema (observe m ls)"
  by (rule keepsI) simp

lemma keeps_schema_read: "quiet env \<Longrightarrow> (\<And>now fresh d. snd (f now fresh d) = []) \<Longrightarrow> keeps_schema (query env f)"
  by (rule keepsI) (simp add: run_read)

lemma keeps_schema_WithTx: "quiet env \<Longrightarrow> keeps_schema (WithTx env fn)"
  by (rule keepsI) (simp add: schema_ok_WithTx)

lemmas keeps_schema_intros = keeps_intros keeps_schema_observe keeps_schema_WithTx keeps_schema_read

lemma keeps_schema_Execute: "quiet env \<Longrightarrow> keeps_schema (Execute env x t s name amount key)"
  unfolding Execute_def execute_finish_def resolveExistingKey_def GetUserByUsername_def GetTransferBySenderKey_def
  by (intro keeps_schema_intros) auto

lemma keeps_schema_ClaimBack: "quiet env \<Longrightarrow> keeps_schema (ClaimBack env x t caller i)"
  unfolding ClaimBack_def claim_finish_def resolveUnappliedClaim_def replayClaim_def GetTransferByID_def
  by (intro keeps_schema_intros) auto

section \<open>A claim inside its window\<close>

lemma active_row_unique:
  "transfers_ok d \<Longrightarrow> transfer_with_id i d = Some tr \<Longrightarrow>
   (\<exists>t \<in> set (transfers d). trID t = trID tr \<and> active_hold c t) \<longleftrightarrow> active_hold c tr"
  using transfer_id_unique [of d] by (auto simp: transfer_with_id_Some)

text \<open>The money in the system bounds the sender's balance, the hold covers the recipient's.\<close>

lemma claim_spec_covered:
  assumes ok: "schema_ok d" "parties_ok d" "solvent c d" "money d < 2 ^ 63"
    and tr: "transfer_with_id i d = Some tr" "active_hold c tr"
  obtains bs br where "balance_of (SenderID tr) d = Some bs" "balance_of (RecipientID tr) d = Some br"
    "sint (bs + AmountPaise tr) = sint bs + sint (AmountPaise tr)"
    "sint (br - AmountPaise tr) = sint br - sint (AmountPaise tr)" "sint (AmountPaise tr) \<le> sint br"
    "claim_spec now c tr d = Inr (\<lparr>cTransferID = trID tr, cNewBalance = bs + AmountPaise tr, cReversedAt = now, cReplayed = False\<rparr>,
       apply_writes [SetReversed (trID tr) now (bs + AmountPaise tr),
         SetBalance (RecipientID tr) (br - AmountPaise tr) now, SetBalance (SenderID tr) (bs + AmountPaise tr) now] d)"
proof -
  have t: "transfers_ok d" "wallets_ok d" using ok by (simp_all add: schema_ok_def)
  have row: "tr \<in> set (transfers d)" "transfer_ok d tr"
    using tr ok(2) t by (auto simp: transfer_with_id_Some parties_ok_def)
  obtain bs br where b: "balance_of (SenderID tr) d = Some bs" "balance_of (RecipientID tr) d = Some br"
    using row(2) has_wallet_balance_of by (metis transfer_ok_def)
  have nn: "0 \<le> sint bs" "0 \<le> sint br" "0 < sint (AmountPaise tr)"
    using balance_of_nonneg [OF t(2)] b transfers_ok_amount [OF t(1) row(1)] by auto
  have "sint (AmountPaise tr) \<le> sint br"
    using held_sum_covers [OF t(1) row(1) tr(2)] ok(3) b(2) by (force simp: solvent_def)
  moreover have "sint bs + sint br < 2 ^ 63"
    using two_balances_le_money [OF t(2) _ b] row(2) ok(4) by (simp add: transfer_ok_def)
  moreover have "\<exists>t \<in> set (transfers d). trID t = trID tr \<and> active_hold c t" using row(1) tr(2) by blast
  ultimately show ?thesis
    using b nn by (intro that [of bs br]) (simp_all add: claim_spec_def sint_int64_plus_exact sint_int64_minus_exact)
qed

lemma claim_abs_applied:
  assumes "transfer_with_id i d = Some tr" "SenderID tr = caller" "Status tr \<noteq> TransferReversed"
  shows "claim_abs now c caller i d = claim_settle d (claim_spec now c tr d)"
  using assms by (simp add: claim_abs_def)

lemma parties_ok_claim_spec:
  assumes "claim_spec now c tr d = Inr (res, d')" "schema_ok d" "parties_ok d" "transfer_with_id i d = Some tr"
  shows "parties_ok d'"
proof -
  have "tr \<in> set (transfers d)" "same_columns tr tr"
    using transfer_with_id_SomeD [OF assms(4)] by (simp_all add: same_columns_def)
  with assms show ?thesis using parties.inv_claim_spec by blast
qed

text \<open>The row a claim leaves.\<close>

lemma claim_spec_row:
  assumes spec: "claim_spec now c tr d = Inr (res, d')" and ok: "transfers_ok d"
    and tr: "transfer_with_id i d = Some tr" and ok': "transfers_ok d'"
  shows "\<exists>tr'. transfer_with_id i d' = Some tr' \<and> same_columns tr' tr \<and> Status tr' = TransferReversed \<and>
      claim_replay_of tr' = Some (res\<lparr>cReplayed := True\<rparr>) \<and> d' \<noteq> d \<and> Status tr = TransferCompleted"
  using spec
proof (rule claim_specE)
  fix bs br t
  assume t: "t \<in> set (transfers d)" "trID t = trID tr" "active_hold c t"
    and res: "res = \<lparr>cTransferID = trID tr, cNewBalance = bs + AmountPaise tr, cReversedAt = now, cReplayed = False\<rparr>"
    and d': "d' = apply_writes [SetReversed (trID tr) now (bs + AmountPaise tr),
         SetBalance (RecipientID tr) (br - AmountPaise tr) now, SetBalance (SenderID tr) (bs + AmountPaise tr) now] d"
  have row: "tr \<in> set (transfers d)" "trID tr = i" using tr ok by (simp_all add: transfer_with_id_Some)
  have st: "Status tr = TransferCompleted"
    using t row transfer_id_unique [OF ok t(1) row(1)] by (simp add: active_hold_def)
  let ?tr = "set_reversed now (bs + AmountPaise tr) tr"
  have in': "?tr \<in> set (transfers d')" using row by (auto simp: d' set_update_where)
  then have "transfer_with_id i d' = Some ?tr"
    using row(2) by (simp add: transfer_with_id_Some [OF ok'])
  moreover have "d' \<noteq> d"
  proof
    assume "d' = d"
    then have "?tr = tr" using in' row transfer_id_unique [OF ok, of ?tr tr] by simp
    then show False using st by (metis set_reversed_simps(8) status_distinct(1))
  qed
  ultimately show ?thesis
    using res st by (simp add: same_columns_def claim_replay_of_def)
qed

lemma ClaimBack_outcome:
  assumes "fault_free env" "quiet env" "schema_ok (db w)" "parties_ok (db w)"
    "claim_abs (tx_time env w) (cutoff_at env (tx_time env w) (claimWindow t)) caller i (db w) = (res, d)"
  shows "map_prod id db (run_state (ClaimBack env x t caller i) w) = (res, d)"
  using ClaimBack_implements [OF assms(1-4), of x t caller i] assms(5) by (simp add: prod_eq_iff)

section \<open>Moving the money\<close>

text \<open>A user without a wallet is treated as having one with the seed balance.\<close>

definition wallet_balance :: "int64 \<Rightarrow> uuid \<Rightarrow> db \<Rightarrow> int64" where
  "wallet_balance seed u d = (case balance_of u d of None \<Rightarrow> seed | Some b \<Rightarrow> b)"

lemma balance_of_ensured:
  "u \<in> set ids \<Longrightarrow> balance_of u (fold (ensure_wallet seed now) ids d) = Some (wallet_balance seed u d)"
  using balance_of_None_iff [of u d]
  by (auto simp: balance_of_ensure_wallets wallet_balance_def split: option.split)

lemma wallet_balance_nonneg: "schema_ok d \<Longrightarrow> 0 \<le> sint seed \<Longrightarrow> 0 \<le> sint (wallet_balance seed u d)"
  by (auto simp: wallet_balance_def schema_ok_def dest: balance_of_nonneg split: option.split)

text \<open>The conditions under which only the funds and the recipient's balance decide.\<close>

definition fresh_request :: "pgenv \<Rightarrow> uuid \<Rightarrow> string \<Rightarrow> int64 \<Rightarrow> string \<Rightarrow> db \<Rightarrow> bool" where
  "fresh_request env s name amount key d \<longleftrightarrow>
     \<not> ends_early s name amount key d \<and> (s, key) \<notin> transfer_key ` set (transfers d) \<and>
     (\<forall>n. pg_uuid env n \<notin> trID ` set (transfers d))"

lemma transfer_spec_decided:
  assumes "(s, key) \<notin> transfer_key ` set (transfers d)" "fresh \<notin> trID ` set (transfers d)"
    "fits_int64 (held_sum c s d)" "s \<in> set ids" "r \<in> set ids"
  shows "transfer_spec now c seed ids fresh s r amount key h d =
    (let bs = wallet_balance seed s d; br = wallet_balance seed r d in
     if sint bs - sint amount < held_sum c s d then Inl ErrInsufficientFunds
     else if 2 ^ 63 \<le> sint br + sint amount then Inl check_violation
     else Inr (\<lparr>TransferID = fresh, NewBalance = bs - amount, Replayed = False\<rparr>,
       apply_writes
         [InsTransfer (transfer_row now fresh s r amount key h (bs - amount)),
          SetBalance s (bs - amount) now, SetBalance r (br + amount) now]
         (fold (ensure_wallet seed now) ids d)))"
  using assms by (simp add: transfer_spec_def balance_of_ensured Let_def)

lemma balances_after_transfer:
  assumes "s \<noteq> r" "set ids = {s, r}"
  shows "balance_of u (apply_writes [InsTransfer row, SetBalance s b now, SetBalance r b' now]
      (fold (ensure_wallet seed now) ids d)) = (if u = s then Some b else if u = r then Some b' else balance_of u d)"
  using assms by (simp add: balance_of_ensure_wallets)

lemma execute_abs_decided:
  assumes ok: "schema_ok d" "parties_ok d" "solvent c d" "fresh_request env s name amount key d"
    and r: "user_named name d = Some r"
  shows "execute_abs x seed now c (pg_uuid env n) s name amount key d =
    (let bs = wallet_balance seed s d; br = wallet_balance seed (uID r) d in
     if sint bs - sint amount < held_sum c s d then (Inl ErrInsufficientFunds, d)
     else if 2 ^ 63 \<le> sint br + sint amount then (Inl check_violation, d)
     else (Inr \<lparr>TransferID = pg_uuid env n, NewBalance = bs - amount, Replayed = False\<rparr>,
       apply_writes
         [InsTransfer (transfer_row now (pg_uuid env n) s (uID r) amount key (hashBody name amount) (bs - amount)),
          SetBalance s (bs - amount) now, SetBalance (uID r) (br + amount) now]
         (fold (ensure_wallet seed now) (sort_ids x [s, uID r]) d)))"
proof -
  have late: "\<not> ends_early s name amount key d" and unused: "(s, key) \<notin> transfer_key ` set (transfers d)"
    "pg_uuid env n \<notin> trID ` set (transfers d)"
    using ok(4) by (simp_all add: fresh_request_def)
  show ?thesis
    using execute_abs_late [OF late r] transfer_spec_decided [OF unused solvent_fits [OF ok(1-3)]]
    by (simp add: execute_settle_def Let_def check_violation_def)
qed

section \<open>A retry\<close>

text \<open>The retry runs in any later state \<open>w2\<close> of the process with the tables the first call left.\<close>

lemma Execute_retry:
  assumes first: "run_state (Execute env x t s name amount key) w = (r, w1)" "quiet env" "db w1 \<noteq> db w"
    and ok: "schema_ok (db w)" "parties_ok (db w)" "solvent (cutoff_at env (tx_time env w) (claimWindow t)) (db w)"
      "0 \<le> sint (seedPaise t)"
    and retry: "db w2 = db w1" "fault_free env2" "quiet env2"
      "cutoff_at env (tx_time env w) (claimWindow t) \<le> cutoff_at env2 (tx_time env2 w2) (claimWindow t)"
  shows "\<exists>rcpt n res. user_named name (db w) = Some rcpt \<and>
    transfer_spec (tx_time env w) (cutoff_at env (tx_time env w) (claimWindow t)) (seedPaise t)
      (sort_ids x [s, uID rcpt]) (pg_uuid env n) s (uID rcpt) amount key (hashBody name amount) (db w)
      = Inr (res, db w1) \<and> (r = Inr res \<or> lost_reply r) \<and>
    map_prod id db (run_state (Execute env2 x t s name amount key) w2) = (Inr (res\<lparr>Replayed := True\<rparr>), db w1)"
  using first(1,2) ok(1)
proof (rule Execute_effect)
  assume "db w1 = db w"
  with first(3) show ?thesis by simp
next
  let ?c = "cutoff_at env (tx_time env w) (claimWindow t)" and ?c2 = "cutoff_at env2 (tx_time env2 w2) (claimWindow t)"
  fix rcpt n res
  assume rcpt: "user_named name (db w) = Some rcpt" "uID rcpt \<noteq> s"
    and spec: "transfer_spec (tx_time env w) ?c (seedPaise t) (sort_ids x [s, uID rcpt]) (pg_uuid env n) s (uID rcpt)
      amount key (hashBody name amount) (db w) = Inr (res, db w1)"
    and late: "\<not> ends_early s name amount key (db w)" and s: "has_user s (db w)" and r: "r = Inr res \<or> lost_reply r"
  obtain old where old: "old \<in> set (transfers (db w1))" "SenderID old = s" "IdempotencyKey old = key"
    "BodyHash old = hashBody name amount" "replay_of old = res\<lparr>Replayed := True\<rparr>" and us: "users (db w1) = users (db w)"
    using transfer_spec_row [OF spec] by metis
  have late1: "\<not> ends_early s name amount key (db w1)" using late us by (simp add: ends_early_def user_named_def)
  have ok1: "schema_ok (db w1)" using keepsD [OF keeps_schema_Execute [OF first(2)] ok(1)] first(1) by (metis snd_conv)
  have usr: "\<forall>u \<in> set (sort_ids x [s, uID rcpt]). has_user u (db w)"
    using s user_named_has_user [OF rcpt(1)] by simp
  have amt: "0 < sint amount" using late by (simp add: ends_early_def)
  have "parties_ok (db w1)" "solvent ?c (db w1)"
    using parties.inv_transfer_spec [OF spec ok(2) ok(1,2) rcpt(2) [symmetric] amt ok(4) usr]
      solvency.inv_transfer_spec [OF spec ok(3) ok(1,2) rcpt(2) [symmetric] amt ok(4) usr] by simp_all
  moreover have "solvent ?c2 (db w1)"
    using solvency.inv_later [OF _ \<open>solvent ?c (db w1)\<close> retry(4)] ok1 by (simp add: schema_ok_def)
  ultimately have held: "fits_int64 (held_sum ?c2 s (db w1))" using ok1 by (intro solvent_fits)
  have s1: "has_user s (db w1)" using s us by (simp add: has_user_def)
  have "map_prod id db (run_state (Execute env2 x t s name amount key) w2) = (Inr (res\<lparr>Replayed := True\<rparr>), db w1)"
    unfolding retry(1) [symmetric]
    by (rule Execute_outcome [OF retry(2,3) ok1 [folded retry(1)] s1 [folded retry(1)] ok(4)])
      (simp add: retry(1) execute_abs_used_key [OF ok1 held old(1-3) late1] old(4,5))
  then show ?thesis using rcpt(1) spec r by blast
qed

end
