(* ===== verification/Requests.thy ===== *)
theory Requests
  imports No_Panic Evolution Transfer_Facts
begin

text \<open>
  One request through the whole chain, as an equation: the response of the matched handler with
  the request id added, and the counters of the metrics middleware. The label of those counters
  is the pattern in the middleware's own request object, which \<open>withTimeout\<close> has copied before
  the router writes the pattern.
\<close>

section \<open>Incoming requests\<close>

definition incoming :: "http_request \<Rightarrow> bool" where
  "incoming r \<longleftrightarrow> Pattern r = [] \<and> PathID r = [] \<and> CtxUserID r = None"

text \<open>The request as the router hands it to the handler, and the handler with its authentication.\<close>

definition routed :: "route \<Rightarrow> string list \<Rightarrow> http_request \<Rightarrow> http_request" where
  "routed rt ids r = r\<lparr>Pattern := rtPattern rt, PathID := (case ids of [] \<Rightarrow> [] | i # _ \<Rightarrow> i)\<rparr>"

definition route_handler ::
  "pgenv \<Rightarrow> http_env \<Rightarrow> extern \<Rightarrow> config \<Rightarrow> route \<Rightarrow> http_request \<Rightarrow> http_response option go" where
  "route_handler env henv x cfg rt =
     (if rtAuthed rt then authenticate (VerifyToken env x (auth_of cfg)) (Routes env henv x cfg (rtEndpoint rt))
      else Routes env henv x cfg (rtEndpoint rt))"

definition request_line :: "int \<Rightarrow> nat \<Rightarrow> log_record" where
  "request_line ms status = log_info ''request'' [(''status'', AInt (int status)), (''duration_ms'', AInt ms)]"

text \<open>
  The state after a request that found the state \<open>w\<close> and whose handler left \<open>w1\<close>: the request
  is counted, its line is logged, and all its lines carry the attributes of the request.
\<close>

definition counted :: "http_env \<Rightarrow> http_request \<Rightarrow> http_response \<Rightarrow> world \<Rightarrow> world \<Rightarrow> world" where
  "counted henv r resp w w1 = scoped (request_attrs (NewString henv (tick w)) r) w
     (w1\<lparr>mets := count_request ''unmatched'' (Method r) (RespStatus resp) (mets w1),
         logs := logs w1 @ [request_line (elapsed_ms henv (tick w) (tick w1)) (RespStatus resp)]\<rparr>)"

lemma counted_simps [simp]:
  "db (counted henv r resp w w1) = db w1" "tick (counted henv r resp w w1) = tick w1"
  "mets (counted henv r resp w w1) = count_request ''unmatched'' (Method r) (RespStatus resp) (mets w1)"
  by (simp_all add: counted_def)

lemma mux_route:
  assumes "cleanPath (Path r) = Path r" "find_route (Method r) (Path r) = Some (rt, ids)"
  shows "run_state (mux (VerifyToken env x (auth_of cfg)) (Routes env henv x cfg) r) w =
    (let (resp, w') = run_state (route_handler env henv x cfg rt (routed rt ids r)) w
     in ((served_of resp, routed rt ids r), w'))"
  by (simp add: mux_def assms route_handler_def routed_def Let_def split_beta)

text \<open>What the outer middlewares make of the answer of the router.\<close>

lemma run_NewHandler_served:
  assumes "Pattern r = []"
    and "run_state (mux (VerifyToken env x (auth_of cfg)) (Routes env henv x cfg) r) w = ((Inr resp, r'), w1)"
  shows "run_state (NewHandler env henv x cfg r) w =
    (add_header ''X-Request-Id'' (NewString henv (tick w)) resp, counted henv r resp w w1)"
proof -
  let ?mux = "mux (VerifyToken env x (auth_of cfg)) (Routes env henv x cfg)"
  have "run_state (withTimeout ?mux r) w = ((Inr resp, r), w1)"
    using assms(2) by (simp add: withTimeout_def)
  then have "run_state (metrics_mw henv (withTimeout ?mux) r) w = ((Inr resp, r),
      w1\<lparr>mets := count_request ''unmatched'' (Method r) (RespStatus resp) (mets w1),
         logs := logs w1 @ [request_line (elapsed_ms henv (tick w) (tick w1)) (RespStatus resp)]\<rparr>)"
    using assms(1) by (simp add: metrics_mw_def request_line_def)
  then have "run_state (requestID henv (metrics_mw henv (withTimeout ?mux)) r) w =
      ((Inr (add_header ''X-Request-Id'' (NewString henv (tick w)) resp), r), counted henv r resp w w1)"
    by (simp add: requestID_def Let_def counted_def)
  then show ?thesis
    by (simp add: NewHandler_def NewRouter_def recovery_def)
qed

lemma run_NewHandler_route:
  assumes "incoming r" "cleanPath (Path r) = Path r" "find_route (Method r) (Path r) = Some (rt, ids)"
    and "run_state (route_handler env henv x cfg rt (routed rt ids r)) w = (Some resp, w1)"
  shows "run_state (NewHandler env henv x cfg r) w =
    (add_header ''X-Request-Id'' (NewString henv (tick w)) resp, counted henv r resp w w1)"
  by (rule run_NewHandler_served)
    (use assms in \<open>simp_all add: mux_route served_of_def incoming_def\<close>)

section \<open>Authentication\<close>

lemma snd_VerifyToken [simp]: "snd (run_state (VerifyToken env x a tok) w) = w"
  by (simp add: VerifyToken_def)

lemma run_authFail:
  "run_state (authFail reason) w =
    (\<lparr>RespStatus = 401, RespHeaders = [(''Content-Type'', ''application/json'')],
      RespBody = BodyJSON (ErrorResponse reason ''unauthorized'')\<rparr>,
     w\<lparr>mets := count_auth_failure (mets w), logs := logs w @ [log_warn ''auth_failure'' [(''reason'', AText reason)]]\<rparr>)"
  by (simp add: authFail_def)

text \<open>The token of a request: \<open>None\<close> without a usable Authorization header.\<close>

definition bearer :: "http_request \<Rightarrow> string option" where
  "bearer r = (case cut_prefix ''Bearer '' (Authorization r) of
      None \<Rightarrow> None | Some token \<Rightarrow> if token = [] then None else Some token)"

definition caller_of :: "pgenv \<Rightarrow> extern \<Rightarrow> config \<Rightarrow> world \<Rightarrow> http_request \<Rightarrow> uuid option" where
  "caller_of env x cfg w r = (case bearer r of
      None \<Rightarrow> None
    | Some token \<Rightarrow> (case fst (run_state (VerifyToken env x (auth_of cfg) token) w) of
          Inl err \<Rightarrow> None | Inr u \<Rightarrow> Some u))"

lemma bearer_routed [simp]: "bearer (routed rt ids r) = bearer r"
  by (simp add: bearer_def routed_def)

lemma caller_routed [simp]: "caller_of env x cfg w (routed rt ids r) = caller_of env x cfg w r"
  by (simp add: caller_of_def)

lemma authenticate_caller:
  assumes "caller_of env x cfg w r = Some u"
  shows "run_state (authenticate (VerifyToken env x (auth_of cfg)) next r) w =
    run_state (WithLogger [(''user_id'', AUuid u)] (next (r\<lparr>CtxUserID := Some u\<rparr>))) w"
proof -
  obtain token where b: "bearer r = Some token" and v: "fst (run_state (VerifyToken env x (auth_of cfg) token) w) = Inr u"
    using assms by (auto simp: caller_of_def split: option.splits sum.splits)
  from b have "cut_prefix ''Bearer '' (Authorization r) = Some token" "token \<noteq> []"
    by (auto simp: bearer_def split: option.splits if_splits)
  with v show ?thesis by (simp add: authenticate_def withUserID_def split_beta)
qed

lemma authenticate_rejects:
  assumes "caller_of env x cfg w r = None"
  shows "\<exists>reason. run_state (authenticate (VerifyToken env x (auth_of cfg)) next r) w =
    map_prod Some id (run_state (authFail reason) w)"
proof (cases "bearer r")
  case None
  then have "run_state (authenticate (VerifyToken env x (auth_of cfg)) next r) w =
      map_prod Some id (run_state (authFail ''missing bearer token'') w)"
    by (auto simp: bearer_def authenticate_def split_beta map_prod_def split: option.splits if_splits)
  then show ?thesis by blast
next
  case (Some token)
  then have "cut_prefix ''Bearer '' (Authorization r) = Some token" "token \<noteq> []"
    by (auto simp: bearer_def split: option.splits if_splits)
  moreover obtain err where "fst (run_state (VerifyToken env x (auth_of cfg) token) w) = Inl err"
    using assms Some by (auto simp: caller_of_def split: sum.splits)
  ultimately have "run_state (authenticate (VerifyToken env x (auth_of cfg)) next r) w =
      map_prod Some id (run_state (authFail ''invalid or expired token'') w)"
    by (simp add: authenticate_def split_beta map_prod_def)
  then show ?thesis by blast
qed

end
