(* ===== verification/Telemetry.thy ===== *)
theory Telemetry
  imports Requests
begin

text \<open>
  What a request leaves in the counters and in the log besides its answer. The locale
  \<open>telemetry\<close> is what both have in common: a predicate of the process that the tables do not
  affect and that every emission of the handlers keeps. The counters of the metrics middleware,
  which no handler touches, and the log, which is only appended to, are its two instances.
\<close>

section \<open>What the handlers emit\<close>

text \<open>A transaction body whose log points change the counters in no other way than \<open>Q\<close> allows.\<close>

primrec observes :: "((metrics \<Rightarrow> metrics) \<Rightarrow> bool) \<Rightarrow> 'a txp \<Rightarrow> bool" where
  "observes Q (TxReturn r) = True"
| "observes Q (WalletExists u k) = (\<forall>r. observes Q (k r))"
| "observes Q (InsertWallet u b k) = (\<forall>r. observes Q (k r))"
| "observes Q (LockWallet u k) = (\<forall>r. observes Q (k r))"
| "observes Q (InsertTransfer t k) = (\<forall>r. observes Q (k r))"
| "observes Q (SumActiveHolds u win k) = (\<forall>r. observes Q (k r))"
| "observes Q (MarkReversed i win b k) = (\<forall>r. observes Q (k r))"
| "observes Q (UpdateWalletBalance u b k) = (\<forall>r. observes Q (k r))"
| "observes Q (TxObserve m l k) = (Q m \<and> observes Q k)"

lemma observes_orReturn: "(\<And>x. observes Q (k x)) \<Longrightarrow> observes Q (orReturn k r)"
  by (cases r) simp_all

lemma silent_observes: "silent p \<Longrightarrow> observes Q p"
  by (induction p) auto

lemma observes_ensure_wallets:
  "Q count_race_lost \<Longrightarrow> observes Q rest \<Longrightarrow> observes Q (ensure_wallets seed ids rest)"
  by (induction ids) (auto intro!: observes_orReturn)

lemma observes_execute_body: "Q count_race_lost \<Longrightarrow> observes Q (execute_body x t s r amount key hash)"
  unfolding execute_body_def Let_def
  by (intro observes_ensure_wallets silent_observes silent_lock_wallets silent_execute_move)

definition http_counters :: "metrics \<Rightarrow> (string \<times> string \<times> string \<Rightarrow> nat) \<times> (string \<Rightarrow> nat)" where
  "http_counters m = (HTTPRequests m, HTTPDuration m)"

definition spares_http :: "(metrics \<Rightarrow> metrics) \<Rightarrow> bool" where
  "spares_http m \<longleftrightarrow> (\<forall>x. http_counters (m x) = http_counters x)"

lemma spares_http_counters [simp]:
  "spares_http (\<lambda>m. m)" "spares_http count_race_lost" "spares_http count_wallet_race_lost"
  "spares_http (count_transfer_rejected reason)" "spares_http count_transfer_applied"
  "spares_http count_idempotent_replay" "spares_http count_claim_applied" "spares_http (count_claim_rejected reason)"
  "spares_http count_claim_replay" "spares_http count_auth_failure"
  by (simp_all add: spares_http_def http_counters_def count_race_lost_def count_wallet_race_lost_def
      count_transfer_rejected_def count_transfer_applied_def count_idempotent_replay_def count_claim_applied_def
      count_claim_rejected_def count_claim_replay_def count_auth_failure_def)

section \<open>Predicates of the counters and the log\<close>

locale telemetry =
  fixes P :: "world \<Rightarrow> bool"
  assumes emitted: "spares_http m \<Longrightarrow> P w \<Longrightarrow> P (w\<lparr>mets := m (mets w), logs := logs w @ ls\<rparr>)"
    and tables: "P w \<Longrightarrow> P (w\<lparr>db := d\<rparr>)"
    and ticks: "P w \<Longrightarrow> P (w\<lparr>tick := n\<rparr>)"
    and rescoped: "P w \<Longrightarrow> P w' \<Longrightarrow> P (scoped attrs w w')"
begin

lemma keeps_emit: "spares_http m \<Longrightarrow> keeps P (observe m ls)"
  by (rule keepsI) (simp add: emitted)

lemma keeps_scope: "keeps P m \<Longrightarrow> keeps P (WithLogger attrs m)"
  by (rule keepsI) (simp add: rescoped keepsD)

lemma keeps_query: "keeps P (query env f)"
  by (rule keepsI) (simp add: run_query tables ticks)

lemma statement_telemetry: "P w \<Longrightarrow> P (snd (tx_stmt env f w))"
  by (simp add: tx_stmt_def Let_def split_beta tables ticks)

lemma exec_tx_telemetry: "observes spares_http p \<Longrightarrow> P w \<Longrightarrow> P (snd (exec_tx env now p w))"
  by (induction p arbitrary: w) (simp_all add: exec_tx.simps split_beta emitted statement_telemetry)

lemma keeps_WithTx:
  assumes "observes spares_http fn"
  shows "keeps P (WithTx env fn)"
proof (rule keepsI)
  fix w assume "P w"
  then have "P (w\<lparr>db := d, tick := n\<rparr>)" for d n by (intro tables ticks)
  moreover from this have "P w1" if "exec_tx env now fn (w\<lparr>db := d, tick := n\<rparr>) = (r, w1)" for now d n r w1
    using exec_tx_telemetry [OF assms, of "w\<lparr>db := d, tick := n\<rparr>" env now] that by simp
  ultimately show "P (snd (run_state (WithTx env fn) w))"
    by (auto simp: WithTx_def Let_def split: outcome.split sum.split prod.split intro!: tables ticks)
qed

lemma keeps_error: "keeps P (writeDomainError err)"
  unfolding writeDomainError_def by (cases "domain_answer err") (auto intro!: keeps_intros keeps_emit)

lemmas emit_intros = keeps_intros keeps_emit keeps_query keeps_WithTx keeps_error
  observes_execute_body silent_observes silent_claim_body

lemma keeps_issueToken: "keeps P (issueToken env x a u)"
  by (rule keepsI) (simp add: issueToken_def Let_def)

lemma keeps_Routes: "keeps P (Routes env henv x cfg ep r)"
  unfolding Routes_def handle_Signup_def handle_Login_def handle_CreateAccount_def handle_GetMyAccount_def
    handle_CreateTransfer_def handle_GetTransfer_def handle_Claim_def handle_Index_def handle_Healthz_def
    handle_Readyz_def handle_Metrics_def handle_Logs_def
    Signup_def CreateUser_def Login_def GetUserByUsername_def GetOrCreate_def GetOrCreateWallet_def
    GetBalance_def GetWalletBalances_def Execute_def execute_finish_def resolveExistingKey_def
    GetTransferBySenderKey_def GetByID_def ClaimBack_def claim_finish_def resolveUnappliedClaim_def
    replayClaim_def GetTransferByID_def Ping_def
  by (cases ep; simp only: endpoint.case; intro emit_intros keeps_issueToken; simp)

lemma keeps_authenticated: "keeps P (authenticate (VerifyToken env x a) (Routes env henv x cfg ep) r)"
proof -
  have "keeps P (VerifyToken env x a tok)" for tok by (rule keepsI) simp
  moreover have "keeps P (authFail reason)" for reason
    unfolding authFail_def by (intro emit_intros) simp
  ultimately show ?thesis
    unfolding authenticate_def by (intro emit_intros keeps_Routes keeps_scope)
qed

lemma keeps_router: "keeps P (mux (VerifyToken env x a) (Routes env henv x cfg) r)"
  unfolding mux_def by (intro emit_intros keeps_authenticated keeps_Routes)

end

section \<open>The request counters\<close>

definition counters_at :: "(string \<times> string \<times> string \<Rightarrow> nat) \<times> (string \<Rightarrow> nat) \<Rightarrow> world \<Rightarrow> bool" where
  "counters_at h w \<longleftrightarrow> http_counters (mets w) = h"

interpretation counters: telemetry "counters_at h" for h
  by unfold_locales (simp_all add: counters_at_def spares_http_def)

lemma counters_mux:
  "http_counters (mets (snd (run_state (mux (VerifyToken env x (auth_of cfg)) (Routes env henv x cfg) r) w))) =
     http_counters (mets w)"
  using keepsD [OF counters.keeps_router, of "http_counters (mets w)" w] by (simp add: counters_at_def)

section \<open>The log\<close>

definition log_extends :: "log_record list \<Rightarrow> world \<Rightarrow> bool" where
  "log_extends L w \<longleftrightarrow> (\<exists>recs. logs w = L @ recs)"

interpretation appended: telemetry "log_extends L" for L
proof unfold_locales
  fix w w' attrs assume "log_extends L w" "log_extends L w'"
  then show "log_extends L (scoped attrs w w')" by (auto simp: log_extends_def)
qed (auto simp: log_extends_def)

lemma log_suffix:
  assumes "\<And>L. keeps (log_extends L) m"
  shows "\<exists>recs. logs (snd (run_state m w)) = logs w @ recs"
  using keepsD [OF assms, of "logs w" w] by (simp add: log_extends_def)

end
