(* ===== verification/Examples.thy ===== *)
theory Examples
  imports Transfer_Facts
begin

text \<open>
  Concrete inputs on which the properties are instantiated: two users, a transfer of 500
  paise from the first to the second, a connection that works, and connections that lose
  one reply.
\<close>

text \<open>Tokens that carry the claims in the clear: the two times and the subject.\<close>

definition ex_sign :: "jwt_claims \<Rightarrow> string \<Rightarrow> string option" where
  "ex_sign c k = Some (fmt_d (IssuedAt c) @ ''|'' @ fmt_d (ExpiresAt c) @ ''|'' @ Subject c)"

definition ex_int :: "string \<Rightarrow> int" where
  "ex_int s = (case s of [] \<Rightarrow> 0 | c # cs \<Rightarrow> if c = CHR ''-'' then - value10 0 cs else value10 0 s)"

definition ex_parse :: "string \<Rightarrow> gotime \<Rightarrow> string \<Rightarrow> jwt_claims option" where
  "ex_parse tok now k =
     (let no_bar = (\<lambda>c. c \<noteq> CHR ''|''); rest = tl (dropWhile no_bar tok);
          c = \<lparr>Subject = tl (dropWhile no_bar rest), IssuedAt = ex_int (takeWhile no_bar tok),
               ExpiresAt = ex_int (takeWhile no_bar rest)\<rparr>
      in if now < ExpiresAt c then Some c else None)"

definition ex_extern :: extern where
  "ex_extern =
     \<lparr>uuid_String = (\<lambda>u. fmt_d (uint u)), uuid_Parse = (\<lambda>s. Some (word_of_int (value10 0 s))),
      bcrypt_Generate = (\<lambda>pw salt. if length pw \<le> 72 then Some (''$2a$'' @ pw) else None),
      bcrypt_Compare = (\<lambda>h pw. h = ''$2a$'' @ pw),
      jwt_NewNumericDate = (\<lambda>t. t),
      jwt_SignedString = ex_sign, jwt_ParseWithClaims = ex_parse,
      jwt_GetSubject = (\<lambda>c. Some (Subject c))\<rparr>"

definition ex_env :: pgenv where
  "ex_env =
     \<lparr>pg_link = (\<lambda>n. Fine), pg_clock = int, pg_uuid = (\<lambda>n. 1000 + of_nat n), pg_others = (\<lambda>n d. d),
      pg_interval = (\<lambda>d. d div 1000), go_clock = int\<rparr>"

definition ex_service :: transfer_service where
  "ex_service = \<lparr>seedPaise = 100000, claimWindow = 86400000000000\<rparr>"

text \<open>A claim window of two microseconds.\<close>

definition ex_service_short :: transfer_service where
  "ex_service_short = \<lparr>seedPaise = 100000, claimWindow = 2000\<rparr>"

definition ex_users :: "user list" where
  "ex_users =
     [\<lparr>uID = 1, Username = ''alice'', PasswordHash = ''$2a$password1'', uCreatedAt = -9\<rparr>,
      \<lparr>uID = 2, Username = ''bob'', PasswordHash = ''$2a$password2'', uCreatedAt = -8\<rparr>]"

definition ex_transfer :: transfer where
  "ex_transfer =
     \<lparr>trID = 7, SenderID = 1, RecipientID = 2, AmountPaise = 500, IdempotencyKey = ''k1'',
      BodyHash = hashBody ''bob'' 500, SenderBalanceAfter = 99500, Status = TransferCompleted,
      trCreatedAt = -5, ReversedAt = None, SenderBalanceAfterReversal = None\<rparr>"

definition ex_db0 :: db where
  "ex_db0 = \<lparr>users = ex_users, wallets = [], transfers = []\<rparr>"

definition ex_db1 :: db where
  "ex_db1 =
     \<lparr>users = ex_users,
      wallets = [\<lparr>wUserID = 1, BalancePaise = 99500, wCreatedAt = -5, wUpdatedAt = -5\<rparr>,
                 \<lparr>wUserID = 2, BalancePaise = 100500, wCreatedAt = -5, wUpdatedAt = -5\<rparr>],
      transfers = [ex_transfer]\<rparr>"

definition ex_world :: "db \<Rightarrow> world" where
  "ex_world d = \<lparr>db = d, tick = 0, mets = NewMetrics, logs = []\<rparr>"

lemma ex_world_simps [simp]:
  "db (ex_world d) = d" "tick (ex_world d) = 0" "mets (ex_world d) = NewMetrics" "logs (ex_world d) = []"
  by (simp_all add: ex_world_def)

lemma ex_env_ok [simp]: "fault_free ex_env" "quiet ex_env"
  by (simp_all add: ex_env_def fault_free_def quiet_def)

lemma ex_uuid_ok: "uuid_ok ex_extern"
proof -
  have "value10 0 (fmt_d (uint u)) = uint u" for u :: uuid
    by (simp add: fmt_d_def value10_digits10)
  then show ?thesis by (simp add: uuid_ok_def ex_extern_def)
qed

lemma ex_int_fmt_d: "ex_int (fmt_d i) = i"
proof (cases "i < 0")
  case True
  then show ?thesis by (simp add: ex_int_def fmt_d_def value10_digits10)
next
  case False
  then have "fmt_d i = digits10 (nat i)" by (simp add: fmt_d_def)
  moreover obtain c cs where d: "digits10 (nat i) = c # cs" using digits10_not_Nil by (metis neq_Nil_conv)
  moreover have "c \<noteq> CHR ''-''" using digits10_hd_digit [OF d] is_digit_not_special by blast
  moreover have "value10 0 (c # cs) = i" using value10_digits10 [of "nat i"] d False by simp
  ultimately show ?thesis by (simp add: ex_int_def)
qed

lemma ex_parse_sign:
  "ex_parse (fmt_d i @ CHR ''|'' # fmt_d e @ CHR ''|'' # sub) now k =
     (if now < e then Some \<lparr>Subject = sub, IssuedAt = i, ExpiresAt = e\<rparr> else None)"
proof -
  have "takeWhile (\<lambda>c. c \<noteq> CHR ''|'') (fmt_d j @ CHR ''|'' # s) = fmt_d j"
    "dropWhile (\<lambda>c. c \<noteq> CHR ''|'') (fmt_d j @ CHR ''|'' # s) = CHR ''|'' # s" for j s
  proof -
    have "\<forall>c \<in> set (fmt_d j). c \<noteq> CHR ''|''" using fmt_d_no_bar by metis
    then show "takeWhile (\<lambda>c. c \<noteq> CHR ''|'') (fmt_d j @ CHR ''|'' # s) = fmt_d j"
      "dropWhile (\<lambda>c. c \<noteq> CHR ''|'') (fmt_d j @ CHR ''|'' # s) = CHR ''|'' # s"
      by (simp_all add: takeWhile_append2 dropWhile_append2)
  qed
  then show ?thesis by (simp add: ex_parse_def Let_def ex_int_fmt_d)
qed

lemma ex_jwt_ok: "jwt_ok ex_extern"
  unfolding jwt_ok_def
proof (intro conjI allI impI)
  fix tok now k c
  assume "jwt_ParseWithClaims ex_extern tok now k = Some c"
  then show "now < ExpiresAt c" by (auto simp: ex_extern_def ex_parse_def Let_def split: if_splits)
qed (simp_all add: ex_extern_def ex_sign_def ex_parse_sign)

lemma ex_bcrypt_ok: "bcrypt_ok ex_extern"
  by (simp add: bcrypt_ok_def ex_extern_def)

lemma ex_service_simps [simp]:
  "seedPaise ex_service = 100000" "claimWindow ex_service = 86400000000000"
  by (simp_all add: ex_service_def)

lemmas ex_db_simps = ex_db0_def ex_db1_def ex_users_def ex_transfer_def

lemma ex_schema_ok [simp]: "schema_ok ex_db0" "schema_ok ex_db1"
  by (auto simp: ex_db_simps schema_ok_def users_ok_def wallets_ok_def transfers_ok_def has_user_def)

lemma ex_has_user [simp]: "has_user 1 ex_db0" "has_user 2 ex_db0" "has_user 1 ex_db1" "has_user 2 ex_db1"
  by (simp_all add: ex_db_simps has_user_def)

lemma ex_parties_ok [simp]: "parties_ok ex_db0" "parties_ok ex_db1"
  by (simp_all add: ex_db_simps parties_ok_def transfer_ok_def reversal_ok_def has_wallet_def)

lemma ex_user_named [simp]:
  "user_named ''bob'' ex_db0 = Some \<lparr>uID = 2, Username = ''bob'', PasswordHash = ''$2a$password2'', uCreatedAt = -8\<rparr>"
  "user_named ''bob'' ex_db1 = Some \<lparr>uID = 2, Username = ''bob'', PasswordHash = ''$2a$password2'', uCreatedAt = -8\<rparr>"
  by (simp_all add: ex_db_simps user_named_def)

lemma ex_balance_of [simp]: "balance_of 1 ex_db1 = Some 99500" "balance_of 2 ex_db1 = Some 100500"
  by (simp_all add: ex_db_simps balance_of_def)

lemma ex_transfer_rows [simp]: "transfers ex_db0 = []" "transfers ex_db1 = [ex_transfer]"
  by (simp_all add: ex_db0_def ex_db1_def)

lemma ex_solvent: "-86400000000 \<le> c \<Longrightarrow> solvent c ex_db1"
  by (auto simp: solvent_def held_sum_def ex_db_simps balance_of_def active_hold_def split: if_splits)

lemma ex_has_wallet [simp]: "has_wallet 1 ex_db1" "has_wallet 2 ex_db1" "\<not> has_wallet u ex_db0"
  by (simp_all add: ex_db_simps has_wallet_def)

lemma ex_held_sum [simp]: "held_sum c 1 ex_db1 = 0" "held_sum c 2 ex_db1 = (if c < -5 then 500 else 0)" "held_sum c u ex_db0 = 0"
  by (simp_all add: held_sum_def) (simp_all add: ex_transfer_def active_hold_def)

lemma ex_digits [simp]: "fmt_d 1 = ''1''" "fmt_d 2 = ''2''"
  by (simp_all add: fmt_d_def digits10.simps digit_char_def char_of_def bit_0)

lemma ex_sort_ids [simp]: "sort_ids ex_extern [1, 2] = [1, 2]" "sort_ids ex_extern [2, 1] = [1, 2]"
  by (simp_all add: sort_ids_two ex_extern_def)

text \<open>A connection that loses the reply of its k-th round trip.\<close>

definition ex_env_lost :: "nat \<Rightarrow> pgenv" where
  "ex_env_lost k = ex_env\<lparr>pg_link := (\<lambda>n. if n = k then LostAfter ''timeout'' else Fine)\<rparr>"

lemma ex_env_simps [simp]:
  "pg_link ex_env n = Fine" "pg_clock ex_env n = int n" "pg_uuid ex_env n = 1000 + of_nat n"
  "pg_others ex_env n d = d" "cutoff_at ex_env now win = now - win div 1000"
  "pg_link (ex_env_lost k) n = (if n = k then LostAfter ''timeout'' else Fine)"
  "pg_clock (ex_env_lost k) n = int n" "pg_uuid (ex_env_lost k) n = 1000 + of_nat n"
  "pg_others (ex_env_lost k) n d = d" "cutoff_at (ex_env_lost k) now win = now - win div 1000"
  "quiet (ex_env_lost k)"
  by (simp_all add: ex_env_def ex_env_lost_def cutoff_at_def quiet_def)

text \<open>A connection that works and generates one identifier only.\<close>

definition ex_env_const :: pgenv where
  "ex_env_const = ex_env\<lparr>pg_uuid := (\<lambda>n. 1000)\<rparr>"

lemma ex_env_const_simps [simp]:
  "fault_free ex_env_const" "quiet ex_env_const" "cutoff_at ex_env_const now win = now - win div 1000"
  "pg_clock ex_env_const n = int n" "pg_uuid ex_env_const n = 1000"
  by (simp_all add: ex_env_const_def ex_env_def fault_free_def quiet_def cutoff_at_def)

section \<open>A transfer of 700 paise whose commit reply is lost\<close>

definition ex_transfer2 :: transfer where
  "ex_transfer2 =
     \<lparr>trID = 1007, SenderID = 1, RecipientID = 2, AmountPaise = 700, IdempotencyKey = ''k2'',
      BodyHash = hashBody ''bob'' 700, SenderBalanceAfter = 98800, Status = TransferCompleted,
      trCreatedAt = 1, ReversedAt = None, SenderBalanceAfterReversal = None\<rparr>"

definition ex_db2 :: db where
  "ex_db2 =
     \<lparr>users = ex_users,
      wallets = [\<lparr>wUserID = 1, BalancePaise = 98800, wCreatedAt = -5, wUpdatedAt = 1\<rparr>,
                 \<lparr>wUserID = 2, BalancePaise = 101200, wCreatedAt = -5, wUpdatedAt = 1\<rparr>],
      transfers = [ex_transfer, ex_transfer2]\<rparr>"

lemma ex_db2_writes:
  "apply_write (SetBalance 2 101200 1) (apply_write (SetBalance 1 98800 1)
     (apply_write (InsTransfer ex_transfer2) ex_db1)) = ex_db2"
  by (simp add: ex_db1_def ex_db2_def apply_write.simps update_where_def set_balance_def)

lemma ex_db2_neq: "ex_db2 \<noteq> ex_db1"
  by (simp add: ex_db1_def ex_db2_def)

definition ex_world2 :: world where
  "ex_world2 = \<lparr>db = ex_db2, tick = 11, mets = NewMetrics, logs = []\<rparr>"

lemma ex_world2_simps [simp]: "db ex_world2 = ex_db2" "tick ex_world2 = 11"
  by (simp_all add: ex_world2_def)

lemma ex_run_lost:
  "run_state (Execute (ex_env_lost 10) ex_extern ex_service 1 ''bob'' 700 ''k2'') (ex_world ex_db1)
     = (Inl (Wrapped ''commit tx'' (OtherError ''timeout'')), ex_world2)"
proof -
  have row: "new_transfer_row 1 1007
      \<lparr>trID = 0, SenderID = 1, RecipientID = 2, AmountPaise = 700, IdempotencyKey = ''k2'',
       BodyHash = hashBody ''bob'' 700, SenderBalanceAfter = 98800, Status = [], trCreatedAt = 0,
       ReversedAt = None, SenderBalanceAfterReversal = None\<rparr> = ex_transfer2"
    by (simp add: new_transfer_row_def ex_transfer2_def)
  have tx: "exec_tx (ex_env_lost 10) 1 (execute_body ex_extern ex_service 1 2 700 ''k2'' (hashBody ''bob'' 700))
      \<lparr>db = ex_db1, tick = Suc (Suc 0), mets = NewMetrics, logs = []\<rparr>
    = (Inr \<lparr>TransferID = 1007, NewBalance = 98800, Replayed = False\<rparr>, \<lparr>db = ex_db2, tick = 10, mets = NewMetrics, logs = []\<rparr>)"
    by (simp add: execute_body_def fine_simps Let_def execute_move_def advance_def scan_int64_def fits_int64_def
        sql_insert_transfer_def transfer_key_def row ex_db2_writes int64_sless_iff)
      (simp add: ex_transfer_def)
  then show ?thesis
    by (simp add: Execute_def int64_sle_iff run_simps seen_def after_read_def WithTx_def Let_def execute_finish_def
        ex_world_def ex_world2_def)
qed

section \<open>A claim of the transfer of 500 paise whose commit reply is lost\<close>

lemma ex_transfer_fields [simp]:
  "trID ex_transfer = 7" "SenderID ex_transfer = 1" "RecipientID ex_transfer = 2" "AmountPaise ex_transfer = 500"
  "IdempotencyKey ex_transfer = ''k1''" "Status ex_transfer = TransferCompleted" "trCreatedAt ex_transfer = -5"
  by (simp_all add: ex_transfer_def)

lemma ex_transfer_with_id [simp]: "transfer_with_id 7 ex_db1 = Some ex_transfer"
  by (simp add: transfer_with_id_def)

definition ex_db3 :: db where
  "ex_db3 =
     \<lparr>users = ex_users,
      wallets = [\<lparr>wUserID = 1, BalancePaise = 100000, wCreatedAt = -5, wUpdatedAt = 1\<rparr>,
                 \<lparr>wUserID = 2, BalancePaise = 100000, wCreatedAt = -5, wUpdatedAt = 1\<rparr>],
      transfers = [set_reversed 1 100000 ex_transfer]\<rparr>"

lemma ex_db3_writes:
  "apply_write (SetBalance 1 100000 1) (apply_write (SetBalance 2 100000 1)
     (apply_write (SetReversed 7 1 100000) ex_db1)) = ex_db3"
  by (simp add: ex_db1_def ex_db3_def apply_write.simps update_where_def set_balance_def)

lemma ex_db3_neq: "ex_db3 \<noteq> ex_db1"
  by (simp add: ex_db1_def ex_db3_def)

definition ex_world3 :: world where
  "ex_world3 = \<lparr>db = ex_db3, tick = 8, mets = NewMetrics, logs = []\<rparr>"

lemma ex_world3_simps [simp]: "db ex_world3 = ex_db3" "tick ex_world3 = 8"
  by (simp_all add: ex_world3_def)

lemma ex_claim_lost:
  "run_state (ClaimBack (ex_env_lost 7) ex_extern ex_service 1 7) (ex_world ex_db1)
     = (Some (Inl (Wrapped ''commit tx'' (OtherError ''timeout''))), ex_world3)"
proof -
  have "exec_tx (ex_env_lost 7) 1 (claim_body ex_extern ex_service ex_transfer)
      \<lparr>db = ex_db1, tick = Suc (Suc 0), mets = NewMetrics, logs = []\<rparr>
    = (Inr \<lparr>cTransferID = 7, cNewBalance = 100000, cReversedAt = 1, cReplayed = False\<rparr>,
       \<lparr>db = ex_db3, tick = 7, mets = NewMetrics, logs = []\<rparr>)"
    by (simp add: claim_body_def fine_simps Let_def claim_move_def advance_def active_hold_def ex_db3_writes)
  then show ?thesis
    by (simp add: ClaimBack_def run_simps seen_def after_read_def WithTx_def Let_def claim_finish_def
        ex_world_def ex_world3_def)
qed

end
