(* ===== verification/Server_Properties.thy ===== *)
theory Server_Properties
  imports Telemetry Examples
begin

text \<open>
  Properties of the whole server: requests through routing, middleware, handlers, services and
  the database. The example server runs on the working connection of \<open>Examples\<close>.
\<close>

definition ex_http :: http_env where
  "ex_http = \<lparr>NewString = (\<lambda>n. fmt_d (int n)), elapsed_ms = (\<lambda>t0 t1. 0), promhttp_text = (\<lambda>cs m. []), slog_line = (\<lambda>l. rec_msg l @ [CHR 0x0A]),
     stdout_ok = (\<lambda>n. True)\<rparr>"

definition ex_getenv :: "string \<Rightarrow> string" where
  "ex_getenv key = (if key = ''DATABASE_URL'' then ''postgres://db'' else if key = ''JWT_SECRET'' then ''0123456789abcdef'' else [])"

definition ex_config :: config where
  "ex_config = \<lparr>DatabaseURL = ''postgres://db'', JWTSecret = ''0123456789abcdef'', Port = ''8080'',
     InitialBalancePaise = 100000, TokenTTL = 86400000000000, DBTimeout = 5000000000, ClaimWindow = 86400000000000\<rparr>"

lemma ex_config_simps [simp]:
  "InitialBalancePaise ex_config = 100000" "ClaimWindow ex_config = 86400000000000" "TokenTTL ex_config = 86400000000000"
  "JWTSecret ex_config = ''0123456789abcdef''"
  by (simp_all add: ex_config_def)

lemma ex_Load [simp]: "Load frac ex_getenv = Inr ex_config"
  by (simp add: Load_def Let_def getEnv_def ex_getenv_def ex_config_def hours_def)

lemma quiet_others_keep [simp]: "quiet env \<Longrightarrow> others_keep Inv env win" "quiet env \<Longrightarrow> others_evolve env"
  by (simp_all add: quiet_def others_keep_def others_evolve_def)

lemma ex_clock_mono [simp]: "clock_mono ex_env" "clock_mono (ex_env_lost k)"
  by (simp_all add: clock_mono_def)

lemma empty_ledger [simp]: "parties_ok empty_db" "conserved seed empty_db" "solvent c empty_db"
  by (simp_all add: parties_ok_def conserved_def solvent_def money_def balance_of_def empty_db_def)

text \<open>A request without a token, and the empty server.\<close>

definition ex_request :: "string \<Rightarrow> string \<Rightarrow> string \<Rightarrow> json \<Rightarrow> http_request" where
  "ex_request method path auth b = \<lparr>Method = method, Path = path, Authorization = auth, LimitParam = [], Body = Inr b,
     Pattern = [], PathID = [], CtxUserID = None\<rparr>"

lemma ex_request_simps [simp]:
  "Method (ex_request m p a b) = m" "Path (ex_request m p a b) = p" "Authorization (ex_request m p a b) = a"
  "incoming (ex_request m p a b)"
  by (simp_all add: ex_request_def incoming_def)

definition ex_signup :: http_request where
  "ex_signup = ex_request ''POST'' ''/auth/signup'' [] (JObject [(''username'', JString ''carol''), (''password'', JString ''password3'')])"

section \<open>The ledger over the life of the server\<close>





text \<open>
  C17: no request is answered with 500. Between any two requests the tables are such that
  neither the pointers a claim replay dereferences are nil nor the ring's slice is out of
  range, so the recovery middleware never has a panic to answer.
\<close>

theorem server_never_500:
  assumes "clock_mono env" "others_keep (\<lambda>c. parties_ok) env (ClaimWindow cfg)" "schema_ok (db w)" "parties_ok (db w)"
    and "0 \<le> sint (InitialBalancePaise cfg)"
  shows "RespStatus (fst (run_state (NewHandler env henv x cfg r) (serve_all env henv x cfg rs w))) \<noteq> 500"
proof -
  let ?P = "ledger_at (\<lambda>c. parties_ok) env (ClaimWindow cfg)"
  have "?P w" using assms(3,4) by (simp add: ledger_at_def ledger_db_def)
  then have "?P (serve_all env henv x cfg rs w)"
    by (rule parties.serve_all_ledger [OF assms(1,2) refl assms(5)])
  then show ?thesis
    unfolding NewHandler_def
    by (intro NewRouter_answers [of ?P] parties.keeps_VerifyToken parties.answers_Routes assms)
qed

lemma server_never_500_witness:
  "RespStatus (fst (run_state (NewHandler (ex_env_lost 2) ex_http ex_extern ex_config ex_signup)
     (serve_all (ex_env_lost 2) ex_http ex_extern ex_config [ex_signup] (ex_world ex_db1)))) \<noteq> 500"
  by (rule server_never_500) simp_all

section \<open>Identity\<close>

text \<open>
  C15: the protected routes act only for the bearer of a valid token. A request to a route
  registered through \<open>authed\<close> without a token, or with one that does not verify, is answered
  401 with no database round trip and nothing changed but the failure counter; with a token
  that verifies to a user, the handler runs for that user, and its answer is the response.
\<close>

theorem protected_routes_need_token:
  assumes "incoming r" "cleanPath (Path r) = Path r" "find_route (Method r) (Path r) = Some (rt, ids)" "rtAuthed rt"
  shows "case caller_of env x cfg w r of
      None \<Rightarrow> (let (resp, w') = run_state (NewHandler env henv x cfg r) w in
        RespStatus resp = 401 \<and> db w' = db w \<and> tick w' = tick w \<and> AuthFailures (mets w') = Suc (AuthFailures (mets w)))
    | Some u \<Rightarrow> (case run_state (Routes env henv x cfg (rtEndpoint rt) (routed rt ids r\<lparr>CtxUserID := Some u\<rparr>)) w of
        (None, w1) \<Rightarrow> True
      | (Some resp, w1) \<Rightarrow> run_state (NewHandler env henv x cfg r) w =
          (add_header ''X-Request-Id'' (NewString henv (tick w)) resp,
           counted henv r resp w (scoped [(''user_id'', AUuid u)] w w1)))"
proof (cases "caller_of env x cfg w r")
  case None
  then obtain reason where "run_state (route_handler env henv x cfg rt (routed rt ids r)) w =
      map_prod Some id (run_state (authFail reason) w)"
    using authenticate_rejects [of env x cfg w "routed rt ids r"] assms(4) by (auto simp: route_handler_def)
  from run_NewHandler_route [OF assms(1-3) this [unfolded run_authFail map_prod_simp id_apply]] None
  show ?thesis
    by (simp add: add_header_def count_request_def count_auth_failure_def)
next
  case (Some u)
  then show ?thesis
    using run_NewHandler_route [OF assms(1-3), of env henv x cfg w] assms(4)
      authenticate_caller [of env x cfg w "routed rt ids r" u]
    by (auto simp: route_handler_def split: option.split prod.split)
qed

lemma ex_paths [simp]:
  "cleanPath ''/transfers'' = ''/transfers''" "cleanPath ''/auth/signup'' = ''/auth/signup''"
  "cleanPath ''/accounts'' = ''/accounts''"
  by (simp_all add: cleanPath_def Let_def segments_def)

lemma ex_routes:
  "find_route ''POST'' ''/transfers'' = Some (\<lparr>rtMethod = ''POST'', rtPath = [Lit ''transfers''],
     rtPattern = ''POST /transfers'', rtAuthed = True, rtEndpoint = CreateTransfer_ep\<rparr>, [])"
  "find_route ''POST'' ''/accounts'' = Some (\<lparr>rtMethod = ''POST'', rtPath = [Lit ''accounts''],
     rtPattern = ''POST /accounts'', rtAuthed = True, rtEndpoint = CreateAccount_ep\<rparr>, [])"
  by (simp_all add: find_route_def routes_table_def segments_def method_matches_def)

lemma protected_routes_need_token_witness:
  "RespStatus (fst (run_state (NewHandler ex_env ex_http ex_extern ex_config (ex_request ''POST'' ''/transfers'' ''Basic x'' JNull))
     (ex_world ex_db1))) = 401"
proof -
  have "caller_of ex_env ex_extern ex_config (ex_world ex_db1) (ex_request ''POST'' ''/transfers'' ''Basic x'' JNull) = None"
    by (simp add: caller_of_def bearer_def)
  then show ?thesis
    using protected_routes_need_token [where r = "ex_request ''POST'' ''/transfers'' ''Basic x'' JNull" and env = ex_env and
        x = ex_extern and cfg = ex_config and w = "ex_world ex_db1" and henv = ex_http, simplified, OF ex_routes(1)]
    by (simp add: split_beta Let_def)
qed

section \<open>What a request records\<close>

lemma answered_cases:
  assumes "incoming r" "RespStatus (fst (run_state (NewHandler env henv x cfg r) w)) \<noteq> 500"
  obtains resp r' w1 where "run_state (mux (VerifyToken env x (auth_of cfg)) (Routes env henv x cfg) r) w = ((Inr resp, r'), w1)"
    "run_state (NewHandler env henv x cfg r) w =
      (add_header ''X-Request-Id'' (NewString henv (tick w)) resp, counted henv r resp w w1)"
proof -
  obtain res r' w1 where run: "run_state (mux (VerifyToken env x (auth_of cfg)) (Routes env henv x cfg) r) w = ((res, r'), w1)"
    by (metis prod.exhaust)
  show ?thesis
  proof (cases res)
    case (Inl hs)
    then have "RespStatus (fst (run_state (NewHandler env henv x cfg r) w)) = 500"
      using run by (simp add: NewHandler_def NewRouter_def recovery_def requestID_def metrics_mw_def withTimeout_def
          text_error_def Let_def split_beta)
    with assms(2) show ?thesis by simp
  next
    case (Inr resp)
    then show ?thesis
      using that run run_NewHandler_served assms(1) by (simp add: incoming_def)
  qed
qed

lemma ex_answered:
  "RespStatus (fst (run_state (NewHandler ex_env ex_http ex_extern ex_config r) (ex_world ex_db1))) \<noteq> 500"
  using NewRouter_answers [of "ledger_at (\<lambda>c. parties_ok) ex_env 86400000000000" _ _ "ex_world ex_db1"]
    parties.keeps_VerifyToken parties.answers_Routes [of ex_env ex_config]
  by (simp add: NewHandler_def ledger_at_def ledger_db_def)

text \<open>
  C38: the route label is always \<open>unmatched\<close>. Every request that is answered without a panic,
  whichever route it matches, adds one to the request counter under the route label
  \<open>unmatched\<close> and to no other label, because the router writes the matched pattern into the
  copy of the request that \<open>withTimeout\<close> made.
\<close>

theorem metrics_route_unmatched:
  assumes "incoming r" "RespStatus (fst (run_state (NewHandler env henv x cfg r) w)) \<noteq> 500"
  defines "m \<equiv> mets w" and "m' \<equiv> mets (snd (run_state (NewHandler env henv x cfg r) w))"
  shows "HTTPRequests m' = bump (HTTPRequests m)
      (''unmatched'', Method r, fmt_d (int (RespStatus (fst (run_state (NewHandler env henv x cfg r) w))))) \<and>
    HTTPDuration m' = bump (HTTPDuration m) ''unmatched''"
  using counters_mux [of env x cfg henv r w]
  by (rule_tac answered_cases [OF assms(1,2)]) (simp add: m_def m'_def http_counters_def count_request_def)

lemma metrics_route_unmatched_witness:
  "HTTPRequests (mets (snd (run_state (NewHandler ex_env ex_http ex_extern ex_config ex_signup) (ex_world ex_db1))))
     (''POST /auth/signup'', ''POST'', ''201'') = 0"
  using ex_answered metrics_route_unmatched [where r = ex_signup and env = ex_env and henv = ex_http and x = ex_extern and
        cfg = ex_config and w = "ex_world ex_db1"]
    by (simp add: ex_signup_def NewMetrics_def)



end
