(* ===== verification/Account_Properties.thy ===== *)
theory Account_Properties
  imports Examples Wallet_Service Auth_Service
begin

text \<open>
  The properties of wallets and accounts: get-or-create seeds once, the two balances, sign-up,
  log-in and tokens.
\<close>

section \<open>What the operations do on a connection that loses nothing\<close>

lemma run_insert_wallet:
  assumes "fault_free env" "quiet env" "has_user u (db w)" "\<not> has_wallet u (db w)" "0 \<le> sint seed"
  shows "run_state (query env (\<lambda>now fresh. sql_insert_wallet now u seed)) w =
    (Inr 1, w\<lparr>db := ensure_wallet seed (pg_clock env (tick w)) u (db w), tick := Suc (tick w)\<rparr>)"
  using assms by (simp add: run_query sql_insert_wallet_def ensure_wallet_def quiet_def)

lemma run_GetOrCreate:
  assumes env: "fault_free env" "quiet env" and u: "has_user u (db w)" "0 \<le> sint (wsSeedPaise ws)"
  shows "fst (run_state (GetOrCreate env ws u) w) =
      Inr (wallet_balance (wsSeedPaise ws) u (db w), \<not> has_wallet u (db w))"
    and "db (snd (run_state (GetOrCreate env ws u) w)) =
      ensure_wallet (wsSeedPaise ws) (tx_time env w) u (db w)"
proof -
  have bal: "sql_balance u d = (row_result (balance_of u d), [])" for d
    by (simp add: sql_balance_def balance_of_def)
  have "fst (run_state (GetOrCreate env ws u) w) = Inr (wallet_balance (wsSeedPaise ws) u (db w), \<not> has_wallet u (db w)) \<and>
    db (snd (run_state (GetOrCreate env ws u) w)) = ensure_wallet (wsSeedPaise ws) (tx_time env w) u (db w)"
  proof (cases "has_wallet u (db w)")
    case True
    then obtain b where "balance_of u (db w) = Some b" using has_wallet_balance_of by blast
    then show ?thesis
      using env u True
      by (simp add: GetOrCreate_def GetOrCreateWallet_def run_read bal sql_wallet_exists_def wallet_balance_def
          ensure_wallet_def)
  next
    case False
    then have "balance_of u (db w) = None" by (simp add: balance_of_None_iff)
    then show ?thesis
      using env u False
      by (simp add: GetOrCreate_def GetOrCreateWallet_def run_read bal sql_wallet_exists_def wallet_balance_def
          run_insert_wallet balance_of_ensure_wallet tx_time_def run_state_if)
  qed
  then show "fst (run_state (GetOrCreate env ws u) w) =
      Inr (wallet_balance (wsSeedPaise ws) u (db w), \<not> has_wallet u (db w))"
    "db (snd (run_state (GetOrCreate env ws u) w)) = ensure_wallet (wsSeedPaise ws) (tx_time env w) u (db w)"
    by simp_all
qed

lemma run_wallet_balances:
  "run_state (query env (\<lambda>now fresh. sql_wallet_balances (cutoff_at env now win) u)) w =
     (fst (deliver (pg_link env (tick w)) (sql_wallet_balances (cutoff_at env (pg_clock env (tick w)) win) u (seen env w))),
      after_read env w)"
  by (simp add: run_read)

lemma run_GetBalance:
  assumes "fault_free env" "quiet env" "schema_ok (db w)" "parties_ok (db w)"
    and "solvent (cutoff_at env (pg_clock env (tick w)) (wsClaimWindow ws)) (db w)" and b: "balance_of u (db w) = Some b"
  obtains available where "run_state (GetBalance env ws u) w = (Inr (b, available), after_read env w)"
    "sint available = sint b - held_sum (cutoff_at env (pg_clock env (tick w)) (wsClaimWindow ws)) u (db w)"
    "0 \<le> sint available"
proof
  let ?held = "held_sum (cutoff_at env (pg_clock env (tick w)) (wsClaimWindow ws)) u (db w)"
  have h: "0 \<le> ?held" "?held \<le> sint b"
    using assms held_sum_nonneg by (auto simp: schema_ok_def solvent_def)
  then have fits: "fits_int64 (sint b - ?held)"
    using sint_int64_range [of b] by (simp add: fits_int64_def)
  obtain wal where "find (\<lambda>w. wUserID w = u) (wallets (db w)) = Some wal" "BalancePaise wal = b"
    using b by (auto simp: balance_of_def)
  then show "run_state (GetBalance env ws u) w = (Inr (b, word_of_int (sint b - ?held)), after_read env w)"
    using assms(1,2) fits by (simp add: GetBalance_def GetWalletBalances_def run_wallet_balances sql_wallet_balances_def
        scan_int64_def mapRepoNotFound_def)
  show "sint (word_of_int (sint b - ?held) :: int64) = sint b - ?held" using fits by (rule sint_of_int_int64)
  then show "0 \<le> sint (word_of_int (sint b - ?held) :: int64)" using h by linarith
qed

section \<open>Wallets\<close>

text \<open>
  C31: get-or-create seeds once. The first call for a user creates the wallet with the seed if
  there is none, and reports whether it did; a second call changes nothing, reports the same
  balance and that it created nothing.
\<close>

theorem GetOrCreate_seeds_once:
  assumes "fault_free env" "quiet env" "has_user u (db w)" "0 \<le> sint (wsSeedPaise ws)"
    and first: "run_state (GetOrCreate env ws u) w = (r, w1)"
  shows "r = Inr (wallet_balance (wsSeedPaise ws) u (db w), \<not> has_wallet u (db w)) \<and>
    balance_of u (db w1) = Some (wallet_balance (wsSeedPaise ws) u (db w)) \<and>
    transfers (db w1) = transfers (db w) \<and> (\<forall>v. v = u \<or> balance_of v (db w1) = balance_of v (db w)) \<and>
    map_prod id db (run_state (GetOrCreate env ws u) w1) =
      (Inr (wallet_balance (wsSeedPaise ws) u (db w), False), db w1)"
proof -
  have r: "r = Inr (wallet_balance (wsSeedPaise ws) u (db w), \<not> has_wallet u (db w))"
    and w1: "db w1 = ensure_wallet (wsSeedPaise ws) (tx_time env w) u (db w)"
    using run_GetOrCreate [OF assms(1-4)] first by simp_all
  have b: "balance_of u (db w1) = Some (wallet_balance (wsSeedPaise ws) u (db w))"
    using balance_of_ensured [of u "[u]"] by (simp add: w1)
  have "has_user u (db w1)" using assms(3) by (simp add: w1)
  note second = run_GetOrCreate [OF assms(1,2) this assms(4)]
  have "has_wallet u (db w1)" "wallet_balance (wsSeedPaise ws) u (db w1) = wallet_balance (wsSeedPaise ws) u (db w)"
    using b by (simp_all add: balance_of_has_wallet wallet_balance_def)
  then have "map_prod id db (run_state (GetOrCreate env ws u) w1) =
      (Inr (wallet_balance (wsSeedPaise ws) u (db w), False), db w1)"
    using second by (simp add: prod_eq_iff ensure_wallet_def)
  then show ?thesis using r b w1 by (simp add: balance_of_ensure_wallet)
qed

definition ex_wallets :: wallet_service where
  "ex_wallets = \<lparr>wsSeedPaise = 100000, wsClaimWindow = 86400000000000\<rparr>"

lemma ex_wallets_simps [simp]: "wsSeedPaise ex_wallets = 100000" "wsClaimWindow ex_wallets = 86400000000000"
  by (simp_all add: ex_wallets_def)

lemma GetOrCreate_seeds_once_witness:
  "fst (run_state (GetOrCreate ex_env ex_wallets 1) (ex_world ex_db0)) = Inr (100000, True)"
  using GetOrCreate_seeds_once [of ex_env 1 "ex_world ex_db0" ex_wallets]
  by (cases "run_state (GetOrCreate ex_env ex_wallets 1) (ex_world ex_db0)")
    (simp add: wallet_balance_def, simp add: ex_db0_def balance_of_def)

text \<open>
  C32: the two balances. \<open>GetBalance\<close> returns the balance of the wallet and the exact
  difference of it and the active holds, which is never negative; without a wallet it
  returns \<open>ErrNoWallet\<close>. It changes nothing.
\<close>

theorem GetBalance_available:
  assumes "fault_free env" "quiet env" "schema_ok (db w)" "parties_ok (db w)"
    "solvent (cutoff_at env (pg_clock env (tick w)) (wsClaimWindow ws)) (db w)"
  shows "case balance_of u (db w) of
      None \<Rightarrow> map_prod id db (run_state (GetBalance env ws u) w) = (Inl ErrNoWallet, db w)
    | Some b \<Rightarrow> (\<exists>available. map_prod id db (run_state (GetBalance env ws u) w) = (Inr (b, available), db w) \<and>
        sint available = sint b - held_sum (cutoff_at env (pg_clock env (tick w)) (wsClaimWindow ws)) u (db w) \<and>
        0 \<le> sint available)"
proof (cases "balance_of u (db w)")
  case None
  then have "find (\<lambda>w. wUserID w = u) (wallets (db w)) = None" by (simp add: balance_of_def)
  then show ?thesis
    using None assms(1,2) by (simp add: GetBalance_def GetWalletBalances_def run_wallet_balances sql_wallet_balances_def)
next
  case (Some b)
  obtain available where run: "run_state (GetBalance env ws u) w = (Inr (b, available), after_read env w)"
    "sint available = sint b - held_sum (cutoff_at env (pg_clock env (tick w)) (wsClaimWindow ws)) u (db w)"
    "0 \<le> sint available"
    by (rule run_GetBalance [OF assms Some])
  then have "map_prod id db (run_state (GetBalance env ws u) w) = (Inr (b, available), db w)"
    using assms(2) by simp
  with run(2,3) Some show ?thesis by auto
qed

lemma GetBalance_available_witness:
  "\<exists>available. map_prod id db (run_state (GetBalance ex_env ex_wallets 2) (ex_world ex_db1)) = (Inr (100500, available), ex_db1) \<and>
    sint available = 100000"
  using GetBalance_available [of ex_env "ex_world ex_db1" ex_wallets 2] ex_solvent [of "- 86400000000"] by simp blast

section \<open>Accounts\<close>

lemma user_named_None: "user_named name d = None \<longleftrightarrow> name \<notin> Username ` set (users d)"
  by (auto simp: user_named_def find_None_iff)

lemma user_named_append:
  "user_named name d = None \<Longrightarrow>
   user_named name (d\<lparr>users := users d @ [u]\<rparr>) = (if Username u = name then Some u else None)"
  by (simp add: user_named_def find_append)

definition token_expiry :: "pgenv \<Rightarrow> extern \<Rightarrow> auth_service \<Rightarrow> nat \<Rightarrow> gotime" where
  "token_expiry env x a n = jwt_NewNumericDate x (go_clock env n + tokenTTL a)"

text \<open>A token issued after n round trips verifies to its user until the expiry it carries.\<close>

lemma issueToken_VerifyToken:
  assumes "jwt_ok x" "uuid_ok x"
  obtains tok where "run_state (issueToken env x a u) w = (Inr tok, w)" "tok \<noteq> []"
    "\<And>w'. go_clock env (tick w') < token_expiry env x a (tick w) \<Longrightarrow>
       run_state (VerifyToken env x a tok) w' = (Inr u, w')"
proof -
  let ?c = "\<lparr>Subject = uuid_String x u, IssuedAt = jwt_NewNumericDate x (go_clock env (tick w)),
      ExpiresAt = token_expiry env x a (tick w)\<rparr>"
  obtain tok where "jwt_SignedString x ?c (secret a) = Some tok" "tok \<noteq> []"
    "\<forall>now < token_expiry env x a (tick w). jwt_ParseWithClaims x tok now (secret a) = Some ?c"
    using assms(1) unfolding jwt_ok_def token_expiry_def by (metis jwt_claims.select_convs(2,3))
  moreover have "jwt_GetSubject x ?c = Some (uuid_String x u)" "uuid_Parse x (uuid_String x u) = Some u"
    using assms by (simp_all add: jwt_ok_def uuid_ok_def)
  ultimately show ?thesis
    by (intro that [of tok]) (simp_all add: issueToken_def VerifyToken_def Let_def token_expiry_def)
qed

lemma VerifyToken_expired:
  assumes "jwt_ok x"
  shows "jwt_ParseWithClaims x tok (go_clock env (tick w)) (secret a) = Some c \<Longrightarrow> go_clock env (tick w) < ExpiresAt c"
  using assms by (auto simp: jwt_ok_def)

definition new_user :: "pgenv \<Rightarrow> world \<Rightarrow> string \<Rightarrow> string \<Rightarrow> user" where
  "new_user env w name hash =
     \<lparr>uID = pg_uuid env (tick w), Username = name, PasswordHash = hash, uCreatedAt = pg_clock env (tick w)\<rparr>"

lemma run_CreateUser:
  assumes "fault_free env" "quiet env" "pg_uuid env (tick w) \<notin> uID ` set (users (db w))"
  shows "run_state (CreateUser env name hash) w =
    (if user_named name (db w) = None
     then (Inr (new_user env w name hash),
           w\<lparr>db := db w\<lparr>users := users (db w) @ [new_user env w name hash]\<rparr>, tick := Suc (tick w)\<rparr>)
     else (Inl RepoErrDuplicate, w\<lparr>tick := Suc (tick w)\<rparr>))"
  using assms
  by (simp add: CreateUser_def run_query sql_insert_user_def user_named_None new_user_def Let_def quiet_def
      isUniqueViolation_def unique_violation_def apply_write.simps)

lemma run_Login:
  assumes "fault_free env" "quiet env"
  shows "run_state (Login env x a name pw) w =
    (case user_named name (db w) of
       None \<Rightarrow> (Inl ErrInvalidCredentials, after_read env w)
     | Some u \<Rightarrow>
         (if bcrypt_Compare x (PasswordHash u) pw
          then (case run_state (issueToken env x a (uID u)) (after_read env w) of
                  (tok, w') \<Rightarrow> (map_sum id (Pair u) tok, w'))
          else (Inl ErrInvalidCredentials, after_read env w)))"
  using assms by (simp add: Login_def run_simps run_state_if split: option.split prod.split sum.split)

text \<open>
  C28: sign-up decides by its input and the user table: a malformed user name or password is a
  validation error, a taken name is \<open>ErrUsernameTaken\<close>, and otherwise exactly one user row is
  added, with a hash that accepts the password, and a token is returned that verifies to the
  new user until it expires.
\<close>

theorem Signup_decides:
  assumes "fault_free env" "quiet env" "uuid_ok x" "jwt_ok x" "bcrypt_ok x"
    "pg_uuid env (tick w) \<notin> uID ` set (users (db w))"
  shows "if \<not> usernameRe name \<or> length pw < 8 \<or> 72 < length pw
    then \<exists>msg. run_state (Signup env x a name pw) w = (Inl (ValidationError msg), w)
    else if user_named name (db w) \<noteq> None
    then map_prod id db (run_state (Signup env x a name pw) w) = (Inl ErrUsernameTaken, db w)
    else \<exists>hash tok. bcrypt_Compare x hash pw \<and>
      map_prod id db (run_state (Signup env x a name pw) w) =
        (Inr (new_user env w name hash, tok), db w\<lparr>users := users (db w) @ [new_user env w name hash]\<rparr>) \<and>
      (\<forall>w'. token_expiry env x a (Suc (tick w)) \<le> go_clock env (tick w') \<or>
         run_state (VerifyToken env x a tok) w' = (Inr (pg_uuid env (tick w)), w'))"
proof (cases "\<not> usernameRe name \<or> length pw < 8 \<or> 72 < length pw")
  case True
  then show ?thesis by (auto simp: Signup_def Invalid_def)
next
  case False
  obtain hash where hash: "bcrypt_Generate x pw (tick w) = Some hash" "bcrypt_Compare x hash pw"
    using assms(5) False unfolding bcrypt_ok_def by (meson not_less)
  show ?thesis
  proof (cases "user_named name (db w)")
    case (Some u)
    then show ?thesis
      using False hash run_CreateUser [OF assms(1,2,6), of name hash] by (simp add: Signup_def)
  next
    case None
    let ?u = "new_user env w name hash"
    let ?w1 = "w\<lparr>db := db w\<lparr>users := users (db w) @ [?u]\<rparr>, tick := Suc (tick w)\<rparr>"
    obtain tok where tok: "run_state (issueToken env x a (uID ?u)) ?w1 = (Inr tok, ?w1)"
      "\<And>w'. go_clock env (tick w') < token_expiry env x a (tick ?w1) \<Longrightarrow> run_state (VerifyToken env x a tok) w' = (Inr (uID ?u), w')"
      using issueToken_VerifyToken [OF assms(4,3)] by blast
    have "map_prod id db (run_state (Signup env x a name pw) w) = (Inr (?u, tok), db ?w1)"
      using False hash None tok(1) run_CreateUser [OF assms(1,2,6), of name hash] by (simp add: Signup_def)
    moreover have "token_expiry env x a (Suc (tick w)) \<le> go_clock env (tick w') \<or>
         run_state (VerifyToken env x a tok) w' = (Inr (pg_uuid env (tick w)), w')" for w'
      using tok(2) [of w'] by (simp add: new_user_def) linarith
    ultimately show ?thesis using False None hash(2) by auto
  qed
qed

definition ex_auth :: auth_service where
  "ex_auth = \<lparr>secret = ''0123456789abcdef'', tokenTTL = 86400000000000\<rparr>"

lemma Signup_decides_witness:
  "\<exists>hash tok. map_prod id db (run_state (Signup ex_env ex_extern ex_auth ''carol'' ''password3'') (ex_world ex_db0)) =
     (Inr (new_user ex_env (ex_world ex_db0) ''carol'' hash, tok),
      ex_db0\<lparr>users := users ex_db0 @ [new_user ex_env (ex_world ex_db0) ''carol'' hash]\<rparr>)"
proof -
  have "usernameRe ''carol''" by (simp add: usernameRe_def username_char_def Let_def)
  moreover have "user_named ''carol'' ex_db0 = None" "1000 \<notin> uID ` set (users ex_db0)"
    by (simp_all add: ex_db_simps user_named_def)
  ultimately show ?thesis
    using Signup_decides [of ex_env ex_extern "ex_world ex_db0" "''carol''" "''password3''" ex_auth]
      ex_uuid_ok ex_jwt_ok ex_bcrypt_ok by simp blast
qed

text \<open>
  C29: logging in after signing up. Whoever signed up gets, with the same name and password, a
  token for the same user, and both tokens verify to that user until they expire; any other
  password the hash refuses, and any unknown name, gets the one answer
  \<open>ErrInvalidCredentials\<close>. Logging in never writes.
\<close>

theorem Login_after_Signup:
  assumes "fault_free env" "quiet env" "uuid_ok x" "jwt_ok x" "bcrypt_ok x"
    "pg_uuid env (tick w) \<notin> uID ` set (users (db w))"
    and signup: "run_state (Signup env x a name pw) w = (Inr (u, tok), w1)"
  shows "(\<exists>tok'. map_prod id db (run_state (Login env x a name pw) w1) = (Inr (u, tok'), db w1) \<and>
      (\<forall>w'. token_expiry env x a (Suc (tick w1)) \<le> go_clock env (tick w') \<or>
        run_state (VerifyToken env x a tok') w' = (Inr (uID u), w'))) \<and>
    (\<forall>pw'. bcrypt_Compare x (PasswordHash u) pw' \<or>
      map_prod id db (run_state (Login env x a name pw') w1) = (Inl ErrInvalidCredentials, db w1)) \<and>
    (\<forall>name' pw'. user_named name' (db w1) \<noteq> None \<or>
      map_prod id db (run_state (Login env x a name' pw') w1) = (Inl ErrInvalidCredentials, db w1))"
proof -
  have valid: "usernameRe name" "\<not> length pw < 8" "\<not> 72 < length pw"
    using signup by (auto simp: Signup_def split: if_splits)
  then obtain hash where hash: "bcrypt_Generate x pw (tick w) = Some hash" "bcrypt_Compare x hash pw"
    using assms(5) unfolding bcrypt_ok_def by (meson not_less)
  have none: "user_named name (db w) = None"
    using signup valid hash run_CreateUser [OF assms(1,2,6), of name hash]
    by (auto simp: Signup_def split: if_splits)
  let ?u = "new_user env w name hash"
  let ?w1 = "w\<lparr>db := db w\<lparr>users := users (db w) @ [?u]\<rparr>, tick := Suc (tick w)\<rparr>"
  obtain tok0 where "run_state (issueToken env x a (uID ?u)) ?w1 = (Inr tok0, ?w1)"
    using issueToken_VerifyToken [OF assms(4,3)] by blast
  then have u: "u = ?u" "w1 = ?w1"
    using signup valid hash none run_CreateUser [OF assms(1,2,6), of name hash] by (auto simp: Signup_def)
  then have named: "user_named name (db w1) = Some u"
    using none by (simp add: user_named_append) (simp add: new_user_def)
  have cmp: "bcrypt_Compare x (PasswordHash u) pw" using hash(2) u(1) by (simp add: new_user_def)
  obtain tok' where tok': "run_state (issueToken env x a (uID u)) (after_read env w1) = (Inr tok', after_read env w1)"
    "\<And>w'. go_clock env (tick w') < token_expiry env x a (tick (after_read env w1)) \<Longrightarrow>
      run_state (VerifyToken env x a tok') w' = (Inr (uID u), w')"
    using issueToken_VerifyToken [OF assms(4,3)] by blast
  have "map_prod id db (run_state (Login env x a name pw) w1) = (Inr (u, tok'), db w1)"
    using assms(2) by (simp add: run_Login [OF assms(1,2)] named cmp tok'(1))
  moreover have "token_expiry env x a (Suc (tick w1)) \<le> go_clock env (tick w') \<or>
        run_state (VerifyToken env x a tok') w' = (Inr (uID u), w')" for w'
    using tok'(2) [of w'] by (simp add: not_less [symmetric])
  ultimately show ?thesis
    using assms(2) named by (auto simp: run_Login [OF assms(1,2)])
qed

lemma ex_carol:
  "usernameRe ''carol''" "user_named ''carol'' ex_db0 = None" "1000 \<notin> uID ` set (users ex_db0)"
  by (simp_all add: usernameRe_def username_char_def Let_def ex_db_simps user_named_def)

lemma ex_run_signup:
  "\<exists>u tok w1. run_state (Signup ex_env ex_extern ex_auth ''carol'' ''password3'') (ex_world ex_db0) = (Inr (u, tok), w1)"
proof -
  have "bcrypt_Generate ex_extern ''password3'' 0 = Some ''$2a$password3''" by (simp add: ex_extern_def)
  moreover have "\<exists>tok. jwt_SignedString ex_extern c k = Some tok" for c k by (simp add: ex_extern_def ex_sign_def)
  ultimately show ?thesis
    using ex_carol run_CreateUser [of ex_env "ex_world ex_db0" "''carol''" "''$2a$password3''"]
    by (auto simp: Signup_def issueToken_def Let_def split: option.split)
qed

lemma Login_after_Signup_witness:
  "\<exists>u tok w1 tok'. run_state (Signup ex_env ex_extern ex_auth ''carol'' ''password3'') (ex_world ex_db0) = (Inr (u, tok), w1) \<and>
    map_prod id db (run_state (Login ex_env ex_extern ex_auth ''carol'' ''password3'') w1) = (Inr (u, tok'), db w1)"
proof -
  obtain u tok w1 where signup:
    "run_state (Signup ex_env ex_extern ex_auth ''carol'' ''password3'') (ex_world ex_db0) = (Inr (u, tok), w1)"
    using ex_run_signup by blast
  have "pg_uuid ex_env (tick (ex_world ex_db0)) \<notin> uID ` set (users (db (ex_world ex_db0)))"
    using ex_carol by simp
  from Login_after_Signup [OF ex_env_ok ex_uuid_ok ex_jwt_ok ex_bcrypt_ok this signup] signup
  show ?thesis by blast
qed



end
