(* ===== verification/Transfer_Properties.thy ===== *)
theory Transfer_Properties
  imports Examples
begin

text \<open>
  Transfers and claim-backs while no other session commits (\<open>quiet\<close>), so that what the tables
  hold after a call is known exactly: refinement of the two operations to one-step
  specifications, exactly-once under lost replies, idempotency keys, the claim window,
  authorization, and the funds check. \<open>Linear_Properties\<close> states them amid other sessions.
\<close>

text \<open>
  On a connection that loses nothing, \<open>TransferService.Execute\<close> returns on every branch
  (validation errors, unknown recipient, self transfer, applied, replay, key conflict,
  insufficient funds, overflow) what the one-step specification returns, and leaves exactly
  the tables the specification gives: an error or a replay leaves them unchanged.
\<close>

theorem Execute_refines:
  assumes "fault_free env" "quiet env" "schema_ok (db w)" "has_user s (db w)" "0 \<le> sint (seedPaise t)"
  shows "\<exists>n. map_prod id db (run_state (Execute env x t s name amount key) w) =
    execute_abs x (seedPaise t) (tx_time env w) (cutoff_at env (tx_time env w) (claimWindow t))
      (pg_uuid env n) s name amount key (db w)"
  by (rule Execute_implements [OF assms, of x name amount key]) (auto intro!: exI prod_eqI)

lemma Execute_refines_witness:
  "\<exists>n. map_prod id db (run_state (Execute ex_env ex_extern ex_service 1 ''bob'' 700 ''k2'') (ex_world ex_db1)) =
    execute_abs ex_extern 100000 1 (- 86399999999) (pg_uuid ex_env n) 1 ''bob'' 700 ''k2'' ex_db1"
  using Execute_refines [of ex_env "ex_world ex_db1" 1 ex_service ex_extern "''bob''" 700 "''k2''"]
  by (simp add: tx_time_def cutoff_at_def) (simp add: ex_env_def)

text \<open>
  At most once per call, whatever the connection does. A call of \<open>Execute\<close> either leaves
  the tables as they were, and then it reports no fresh success, or it applies the transfer
  exactly once, and then it reports that outcome or the loss of the commit's reply.
\<close>

theorem Execute_at_most_once:
  assumes "run_state (Execute env x t s name amount key) w = (r, w')" "quiet env" "schema_ok (db w)"
  shows "(db w' = db w \<and> (case r of Inr res \<Rightarrow> Replayed res | Inl e \<Rightarrow> True)) \<or>
    (\<exists>rcpt n res. user_named name (db w) = Some rcpt \<and> uID rcpt \<noteq> s \<and>
       transfer_spec (tx_time env w) (cutoff_at env (tx_time env w) (claimWindow t)) (seedPaise t)
         (sort_ids x [s, uID rcpt]) (pg_uuid env n) s (uID rcpt) amount key (hashBody name amount) (db w)
         = Inr (res, db w') \<and> (r = Inr res \<or> lost_reply r))"
  using assms by (rule Execute_effect) (auto split: sum.split)

lemma Execute_at_most_once_witness:
  "(db ex_world2 = ex_db1) \<or>
    (\<exists>rcpt n res. user_named ''bob'' ex_db1 = Some rcpt \<and> uID rcpt \<noteq> 1 \<and>
       transfer_spec 1 (- 86399999999) 100000 (sort_ids ex_extern [1, uID rcpt]) (1000 + of_nat n) 1 (uID rcpt) 700 ''k2''
         (hashBody ''bob'' 700) ex_db1 = Inr (res, db ex_world2))"
  using Execute_at_most_once [OF ex_run_lost] by (simp add: tx_time_def) blast

text \<open>
  Exactly once across a retry. If a call of \<open>Execute\<close> changed the tables, even when it
  reported an error, then repeating it on a working connection leaves the tables as they are
  and returns the outcome of the one transfer that was applied, marked as a replay.
\<close>

theorem Execute_retry_exactly_once:
  assumes first: "run_state (Execute env x t s name amount key) w = (r, w1)" "quiet env" "db w1 \<noteq> db w"
    and ok: "schema_ok (db w)" "parties_ok (db w)" "solvent (cutoff_at env (tx_time env w) (claimWindow t)) (db w)"
      "0 \<le> sint (seedPaise t)"
    and retry: "fault_free env2" "quiet env2"
      "cutoff_at env (tx_time env w) (claimWindow t) \<le> cutoff_at env2 (tx_time env2 w1) (claimWindow t)"
  shows "\<exists>rcpt n res. user_named name (db w) = Some rcpt \<and>
    transfer_spec (tx_time env w) (cutoff_at env (tx_time env w) (claimWindow t)) (seedPaise t)
      (sort_ids x [s, uID rcpt]) (pg_uuid env n) s (uID rcpt) amount key (hashBody name amount) (db w)
      = Inr (res, db w1) \<and> (r = Inr res \<or> lost_reply r) \<and>
    map_prod id db (run_state (Execute env2 x t s name amount key) w1) = (Inr (res\<lparr>Replayed := True\<rparr>), db w1)"
  by (rule Execute_retry [OF first ok refl retry])

lemma Execute_retry_exactly_once_witness:
  "\<exists>res. map_prod id db (run_state (Execute ex_env ex_extern ex_service 1 ''bob'' 700 ''k2'') ex_world2)
    = (Inr (res\<lparr>Replayed := True\<rparr>), ex_db2)"
  using Execute_retry_exactly_once [OF ex_run_lost, of ex_env] ex_db2_neq ex_solvent
  by (simp add: tx_time_def) blast

text \<open>
  An idempotency key protects its body. A key already stored for another recipient or
  another amount is answered with \<open>ErrIdempotencyConflict\<close> and moves nothing, unless the two
  bodies are a collision of SHA-256; the same body is answered with the stored outcome.
\<close>

theorem Execute_stored_key:
  assumes "fault_free env" "quiet env" "schema_ok (db w)" "parties_ok (db w)" "0 \<le> sint (seedPaise t)"
    "solvent (cutoff_at env (tx_time env w) (claimWindow t)) (db w)"
    and old: "old \<in> set (transfers (db w))" "SenderID old = s" "IdempotencyKey old = key"
      "BodyHash old = hashBody oldName oldAmount"
    and valid: "\<not> ends_early s name amount key (db w)"
    and no_collision: "sum256 (body_text name amount) = sum256 (body_text oldName oldAmount) \<Longrightarrow>
      body_text name amount = body_text oldName oldAmount"
  shows "map_prod id db (run_state (Execute env x t s name amount key) w) =
    ((if (name, amount) = (oldName, oldAmount) then Inr (replay_of old) else Inl ErrIdempotencyConflict), db w)"
proof -
  have held: "fits_int64 (held_sum (cutoff_at env (tx_time env w) (claimWindow t)) s (db w))"
    using assms(3,4,6) by (rule solvent_fits)
  have "has_user s (db w)" using assms(3) old by (auto simp: schema_ok_def transfers_ok_def)
  moreover have "BodyHash old = hashBody name amount \<longleftrightarrow> (name, amount) = (oldName, oldAmount)"
    using old(4) no_collision hashBody_collision [of oldName oldAmount name amount] by (metis prod.inject)
  ultimately show ?thesis
    by (intro Execute_outcome [OF assms(1,2,3) _ assms(5)])
      (simp_all add: execute_abs_used_key [OF assms(3) held old(1-3) valid])
qed

lemma Execute_stored_key_witness:
  "map_prod id db (run_state (Execute ex_env ex_extern ex_service 1 ''bob'' 500 ''k1'') (ex_world ex_db1))
    = (Inr \<lparr>TransferID = 7, NewBalance = 99500, Replayed = True\<rparr>, ex_db1)"
proof -
  have "ex_transfer \<in> set (transfers ex_db1)" "SenderID ex_transfer = 1" "IdempotencyKey ex_transfer = ''k1''"
    "BodyHash ex_transfer = hashBody ''bob'' 500" "\<not> ends_early 1 ''bob'' 500 ''k1'' ex_db1"
    by (simp_all add: ends_early_def) (simp_all add: ex_transfer_def)
  then show ?thesis
    using Execute_stored_key [of ex_env "ex_world ex_db1" ex_service ex_transfer 1 "''k1''" "''bob''" 500
        "''bob''" 500 ex_extern] ex_solvent
    by (simp add: tx_time_def replay_of_def ex_transfer_def)
qed

section \<open>Claim-backs\<close>

text \<open>
  On a connection that loses nothing, \<open>TransferService.ClaimBack\<close> returns on every branch
  (missing or foreign transfer, replay, applied, window expired, a violated balance check)
  what its one-step specification returns, and leaves exactly the tables it gives.
\<close>

theorem ClaimBack_refines:
  assumes "fault_free env" "quiet env" "schema_ok (db w)" "parties_ok (db w)"
  shows "map_prod id db (run_state (ClaimBack env x t caller i) w) =
    claim_abs (tx_time env w) (cutoff_at env (tx_time env w) (claimWindow t)) caller i (db w)"
  using ClaimBack_implements [OF assms, of x t caller i] by (simp add: prod_eq_iff)

lemma ClaimBack_refines_witness:
  "map_prod id db (run_state (ClaimBack ex_env ex_extern ex_service 2 7) (ex_world ex_db1)) = (Some (Inl ErrNotFound), ex_db1)"
  using ClaimBack_refines [of ex_env "ex_world ex_db1" ex_extern ex_service 2 7]
  by (simp add: tx_time_def claim_abs_def)

text \<open>
  Inside the window a claim never fails. While the transfer is completed and younger than
  the claim window, the sender gets the full amount back and the recipient gives it, in
  exact arithmetic, and the row is stamped reversed, whatever the recipient has spent since:
  the hold kept the money there. The total money must fit an \<open>int64\<close>.
\<close>

theorem claim_within_window_succeeds:
  assumes "fault_free env" "quiet env" "schema_ok (db w)" "parties_ok (db w)" "money (db w) < 2 ^ 63"
    and "solvent (cutoff_at env (tx_time env w) (claimWindow t)) (db w)"
    and tr: "transfer_with_id i (db w) = Some tr" "SenderID tr = caller"
      "active_hold (cutoff_at env (tx_time env w) (claimWindow t)) tr"
  shows "\<exists>bs br w'. balance_of caller (db w) = Some bs \<and> balance_of (RecipientID tr) (db w) = Some br \<and>
    run_state (ClaimBack env x t caller i) w =
      (Some (Inr \<lparr>cTransferID = i, cNewBalance = bs + AmountPaise tr, cReversedAt = tx_time env w, cReplayed = False\<rparr>), w') \<and>
    balance_of caller (db w') = Some (bs + AmountPaise tr) \<and>
    balance_of (RecipientID tr) (db w') = Some (br - AmountPaise tr) \<and>
    sint (bs + AmountPaise tr) = sint bs + sint (AmountPaise tr) \<and>
    sint (br - AmountPaise tr) = sint br - sint (AmountPaise tr) \<and>
    set_reversed (tx_time env w) (bs + AmountPaise tr) tr \<in> set (transfers (db w'))"
proof (rule claim_spec_covered [OF assms(3,4,6,5) tr(1,3)])
  let ?now = "tx_time env w" and ?c = "cutoff_at env (tx_time env w) (claimWindow t)"
  fix bs br
  let ?d = "apply_writes [SetReversed (trID tr) ?now (bs + AmountPaise tr),
         SetBalance (RecipientID tr) (br - AmountPaise tr) ?now, SetBalance (SenderID tr) (bs + AmountPaise tr) ?now] (db w)"
    and ?res = "\<lparr>cTransferID = trID tr, cNewBalance = bs + AmountPaise tr, cReversedAt = ?now, cReplayed = False\<rparr>"
  assume b: "balance_of (SenderID tr) (db w) = Some bs" "balance_of (RecipientID tr) (db w) = Some br"
    and exact: "sint (bs + AmountPaise tr) = sint bs + sint (AmountPaise tr)"
      "sint (br - AmountPaise tr) = sint br - sint (AmountPaise tr)"
    and spec: "claim_spec ?now ?c tr (db w) = Inr (?res, ?d)"
  have row: "tr \<in> set (transfers (db w))" "trID tr = i" "SenderID tr \<noteq> RecipientID tr"
    using transfer_with_id_SomeD [OF tr(1)] parties_ok_row [OF assms(4) tr(1)] by (auto simp: transfer_ok_def)
  have "claim_abs ?now ?c caller i (db w) = (Some (Inr ?res), ?d)"
    using claim_abs_applied [OF tr(1,2)] tr(3) spec by (simp add: active_hold_def claim_settle_def)
  from ClaimBack_outcome [OF assms(1-4) this, of x]
  obtain w' where "run_state (ClaimBack env x t caller i) w = (Some (Inr ?res), w')" "db w' = ?d"
    by (cases "run_state (ClaimBack env x t caller i) w") auto
  then show ?thesis
    using b exact row tr(2) balance_of_has_wallet [OF b(1)] balance_of_has_wallet [OF b(2)]
    by (intro exI [of _ bs] exI [of _ br] exI [of _ w']) (simp add: set_update_where)
qed

lemma claim_within_window_succeeds_witness:
  "\<exists>w'. run_state (ClaimBack ex_env ex_extern ex_service 1 7) (ex_world ex_db1) =
      (Some (Inr \<lparr>cTransferID = 7, cNewBalance = 100000, cReversedAt = 1, cReplayed = False\<rparr>), w') \<and>
    balance_of 1 (db w') = Some 100000 \<and> balance_of 2 (db w') = Some 100000"
proof -
  have "transfer_with_id 7 ex_db1 = Some ex_transfer" "SenderID ex_transfer = 1" "money ex_db1 = 200000"
    "active_hold (- 86399999999) ex_transfer" "RecipientID ex_transfer = 2" "AmountPaise ex_transfer = 500"
    by (simp_all add: transfer_with_id_def ex_transfer_def active_hold_def money_def ex_db1_def)
  then show ?thesis
    using claim_within_window_succeeds [of ex_env "ex_world ex_db1" ex_service 7 ex_transfer 1 ex_extern] ex_solvent
    by (simp add: tx_time_def) blast
qed

text \<open>
  A claim is applied exactly once. If a call of \<open>ClaimBack\<close> changed the tables, even when
  it reported an error, repeating it on a working connection moves nothing and returns the
  outcome of the one reversal, marked as a replay.
\<close>

theorem ClaimBack_retry_exactly_once:
  assumes first: "run_state (ClaimBack env x t caller i) w = (r, w1)" "quiet env" "db w1 \<noteq> db w"
    and ok: "schema_ok (db w)" "parties_ok (db w)"
    and retry: "fault_free env2" "quiet env2"
  shows "\<exists>tr res. transfer_with_id i (db w) = Some tr \<and>
    claim_spec (tx_time env w) (cutoff_at env (tx_time env w) (claimWindow t)) tr (db w) = Inr (res, db w1) \<and>
    (r = Some (Inr res) \<or> (\<exists>e. r = Some e \<and> lost_reply e)) \<and>
    map_prod id db (run_state (ClaimBack env2 x t caller i) w1) = (Some (Inr (res\<lparr>cReplayed := True\<rparr>)), db w1)"
  using first(1,2) ok
proof (rule ClaimBack_effect)
  assume "db w1 = db w"
  with first(3) show ?thesis by simp
next
  let ?c = "cutoff_at env (tx_time env w) (claimWindow t)"
  fix tr res
  assume tr: "transfer_with_id i (db w) = Some tr" "SenderID tr = caller" "Status tr \<noteq> TransferReversed"
    and spec: "claim_spec (tx_time env w) ?c tr (db w) = Inr (res, db w1)"
    and r: "r = Some (Inr res) \<or> (\<exists>e. r = Some e \<and> lost_reply e)"
  have ok1: "schema_ok (db w1)" using keepsD [OF keeps_schema_ClaimBack [OF first(2)] ok(1)] first(1) by (metis snd_conv)
  then have "transfers_ok (db w)" "transfers_ok (db w1)" using ok by (simp_all add: schema_ok_def)
  from claim_spec_row [OF spec this(1) tr(1) this(2)] obtain tr' where tr': "transfer_with_id i (db w1) = Some tr'"
    "same_columns tr' tr" "Status tr' = TransferReversed" "claim_replay_of tr' = Some (res\<lparr>cReplayed := True\<rparr>)" by blast
  have "parties_ok (db w1)" using parties_ok_claim_spec [OF spec ok tr(1)] .
  then have "map_prod id db (run_state (ClaimBack env2 x t caller i) w1) = (Some (Inr (res\<lparr>cReplayed := True\<rparr>)), db w1)"
    using tr' tr(2) by (intro ClaimBack_outcome [OF retry ok1]) (simp_all add: claim_abs_def same_columns_def)
  then show ?thesis using tr(1) spec r by blast
qed

lemma ClaimBack_retry_exactly_once_witness:
  "\<exists>res. map_prod id db (run_state (ClaimBack ex_env ex_extern ex_service 1 7) ex_world3)
    = (Some (Inr (res\<lparr>cReplayed := True\<rparr>)), ex_db3)"
  using ClaimBack_retry_exactly_once [OF ex_claim_lost, of ex_env] ex_db3_neq by simp blast

text \<open>
  After its window a claim is refused: a completed transfer that is no longer an active
  hold is answered with \<open>ErrClaimWindowExpired\<close> and nothing moves.
\<close>

theorem claim_after_window_refused:
  assumes "fault_free env" "quiet env" "schema_ok (db w)" "parties_ok (db w)"
    and tr: "transfer_with_id i (db w) = Some tr" "SenderID tr = caller" "Status tr = TransferCompleted"
    and late: "trCreatedAt tr \<le> cutoff_at env (tx_time env w) (claimWindow t)"
  shows "map_prod id db (run_state (ClaimBack env x t caller i) w) = (Some (Inl ErrClaimWindowExpired), db w)"
proof (rule ClaimBack_outcome [OF assms(1-4)])
  let ?c = "cutoff_at env (tx_time env w) (claimWindow t)"
  have "transfers_ok (db w)" using assms(3) by (simp add: schema_ok_def)
  then have none: "\<not> (\<exists>t \<in> set (transfers (db w)). trID t = trID tr \<and> active_hold ?c t)"
    using active_row_unique [OF _ tr(1), of ?c] late by (simp add: active_hold_def)
  obtain bs br where "balance_of (SenderID tr) (db w) = Some bs" "balance_of (RecipientID tr) (db w) = Some br"
    using parties_ok_row [OF assms(4) tr(1)] has_wallet_balance_of by (metis transfer_ok_def)
  then have "claim_spec (tx_time env w) ?c tr (db w) = Inl ErrClaimNotApplied"
    unfolding claim_spec_def using none by simp
  then show "claim_abs (tx_time env w) ?c caller i (db w) = (Some (Inl ErrClaimWindowExpired), db w)"
    using claim_abs_applied [OF tr(1,2)] tr(3) by (simp add: claim_settle_def)
qed

lemma claim_after_window_refused_witness:
  "map_prod id db (run_state (ClaimBack ex_env ex_extern ex_service_short 1 7) (ex_world ex_db1)) =
    (Some (Inl ErrClaimWindowExpired), ex_db1)"
  using claim_after_window_refused [of ex_env "ex_world ex_db1" 7 ex_transfer 1 ex_service_short ex_extern]
  by (simp add: tx_time_def ex_service_short_def)

text \<open>
  C21: a transfer is hidden from everyone else. For a caller who is not its sender,
  \<open>ClaimBack\<close> answers exactly as for an id that does not exist, and so does \<open>GetByID\<close> for a
  caller who is neither sender nor recipient. Neither call changes anything, whatever the
  connection does: the tables are those the look at the transfer saw.
\<close>

theorem foreign_transfer_hidden:
  assumes "transfer_with_id i (seen env w) = Some tr" "transfer_with_id j (seen env w) = None"
  shows "(SenderID tr = caller \<or>
      map_prod id db (run_state (ClaimBack env x t caller i) w) =
        (fst (run_state (ClaimBack env x t caller j) w), seen env w)) \<and>
    (SenderID tr = caller \<or> RecipientID tr = caller \<or>
      map_prod id db (run_state (GetByID env caller i) w) = (fst (run_state (GetByID env caller j) w), seen env w))"
  using assms
  by (auto simp: ClaimBack_def GetByID_def run_simps lookup_result_def split: outcome.split)

lemma foreign_transfer_hidden_witness:
  "map_prod id db (run_state (ClaimBack ex_env ex_extern ex_service 2 7) (ex_world ex_db1)) =
     (fst (run_state (ClaimBack ex_env ex_extern ex_service 2 8) (ex_world ex_db1)), ex_db1)"
  using foreign_transfer_hidden [where env = ex_env and w = "ex_world ex_db1" and i = 7 and j = 8 and tr = ex_transfer
      and caller = 2 and x = ex_extern and t = ex_service]
  by (simp add: transfer_with_id_def)

section \<open>Funds\<close>

text \<open>
  C19: the funds check is exact. A fresh valid request succeeds if and only if the sender's
  balance less the active holds covers the amount; then exactly the amount moves from the
  sender to the recipient (a missing wallet counts with its seed) and no other balance
  changes. Otherwise the answer is \<open>ErrInsufficientFunds\<close> and nothing changes.
\<close>

theorem Execute_funds_exact:
  assumes "fault_free env" "quiet env" "schema_ok (db w)" "parties_ok (db w)" "has_user s (db w)"
    and seed: "0 \<le> sint (seedPaise t)" and solv: "solvent (cutoff_at env (tx_time env w) (claimWindow t)) (db w)"
    and req: "fresh_request env s name amount key (db w)" and r: "user_named name (db w) = Some r"
  defines "bs \<equiv> wallet_balance (seedPaise t) s (db w)" and "br \<equiv> wallet_balance (seedPaise t) (uID r) (db w)"
    and "held \<equiv> held_sum (cutoff_at env (tx_time env w) (claimWindow t)) s (db w)"
  assumes fits: "sint br + sint amount < 2 ^ 63"
  shows "if sint amount \<le> sint bs - held
    then \<exists>res w'. run_state (Execute env x t s name amount key) w = (Inr res, w') \<and>
      \<not> Replayed res \<and> NewBalance res = bs - amount \<and>
      sint (bs - amount) = sint bs - sint amount \<and> sint (br + amount) = sint br + sint amount \<and>
      (\<lambda>u. balance_of u (db w')) = (\<lambda>u. balance_of u (db w))(s \<mapsto> bs - amount, uID r \<mapsto> br + amount)
    else map_prod id db (run_state (Execute env x t s name amount key) w) = (Inl ErrInsufficientFunds, db w)"
proof -
  have s: "uID r \<noteq> s" and amt: "0 < sint amount" using req r by (auto simp: fresh_request_def ends_early_def)
  have nn: "0 \<le> sint bs" "0 \<le> sint br" using wallet_balance_nonneg [OF assms(3) seed] by (simp_all add: bs_def br_def)
  have exact: "sint (bs - amount) = sint bs - sint amount" "sint (br + amount) = sint br + sint amount"
    using nn amt fits by (simp_all add: sint_int64_minus_exact sint_int64_plus_exact)
  note decided = execute_abs_decided [OF assms(3,4) solv req r, of x "seedPaise t" "tx_time env w",
    folded bs_def br_def held_def, unfolded Let_def]
  obtain n where run: "fst (run_state (Execute env x t s name amount key) w) = fst (execute_abs x (seedPaise t) (tx_time env w)
       (cutoff_at env (tx_time env w) (claimWindow t)) (pg_uuid env n) s name amount key (db w))"
    "db (snd (run_state (Execute env x t s name amount key) w)) = snd (execute_abs x (seedPaise t) (tx_time env w)
       (cutoff_at env (tx_time env w) (claimWindow t)) (pg_uuid env n) s name amount key (db w))"
    using Execute_implements [OF assms(1,2,3,5) seed] by blast
  show ?thesis
  proof (cases "sint amount \<le> sint bs - held")
    case False
    then show ?thesis using run unfolding decided by (simp add: prod_eq_iff)
  next
    case True
    then show ?thesis
      using run fits exact balances_after_transfer [OF s [symmetric], of "sort_ids x [s, uID r]"] unfolding decided
      by (cases "run_state (Execute env x t s name amount key) w") (simp add: fun_eq_iff s)
  qed
qed

lemma Execute_funds_exact_witness:
  "\<exists>res w'. run_state (Execute ex_env_const ex_extern ex_service 1 ''bob'' 700 ''k2'') (ex_world ex_db1) = (Inr res, w') \<and>
      \<not> Replayed res \<and> NewBalance res = 98800 \<and>
      (\<lambda>u. balance_of u (db w')) = (\<lambda>u. balance_of u ex_db1)(1 \<mapsto> 98800, 2 \<mapsto> 101200)"
proof -
  have "fresh_request ex_env_const 1 ''bob'' 700 ''k2'' ex_db1"
    by (simp add: fresh_request_def ends_early_def transfer_key_def)
  then show ?thesis
    using Execute_funds_exact [of ex_env_const "ex_world ex_db1" 1 ex_service "''bob''" 700 "''k2''" _ ex_extern] ex_solvent
    by (simp add: tx_time_def wallet_balance_def del: fun_upd_apply)
qed

text \<open>
  C25: an amount that would push the recipient past \<open>int64\<close> wraps to a negative balance in
  the Go code; the \<open>CHECK\<close> of the schema turns that into a database error and nothing
  changes. The error is no domain error, so the client is told to retry a request that can
  never succeed.
\<close>

theorem Execute_overflow_rejected:
  assumes "fault_free env" "quiet env" "schema_ok (db w)" "parties_ok (db w)" "has_user s (db w)"
    and "0 \<le> sint (seedPaise t)" and solv: "solvent (cutoff_at env (tx_time env w) (claimWindow t)) (db w)"
    and req: "fresh_request env s name amount key (db w)" and r: "user_named name (db w) = Some r"
    and funds: "sint amount \<le> sint (wallet_balance (seedPaise t) s (db w)) -
      held_sum (cutoff_at env (tx_time env w) (claimWindow t)) s (db w)"
    and wraps: "2 ^ 63 \<le> sint (wallet_balance (seedPaise t) (uID r) (db w)) + sint amount"
  shows "sint (wallet_balance (seedPaise t) (uID r) (db w) + amount) < 0 \<and>
    map_prod id db (run_state (Execute env x t s name amount key) w) = (Inl (PgError ''23514''), db w)"
proof
  have "0 < sint amount" using req by (simp add: fresh_request_def ends_early_def)
  then show "sint (wallet_balance (seedPaise t) (uID r) (db w) + amount) < 0"
    using wraps wallet_balance_nonneg [OF assms(3,6)] by (intro sint_int64_plus_wraps(2)) simp_all
  obtain n where "fst (run_state (Execute env x t s name amount key) w) = fst (execute_abs x (seedPaise t) (tx_time env w)
       (cutoff_at env (tx_time env w) (claimWindow t)) (pg_uuid env n) s name amount key (db w))"
    "db (snd (run_state (Execute env x t s name amount key) w)) = snd (execute_abs x (seedPaise t) (tx_time env w)
       (cutoff_at env (tx_time env w) (claimWindow t)) (pg_uuid env n) s name amount key (db w))"
    using Execute_implements [OF assms(1,2,3,5,6)] by blast
  then show "map_prod id db (run_state (Execute env x t s name amount key) w) = (Inl (PgError ''23514''), db w)"
    using funds wraps unfolding execute_abs_decided [OF assms(3,4) solv req r] Let_def
    by (simp add: prod_eq_iff check_violation_def)
qed

text \<open>A recipient whose balance is one paisa below the maximum.\<close>

definition ex_db_full :: db where
  "ex_db_full = \<lparr>users = ex_users,
     wallets = [\<lparr>wUserID = 1, BalancePaise = 99500, wCreatedAt = -5, wUpdatedAt = -5\<rparr>,
                \<lparr>wUserID = 2, BalancePaise = 9223372036854775806, wCreatedAt = -5, wUpdatedAt = -5\<rparr>],
     transfers = []\<rparr>"

lemma Execute_overflow_rejected_witness:
  "map_prod id db (run_state (Execute ex_env_const ex_extern ex_service 1 ''bob'' 700 ''k2'') (ex_world ex_db_full))
    = (Inl (PgError ''23514''), ex_db_full)"
proof -
  have d: "schema_ok ex_db_full" "parties_ok ex_db_full" "has_user 1 ex_db_full" "solvent c ex_db_full"
    "held_sum c 1 ex_db_full = 0" "balance_of 1 ex_db_full = Some 99500" "balance_of 2 ex_db_full = Some 9223372036854775806" for c
    by (auto simp: ex_db_full_def ex_users_def schema_ok_def users_ok_def wallets_ok_def transfers_ok_def has_user_def
        parties_ok_def solvent_def held_sum_def balance_of_def split: if_splits)
  have u: "user_named ''bob'' ex_db_full = Some \<lparr>uID = 2, Username = ''bob'', PasswordHash = ''$2a$password2'', uCreatedAt = -8\<rparr>"
    by (simp add: ex_db_full_def ex_users_def user_named_def)
  then have "fresh_request ex_env_const 1 ''bob'' 700 ''k2'' ex_db_full"
    by (simp add: fresh_request_def ends_early_def) (simp add: ex_db_full_def)
  then show ?thesis
    using Execute_overflow_rejected [of ex_env_const "ex_world ex_db_full" 1 ex_service "''bob''" 700 "''k2''" _ ex_extern] d u
    by (simp add: tx_time_def wallet_balance_def)
qed

end
