(* ===== verification/Client_Properties.thy ===== *)
theory Client_Properties
  imports Server_Properties Account_Properties Transfer_Properties
begin

text \<open>
  What a client of the API can rely on: a transfer posted twice is applied once, the available
  balance can be spent, and the status of an error says whether a retry makes sense.
\<close>

section \<open>Answers of the transfer endpoint\<close>

definition error_answer :: "goerr \<Rightarrow> http_response" where
  "error_answer err = (case domain_answer err of
      Some resp \<Rightarrow> resp
    | None \<Rightarrow> writeError 503 ''service_unavailable'' ''temporarily unable to process the request; safe to retry'')"

lemma fst_writeDomainError [simp]: "fst (run_state (writeDomainError err) w) = error_answer err"
  by (simp add: writeDomainError_def error_answer_def split: option.split)

lemma error_answer_infra: "infra_error err \<Longrightarrow> RespStatus (error_answer err) = 503"
  by (simp add: error_answer_def domain_answer_infra)

definition create_answer :: "extern \<Rightarrow> goerr + transfer_result \<Rightarrow> http_response" where
  "create_answer x r = (case r of
      Inl err \<Rightarrow> error_answer err
    | Inr result \<Rightarrow>
        (let b = TransferResponse (uuid_String x (TransferID result)) (NewBalance result) in
         if Replayed result then add_header ''Idempotent-Replay'' ''true'' (writeJSON 200 b) else writeJSON 201 b))"

definition post_transfer :: "string \<Rightarrow> TransferRequest \<Rightarrow> http_request" where
  "post_transfer token q = ex_request ''POST'' ''/transfers'' (''Bearer '' @ token) (encode_TransferRequest q)"

lemma run_create_transfer:
  assumes "Body r = Inr (encode_TransferRequest q)"
  shows "map_prod id db (run_state (handle_CreateTransfer env x t r) w) =
    map_prod (Some \<circ> create_answer x) db
      (run_state (Execute env x t (UserID r) (tqToUser q) (tqAmountPaise q) (tqIdempotencyKey q)) w)"
  by (simp add: handle_CreateTransfer_def assms decode_encode_TransferRequest decodeJSON_def create_answer_def
      Let_def split_beta map_prod_def split: sum.split)

lemma run_post_transfer:
  assumes "caller_of env x cfg w (post_transfer token q) = Some u"
  shows "map_prod id db (run_state (NewHandler env henv x cfg (post_transfer token q)) w) =
    map_prod (add_header ''X-Request-Id'' (NewString henv (tick w)) \<circ> create_answer x) db
      (run_state (Execute env x (transfers_of cfg) u (tqToUser q) (tqAmountPaise q) (tqIdempotencyKey q)) w)"
proof -
  let ?r = "post_transfer token q"
  let ?rt = "\<lparr>rtMethod = ''POST'', rtPath = [Lit ''transfers''], rtPattern = ''POST /transfers'', rtAuthed = True,
     rtEndpoint = CreateTransfer_ep\<rparr>"
  let ?r' = "routed ?rt [] ?r\<lparr>CtxUserID := Some u\<rparr>"
  have r': "Body ?r' = Inr (encode_TransferRequest q)" "UserID ?r' = u"
    by (simp_all add: routed_def post_transfer_def ex_request_def UserID_def)
  have h: "run_state (route_handler env henv x cfg ?rt (routed ?rt [] ?r)) w =
      run_state (WithLogger [(''user_id'', AUuid u)] (handle_CreateTransfer env x (transfers_of cfg) ?r')) w"
    using authenticate_caller [of env x cfg w "routed ?rt [] ?r" u] assms by (simp add: route_handler_def Routes_def)
  obtain o1 w1 where run: "run_state (handle_CreateTransfer env x (transfers_of cfg) ?r') w = (o1, w1)" by force
  then obtain resp where o1: "o1 = Some resp" and
    eq: "map_prod id db (Some resp, w1) = map_prod (Some \<circ> create_answer x) db
      (run_state (Execute env x (transfers_of cfg) u (tqToUser q) (tqAmountPaise q) (tqIdempotencyKey q)) w)"
    using run_create_transfer [OF r'(1), of env x "transfers_of cfg" w] r'(2) by (auto simp: map_prod_def split_beta)
  have "run_state (NewHandler env henv x cfg ?r) w =
      (add_header ''X-Request-Id'' (NewString henv (tick w)) resp, counted henv ?r resp w (scoped [(''user_id'', AUuid u)] w w1))"
    by (rule run_NewHandler_route [where rt = ?rt and ids = "[]"])
      (simp_all add: h run o1, simp_all add: post_transfer_def ex_routes)
  with eq show ?thesis by (simp add: map_prod_def split_beta)
qed

section \<open>Posting a transfer twice\<close>

text \<open>
  C16: a client that never learned the outcome may post the transfer again. If a
  \<open>POST /transfers\<close> changed the tables, its answer was the 201 of the transfer or a 503, and
  posting the same request again over a working connection answers 200 with
  \<open>Idempotent-Replay\<close>, the id of the one transfer applied and the balance it left, and changes
  nothing.
\<close>

theorem post_transfer_twice:
  assumes first: "run_state (NewHandler env henv x cfg (post_transfer token q)) w = (resp, w1)" "quiet env" "db w1 \<noteq> db w"
    and ok: "schema_ok (db w)" "parties_ok (db w)" "solvent (cutoff_at env (tx_time env w) (ClaimWindow cfg)) (db w)"
      "0 \<le> sint (InitialBalancePaise cfg)"
    and caller: "caller_of env x cfg w (post_transfer token q) = Some u"
      "caller_of env2 x cfg w1 (post_transfer token q) = Some u"
    and retry: "fault_free env2" "quiet env2"
      "cutoff_at env (tx_time env w) (ClaimWindow cfg) \<le> cutoff_at env2 (tx_time env2 w1) (ClaimWindow cfg)"
  shows "\<exists>rcpt n res. user_named (tqToUser q) (db w) = Some rcpt \<and>
    transfer_spec (tx_time env w) (cutoff_at env (tx_time env w) (ClaimWindow cfg)) (InitialBalancePaise cfg)
      (sort_ids x [u, uID rcpt]) (pg_uuid env n) u (uID rcpt) (tqAmountPaise q) (tqIdempotencyKey q)
      (hashBody (tqToUser q) (tqAmountPaise q)) (db w) = Inr (res, db w1) \<and>
    (RespStatus resp = 201 \<and> RespBody resp = BodyJSON (TransferResponse (uuid_String x (TransferID res)) (NewBalance res)) \<or>
     RespStatus resp = 503) \<and>
    (let (resp2, w2) = run_state (NewHandler env2 henv x cfg (post_transfer token q)) w1 in
      RespStatus resp2 = 200 \<and> (''Idempotent-Replay'', ''true'') \<in> set (RespHeaders resp2) \<and>
      RespBody resp2 = BodyJSON (TransferResponse (uuid_String x (TransferID res)) (NewBalance res)) \<and> db w2 = db w1)"
proof -
  let ?t = "transfers_of cfg"
  have t: "claimWindow ?t = ClaimWindow cfg" "seedPaise ?t = InitialBalancePaise cfg" by (simp_all add: transfers_of_def)
  obtain r w1' where ex1: "run_state (Execute env x ?t u (tqToUser q) (tqAmountPaise q) (tqIdempotencyKey q)) w = (r, w1')"
    by force
  with run_post_transfer [OF caller(1), of henv] first(1)
  have resp: "resp = add_header ''X-Request-Id'' (NewString henv (tick w)) (create_answer x r)" and w1: "db w1' = db w1"
    by simp_all
  have "db w1' \<noteq> db w" using first(3) w1 by simp
  from Execute_retry [OF ex1 first(2) this ok(1,2), unfolded t, OF ok(3,4) w1 [symmetric] retry]
  obtain rcpt n res where rcpt: "user_named (tqToUser q) (db w) = Some rcpt" and
    spec: "transfer_spec (tx_time env w) (cutoff_at env (tx_time env w) (ClaimWindow cfg)) (InitialBalancePaise cfg)
      (sort_ids x [u, uID rcpt]) (pg_uuid env n) u (uID rcpt) (tqAmountPaise q) (tqIdempotencyKey q)
      (hashBody (tqToUser q) (tqAmountPaise q)) (db w) = Inr (res, db w1)"
    and r: "r = Inr res \<or> lost_reply r"
    and again: "map_prod id db (run_state (Execute env2 x ?t u (tqToUser q) (tqAmountPaise q) (tqIdempotencyKey q)) w1) =
      (Inr (res\<lparr>Replayed := True\<rparr>), db w1)"
    unfolding w1 by blast
  have "\<not> Replayed res" using spec by (auto elim: transfer_specE)
  with r have "RespStatus resp = 201 \<and>
      RespBody resp = BodyJSON (TransferResponse (uuid_String x (TransferID res)) (NewBalance res)) \<or> RespStatus resp = 503"
    by (auto simp: resp create_answer_def Let_def lost_reply_def error_answer_infra)
       (simp_all add: add_header_def writeJSON_def)
  moreover have "run_state (Execute env2 x ?t u (tqToUser q) (tqAmountPaise q) (tqIdempotencyKey q)) w1 = (Inr (res\<lparr>Replayed := True\<rparr>), w2)
      \<Longrightarrow> db w2 = db w1" for w2 using again by simp
  moreover note run_post_transfer [OF caller(2), of henv]
  ultimately show ?thesis
    using rcpt spec again
    by (intro exI conjI) (auto simp: map_prod_def split_beta create_answer_def Let_def add_header_def writeJSON_def)
qed

definition ex_token :: string where
  "ex_token = fmt_d 0 @ CHR ''|'' # fmt_d 1000 @ CHR ''|'' # fmt_d 1"

definition ex_order :: TransferRequest where
  "ex_order = \<lparr>tqToUser = ''bob'', tqAmountPaise = 700, tqIdempotencyKey = ''k2''\<rparr>"

definition ex_env_still :: pgenv where
  "ex_env_still = ex_env\<lparr>go_clock := (\<lambda>n. 0)\<rparr>"

lemma ex_env_still_simps [simp]:
  "fault_free ex_env_still" "quiet ex_env_still" "pg_clock ex_env_still n = int n" "go_clock ex_env_still n = 0"
  "cutoff_at ex_env_still now win = now - win div 1000"
  by (simp_all add: ex_env_still_def ex_env_def fault_free_def quiet_def cutoff_at_def)

lemma ex_caller: "go_clock env (tick w) < 1000 \<Longrightarrow> caller_of env ex_extern ex_config w (post_transfer ex_token q) = Some 1"
  by (simp add: caller_of_def bearer_def post_transfer_def VerifyToken_def ex_extern_def auth_of_def ex_token_def
      ex_parse_sign digit_val_def)

lemma post_transfer_twice_witness:
  "RespStatus (fst (run_state (NewHandler (ex_env_lost 10) ex_http ex_extern ex_config (post_transfer ex_token ex_order)) (ex_world ex_db1))) \<in> {201, 503} \<and>
   RespStatus (fst (run_state (NewHandler ex_env_still ex_http ex_extern ex_config (post_transfer ex_token ex_order))
     (snd (run_state (NewHandler (ex_env_lost 10) ex_http ex_extern ex_config (post_transfer ex_token ex_order)) (ex_world ex_db1))))) = 200"
proof -
  let ?m = "NewHandler (ex_env_lost 10) ex_http ex_extern ex_config (post_transfer ex_token ex_order)"
  obtain resp w1 where run: "run_state ?m (ex_world ex_db1) = (resp, w1)" by force
  have caller: "caller_of (ex_env_lost 10) ex_extern ex_config (ex_world ex_db1) (post_transfer ex_token ex_order) = Some 1"
    by (rule ex_caller) (simp add: ex_env_lost_def ex_env_def)
  have "transfers_of ex_config = ex_service" by (simp add: transfers_of_def ex_service_def)
  then have "db w1 = ex_db2"
    using run_post_transfer [OF caller, of ex_http] ex_run_lost unfolding run by (simp add: ex_order_def)
  then have "db w1 \<noteq> db (ex_world ex_db1)" by (simp add: ex_db2_neq)
  from post_transfer_twice [OF run _ this _ _ _ _ caller, of ex_env_still] ex_solvent
  show ?thesis
    by (simp add: run ex_caller tx_time_def split_beta Let_def) blast
qed

section \<open>Spending the available balance\<close>



section \<open>Errors\<close>

text \<open>The status of an error, found under any wrapping.\<close>

fun error_status :: "goerr \<Rightarrow> nat" where
  "error_status (ValidationError msg) = 400"
| "error_status ErrSelfTransfer = 400"
| "error_status ErrInvalidCredentials = 401"
| "error_status ErrUnknownRecipient = 404"
| "error_status ErrNoWallet = 404"
| "error_status ErrNotFound = 404"
| "error_status ErrUsernameTaken = 409"
| "error_status ErrIdempotencyConflict = 409"
| "error_status ErrClaimWindowExpired = 409"
| "error_status ErrInsufficientFunds = 422"
| "error_status (Wrapped prefix e) = error_status e"
| "error_status _ = 503"

lemma domain_answer_Wrapped: "domain_answer (Wrapped p e) = domain_answer e"
  by (simp only: domain_answer_def errors_As_validation.simps errors_Is.simps goerr.distinct simp_thms)

lemma domain_answer_statuses:
  "map_option RespStatus (domain_answer err) =
    (case errors_As_validation err of Some msg \<Rightarrow> Some 400 | None \<Rightarrow>
      if errors_Is err ErrUsernameTaken then Some 409 else if errors_Is err ErrInvalidCredentials then Some 401
      else if errors_Is err ErrUnknownRecipient then Some 404 else if errors_Is err ErrSelfTransfer then Some 400
      else if errors_Is err ErrNoWallet then Some 404 else if errors_Is err ErrInsufficientFunds then Some 422
      else if errors_Is err ErrIdempotencyConflict then Some 409 else if errors_Is err ErrClaimWindowExpired then Some 409
      else if errors_Is err ErrNotFound then Some 404 else None)"
  unfolding domain_answer_def
  by (cases "errors_As_validation err")
    (simp_all only: option.case if_distrib [of "map_option RespStatus"] option.map status_simps)

lemma domain_answer_error_status:
  "map_option RespStatus (domain_answer err) = (if error_status err = 503 then None else Some (error_status err))"
proof (induction err)
  case (Wrapped p e)
  then show ?case by (simp add: domain_answer_Wrapped)
qed (simp_all add: domain_answer_statuses)

lemma domain_answer_None: "domain_answer err = None \<Longrightarrow> error_status err = 503"
  using domain_answer_error_status [of err] by (simp split: if_splits)

lemma domain_answer_Some: "domain_answer err = Some resp \<Longrightarrow> RespStatus resp = error_status err"
  using domain_answer_error_status [of err] by (simp split: if_splits)

lemma infra_error_status: "infra_error err \<Longrightarrow> error_status err = 503"
  by (induction err) simp_all

text \<open>
  C33: a client learns from the status whether to retry. Every domain error, however it is
  wrapped, is answered with its own 4xx status, and every other error, in particular every
  error of the driver or the connection, with 503; only a 503 leaves a line in the log, and
  answering touches neither the tables nor the counters.
\<close>

theorem error_statuses:
  "map_prod RespStatus id (run_state (writeDomainError err) w) =
    (error_status err, w\<lparr>logs := logs w @
      (if error_status err = 503 then [log_error ''db_unavailable'' [(''error'', AText (error_text err))]] else [])\<rparr>)"
proof (cases "domain_answer err")
  case None
  then show ?thesis by (simp add: writeDomainError_def domain_answer_None)
next
  case (Some resp)
  then show ?thesis using domain_answer_Some [OF Some] domain_answer_status [OF Some] by (auto simp: writeDomainError_def)
qed

end
