(* ===== verification/Edge_Properties.thy ===== *)
theory Edge_Properties
  imports Server_Properties
begin

text \<open>
  Properties of the edges of the server: the configuration it starts with, the requests it
  decodes, the routes it dispatches to, and the log it serves.
\<close>

section \<open>Configuration\<close>

definition balance_var :: string where "balance_var = ''INITIAL_BALANCE_PAISE''"



lemma digit_val_nonneg: "is_digit c \<Longrightarrow> 0 \<le> digit_val c"
  by (simp add: is_digit_def digit_val_def)

lemma value10_ge: "list_all is_digit ds \<Longrightarrow> 0 \<le> v \<Longrightarrow> v \<le> value10 v ds"
proof (induction ds arbitrary: v)
  case (Cons d ds)
  then have "0 \<le> digit_val d" using digit_val_nonneg by simp
  then have "v \<le> 10 * v + digit_val d" "0 \<le> 10 * v + digit_val d" using Cons.prems by simp_all
  with Cons.IH [of "10 * v + digit_val d"] Cons.prems(1) show ?case by simp
qed simp

lemma leading_int_digits:
  "list_all is_digit ds \<Longrightarrow> 0 \<le> v \<Longrightarrow> value10 v ds \<le> two63 \<Longrightarrow> (case rest of [] \<Rightarrow> True | c # _ \<Rightarrow> \<not> is_digit c) \<Longrightarrow>
   leading_int v (ds @ rest) = Some (value10 v ds, rest)"
proof (induction ds arbitrary: v)
  case Nil
  then show ?case by (cases rest) simp_all
next
  case (Cons d ds)
  let ?v = "10 * v + digit_val d"
  have d: "0 \<le> digit_val d" using Cons.prems digit_val_nonneg by simp
  have "?v \<le> two63" using value10_ge [of ds ?v] Cons.prems d by simp
  moreover from this have "v \<le> two63 div 10" using d by (simp add: two63_def)
  ultimately show ?case
    using Cons.IH [of ?v] Cons.prems d by (simp add: mult.commute)
qed

lemma ParseDuration_hours:
  assumes "0 < n" "n \<le> 2562047"
  shows "ParseDuration frac (fmt_d n @ ''h'') = Some (hours n)"
proof -
  let ?ds = "digits10 (nat n)"
  obtain c cs where ds: "?ds = c # cs" using digits10_not_Nil by (metis neq_Nil_conv)
  then have c: "is_digit c" "c \<noteq> CHR ''-''" "c \<noteq> CHR ''+''" "c \<noteq> CHR ''.''"
    using digits10_hd_digit [OF ds] is_digit_not_special by (auto simp: is_digit_def)
  have v: "value10 0 ?ds = n" using assms(1) by (simp add: value10_digits10)
  have "leading_int 0 (?ds @ ''h'') = Some (n, ''h'')"
    using leading_int_digits [of ?ds 0 "''h''"] v assms by (simp add: digits10_all_digits two63_def is_digit_def)
  then have "duration_term frac (?ds @ ''h'') = Some (hours n, [])"
    using c(1) assms by (simp add: duration_term_def ds fraction_part_def unit_part_def unit_ns_def is_digit_def hours_def two63_def)
  then have "duration_terms (length (?ds @ ''h'')) frac 0 (?ds @ ''h'') = Some (hours n)"
    using assms by (simp add: ds hours_def two63_def)
  moreover have "fmt_d n = ?ds" using assms(1) by (simp add: fmt_d_def)
  ultimately show ?thesis
    using c assms by (simp add: ParseDuration_def ds hours_def two63_def)
qed

text \<open>
  C36: the configuration reads back what an operator prints into it. A non-negative seed
  printed in decimal and a window printed as whole hours are loaded as exactly that seed and
  that number of nanoseconds.
\<close>

theorem Load_reads_back:
  assumes "0 \<le> sint seed" "0 < n" "n \<le> 2562047"
    and "getenv ''DATABASE_URL'' \<noteq> []" "16 \<le> length (getenv ''JWT_SECRET'')"
    and "getenv balance_var = fmt_d (sint seed)" "getenv ''CLAIM_WINDOW'' = fmt_d n @ ''h''"
  shows "\<exists>cfg. Load frac getenv = Inr cfg \<and> InitialBalancePaise cfg = seed \<and> ClaimWindow cfg = n * 3600000000000"
proof -
  have "fmt_d (sint seed) \<noteq> []" by (simp add: fmt_d_def)
  then show ?thesis
    using assms by (simp add: Load_def Let_def balance_var_def parse_int64_fmt_d ParseDuration_hours int64_sless_iff hours_def)
qed

lemma Load_reads_back_witness:
  "\<exists>cfg. Load (\<lambda>v n s. 0) (\<lambda>k. if k = balance_var then fmt_d (sint (2500 :: int64)) else if k = ''CLAIM_WINDOW'' then fmt_d 48 @ ''h'' else ex_getenv k)
     = Inr cfg \<and> InitialBalancePaise cfg = 2500 \<and> ClaimWindow cfg = 172800000000000"
  using Load_reads_back [of 2500 48 "\<lambda>k. if k = balance_var then fmt_d (sint (2500 :: int64)) else if k = ''CLAIM_WINDOW'' then fmt_d 48 @ ''h'' else ex_getenv k" "\<lambda>v n s. 0"]
  by (simp add: ex_getenv_def balance_var_def)

section \<open>Decoding\<close>

lemma decode_members_exact:
  "(\<And>k v. (k, v) \<in> set kvs \<Longrightarrow> \<exists>f. find_field fs k = Some f \<and> fst f = k \<and> decode_field f v = Inr (Some (g k))) \<Longrightarrow>
   decode_members fs kvs vals None = Inr (\<lambda>n. if n \<in> fst ` set kvs then g n else vals n)"
proof (induction kvs arbitrary: vals)
  case Nil
  then show ?case by simp
next
  case (Cons kv kvs)
  obtain k v where kv: "kv = (k, v)" by force
  obtain f where f: "find_field fs k = Some f" "fst f = k" "decode_field f v = Inr (Some (g k))"
    using Cons.prems [of k v] kv by auto
  have "decode_members fs kvs (vals(k := g k)) None = Inr (\<lambda>n. if n \<in> fst ` set kvs then g n else (vals(k := g k)) n)"
    using Cons by simp
  then show ?case using f by (auto simp: kv fun_eq_iff)
qed

lemma decode_members_error: "decode_members fs kvs vals (Some e) = Inl e"
  by (induction kvs arbitrary: vals) (auto simp: Let_def split: option.split sum.split)

lemma decode_members_unknown:
  "(k, v) \<in> set kvs \<Longrightarrow> find_field fs k = None \<Longrightarrow> \<exists>e. decode_members fs kvs vals saved = Inl e"
proof (induction kvs arbitrary: vals saved)
  case (Cons kv kvs)
  show ?case
  proof (cases "kv = (k, v)")
    case True
    then show ?thesis using Cons.prems(2) by (cases saved) (simp_all add: decode_members_error)
  next
    case False
    then show ?thesis
      using Cons by (cases kv) (auto simp: Let_def split: option.split sum.split)
  qed
qed simp

text \<open>
  A transfer request arrives as it was sent. An object with the three members of a
  request, in any order and even repeated, decodes to that request; an object with any other
  member is refused.
\<close>

theorem TransferRequest_roundtrip:
  "(set kvs = {(''to_user'', JString (tqToUser q)), (''amount_paise'', JInt (tqAmountPaise q)),
      (''idempotency_key'', JString (tqIdempotencyKey q))} \<longrightarrow> decode_TransferRequest (Inr (JObject kvs)) = Inr q) \<and>
   ((\<exists>k \<in> fst ` set kvs. fold_key k \<notin> {''TO_USER'', ''AMOUNT_PAISE'', ''IDEMPOTENCY_KEY''}) \<longrightarrow>
      (\<exists>e. decode_TransferRequest (Inr (JObject kvs)) = Inl e))"
proof (intro conjI impI)
  let ?fs = "[(''to_user'', FString), (''amount_paise'', FInt64), (''idempotency_key'', FString)]"
  let ?zero = "\<lambda>n. case map_of ?fs n of None \<Rightarrow> VString [] | Some k \<Rightarrow> field_zero k"
  let ?g = "\<lambda>k. if k = ''amount_paise'' then VInt64 (tqAmountPaise q)
     else VString (if k = ''to_user'' then tqToUser q else tqIdempotencyKey q)"
  assume kvs: "set kvs = {(''to_user'', JString (tqToUser q)), (''amount_paise'', JInt (tqAmountPaise q)),
      (''idempotency_key'', JString (tqIdempotencyKey q))}"
  have "decode_members ?fs kvs ?zero None = Inr (\<lambda>n. if n \<in> fst ` set kvs then ?g n else ?zero n)"
  proof (rule decode_members_exact)
    fix k v assume "(k, v) \<in> set kvs"
    then consider "k = ''to_user''" "v = JString (tqToUser q)" | "k = ''amount_paise''" "v = JInt (tqAmountPaise q)"
      | "k = ''idempotency_key''" "v = JString (tqIdempotencyKey q)"
      unfolding kvs by blast
    then show "\<exists>f. find_field ?fs k = Some f \<and> fst f = k \<and> decode_field f v = Inr (Some (?g k))"
      by cases (simp_all add: find_field_def decode_field_def JInt_def parse_int64_fmt_d)
  qed
  then show "decode_TransferRequest (Inr (JObject kvs)) = Inr q"
    by (simp add: decode_TransferRequest_def decode_struct_def Let_def kvs get_string_def get_int64_def)
next
  let ?fs = "[(''to_user'', FString), (''amount_paise'', FInt64), (''idempotency_key'', FString)]"
  assume "\<exists>k \<in> fst ` set kvs. fold_key k \<notin> {''TO_USER'', ''AMOUNT_PAISE'', ''IDEMPOTENCY_KEY''}"
  then obtain k v where kv: "(k, v) \<in> set kvs" "fold_key k \<notin> {''TO_USER'', ''AMOUNT_PAISE'', ''IDEMPOTENCY_KEY''}" by auto
  have names: "fold_key ''to_user'' = ''TO_USER''" "fold_key ''amount_paise'' = ''AMOUNT_PAISE''"
    "fold_key ''idempotency_key'' = ''IDEMPOTENCY_KEY''"
    by code_simp+
  have "find_field ?fs k = None"
  proof -
    have "k \<noteq> ''to_user''" "k \<noteq> ''amount_paise''" "k \<noteq> ''idempotency_key''" using kv(2) names by auto
    then show ?thesis using kv(2) unfolding find_field_def by (auto simp: names)
  qed
  from decode_members_unknown [OF kv(1) this] obtain e
    where "decode_members ?fs kvs (\<lambda>n. case map_of ?fs n of None \<Rightarrow> VString [] | Some k \<Rightarrow> field_zero k) None = Inl e" by blast
  then have "decode_TransferRequest (Inr (JObject kvs)) = Inl e"
    by (simp add: decode_TransferRequest_def decode_struct_def Let_def del: map_of.simps)
  then show "\<exists>e. decode_TransferRequest (Inr (JObject kvs)) = Inl e" by blast
qed

lemma TransferRequest_roundtrip_witness:
  "decode_TransferRequest (Inr (JObject [(''amount_paise'', JInt 700), (''idempotency_key'', JString ''k''), (''to_user'', JString ''bob'')]))
    = Inr \<lparr>tqToUser = ''bob'', tqAmountPaise = 700, tqIdempotencyKey = ''k''\<rparr>"
  using TransferRequest_roundtrip [of "[(''amount_paise'', JInt 700), (''idempotency_key'', JString ''k''), (''to_user'', JString ''bob'')]"
      "\<lparr>tqToUser = ''bob'', tqAmountPaise = 700, tqIdempotencyKey = ''k''\<rparr>"]
  by (auto simp: insert_commute)

section \<open>Routing\<close>

text \<open>
  No two routes overlap. Whatever the method and the path, at most one entry of the route
  table matches, so the outcome does not depend on the order or the precedence of patterns.
\<close>

theorem routes_unambiguous:
  "length (filter (\<lambda>rt. method_matches (rtMethod rt) m \<and> match_segs (rtPath rt) (segments path) \<noteq> None) routes_table) \<le> 1"
proof -
  have g: "method_matches ''GET'' m \<Longrightarrow> \<not> method_matches ''POST'' m" by (auto simp: method_matches_def)
  consider "segments path = []" | a where "segments path = [a]" | a b where "segments path = [a, b]"
    | a b c where "segments path = [a, b, c]" | a b c d ss where "segments path = a # b # c # d # ss"
    by (metis list.exhaust)
  then show ?thesis
  proof cases
    case 1
    then show ?thesis by (simp add: routes_table_def)
  next
    case (2 a)
    then show ?thesis using g by (cases "method_matches ''POST'' m"; cases "method_matches ''GET'' m") (auto simp: routes_table_def)
  next
    case (3 a b)
    then show ?thesis using g by (cases "method_matches ''POST'' m"; cases "method_matches ''GET'' m") (auto simp: routes_table_def)
  next
    case (4 a b c)
    then show ?thesis using g by (auto simp: routes_table_def)
  next
    case 5
    then show ?thesis by (simp add: routes_table_def)
  qed
qed

section \<open>The log\<close>

lemma ring_write_all:
  "ring_max r = int m \<Longrightarrow> length (ring_lines r) \<le> m \<Longrightarrow>
   fold (\<lambda>p o'. Option.bind o' (\<lambda>r. map_option snd (Write p r))) ps (Some r) =
     Some (r\<lparr>ring_lines := last_n m (ring_lines r @ concat (map (lines_of []) ps))\<rparr>)"
proof (induction ps arbitrary: r)
  case Nil
  then show ?case by (simp add: last_n_def)
next
  case (Cons p ps)
  then show ?case by (simp add: Write_last_n last_n_last_n_append)
qed

text \<open>A positive limit serves the last that many lines, any other limit all.\<close>

lemma ring_served_last:
  "ring_served q r = (case parse_int64 q of
       None \<Rightarrow> Snapshot r
     | Some n \<Rightarrow> if sint n > 0 then last_n (nat (sint n)) (Snapshot r) else Snapshot r)"
proof -
  have none: "parse_int64 [] = None" by (simp add: parse_int64.simps)
  have limit: "drop (nat (int (length ls) - i)) ls = last_n (nat i) ls" if "0 < i" for i and ls :: "string list"
  proof -
    have "nat (int (length ls) - i) = length ls - nat i" using that by arith
    then show ?thesis by (simp add: last_n_def)
  qed
  have all: "last_n (nat i) ls = ls" if "int (length ls) \<le> i" for i and ls :: "string list"
    using that by (simp add: last_n_def)
  show ?thesis
    using limit all by (simp add: Snapshot_def ring_served_def Let_def none split: option.split del: length_last_n)
qed

text \<open>
  Whatever chunks the logger writes, also chunks with several lines or empty ones, the ring holds
  exactly the last \<open>max\<close> non-empty lines written.
\<close>

theorem ring_serves_last:
  "case fold (\<lambda>p r. Option.bind r (\<lambda>r. map_option snd (Write p r))) ps (Some (NewRing (int m))) of
     None \<Rightarrow> False
   | Some r \<Rightarrow> Snapshot r = last_n m (concat (map (lines_of []) ps)) \<and>
       ring_served q r = (case parse_int64 q of
           None \<Rightarrow> Snapshot r
         | Some n \<Rightarrow> if sint n > 0 then last_n (nat (sint n)) (Snapshot r) else Snapshot r)"
  by (simp add: ring_write_all NewRing_def Snapshot_def ring_served_last split: option.split del: length_last_n)

text \<open>
  C39: \<open>GET /logs\<close> serves the last lines of the log. After any history of the logger the endpoint
  answers 200 with exactly the last 1000 non-empty lines of the records whose lines stdout took,
  one per line, oldest first, and a positive limit cuts that to exactly the last that many; a
  limit that is absent, malformed or not positive serves all.
\<close>

theorem logs_endpoint_serves_last:
  "fst (run_state (handle_Logs henv r) w) = Some
     \<lparr>RespStatus = 200, RespHeaders = [(''Content-Type'', ''application/x-ndjson'')],
      RespBody = BodyText (concat (map (\<lambda>l. l @ [CHR 0x0A])
        (let ls = last_n 1000 (concat (map (lines_of [] \<circ> slog_line henv) (taken (stdout_ok henv) 0 (logs w)))) in
         case parse_int64 (LimitParam r) of
           None \<Rightarrow> ls
         | Some n \<Rightarrow> if sint n > 0 then last_n (nat (sint n)) ls else ls)))\<rparr>"
  by (simp add: handle_Logs_def ring_of_lines ring_ServeHTTP_def ring_served_last Snapshot_def Let_def split: option.split)

end
