(* ===== verification/Concurrency.thy ===== *)
theory Concurrency
  imports Ledger "HOL-Library.Product_Lexorder"
begin

text \<open>
  The transactions of the service interleaved statement by statement, as Postgres runs them at
  \<open>READ COMMITTED\<close>. A session holds the rest of its closure, the time of its \<open>BEGIN\<close>, the
  writes it has staged and the locks it has taken; each statement sees the committed tables
  with the session's own writes. A statement that needs a lock another session holds waits:
  \<open>SELECT ... FOR UPDATE\<close> and \<open>UPDATE\<close> need the row, an insert under a unique key needs the key
  while another session has staged a row with it. Commit publishes the staged writes; rollback,
  or the loss of the connection, drops them.
\<close>

section \<open>Locks\<close>

datatype resource =
    WalletKey uuid            \<comment> \<open>an uncommitted wallet of that user\<close>
  | WalletRow uuid            \<comment> \<open>the row lock of a wallet\<close>
  | TransferKey uuid string   \<comment> \<open>an uncommitted transfer with that idempotency key\<close>
  | TransferRow uuid          \<comment> \<open>an uncommitted transfer with that id, or the row lock of one\<close>

text \<open>The locks the next statement needs, given the tables it sees and the fresh id.\<close>

primrec needs :: "(duration \<Rightarrow> pgtime) \<Rightarrow> uuid \<Rightarrow> db \<Rightarrow> 'a txp \<Rightarrow> resource set" where
  "needs cu fresh d (TxReturn r) = {}"
| "needs cu fresh d (WalletExists u k) = {}"
| "needs cu fresh d (InsertWallet u b k) = (if has_wallet u d then {} else {WalletKey u})"
| "needs cu fresh d (LockWallet u k) = (if has_wallet u d then {WalletRow u} else {})"
| "needs cu fresh d (InsertTransfer t k) =
     (if transfer_key t \<in> transfer_key ` set (transfers d) then {}
      else {TransferKey (SenderID t) (IdempotencyKey t), TransferRow fresh})"
| "needs cu fresh d (SumActiveHolds u win k) = {}"
| "needs cu fresh d (MarkReversed i win b k) =
     (if \<exists>t \<in> set (transfers d). trID t = i \<and> active_hold (cu win) t then {TransferRow i} else {})"
| "needs cu fresh d (UpdateWalletBalance u b k) = (if has_wallet u d then {WalletRow u} else {})"
| "needs cu fresh d (TxObserve m l k) = {}"

section \<open>One statement\<close>

definition continue_with :: "(goerr + 'b \<Rightarrow> 'a txp) \<Rightarrow> 'b sql_result \<Rightarrow> ('a txp \<times> db_write list) option" where
  "continue_with k res = Some (k (fst res), snd res)"

primrec tx_next ::
  "(duration \<Rightarrow> pgtime) \<Rightarrow> pgtime \<Rightarrow> uuid \<Rightarrow> db \<Rightarrow> 'a txp \<Rightarrow> ('a txp \<times> db_write list) option" where
  "tx_next cu now fresh d (TxReturn r) = None"
| "tx_next cu now fresh d (WalletExists u k) = continue_with k (Tx_WalletExists Fine u d)"
| "tx_next cu now fresh d (InsertWallet u b k) = continue_with k (Tx_InsertWallet Fine now u b d)"
| "tx_next cu now fresh d (LockWallet u k) = continue_with k (Tx_LockWallet Fine u d)"
| "tx_next cu now fresh d (InsertTransfer t k) = continue_with k (Tx_InsertTransfer Fine now fresh t d)"
| "tx_next cu now fresh d (SumActiveHolds u win k) = continue_with k (Tx_SumActiveHolds Fine (cu win) u d)"
| "tx_next cu now fresh d (MarkReversed i win b k) = continue_with k (Tx_MarkReversed Fine now (cu win) i b d)"
| "tx_next cu now fresh d (UpdateWalletBalance u b k) = continue_with k (Tx_UpdateWalletBalance Fine now u b d)"
| "tx_next cu now fresh d (TxObserve m l k) = Some (k, [])"

text \<open>What each statement returns on a connection that works.\<close>

lemma Tx_Fine:
  "Tx_WalletExists Fine u d = (Inr (has_wallet u d), [])"
  "Tx_InsertWallet Fine now u b d =
     (if sint b < 0 then (Inl check_violation, []) else if has_wallet u d then (Inr False, [])
      else if \<not> has_user u d then (Inl fk_violation, [])
      else (Inr True, [InsWallet \<lparr>wUserID = u, BalancePaise = b, wCreatedAt = now, wUpdatedAt = now\<rparr>]))"
  "Tx_LockWallet Fine u d =
     (case balance_of u d of None \<Rightarrow> (Inl RepoErrNotFound, []) | Some b \<Rightarrow> (Inr b, []))"
  "Tx_SumActiveHolds Fine c u d =
     (if fits_int64 (held_sum c u d) then (Inr (word_of_int (held_sum c u d)), [])
      else (Inl (OtherError ''numeric out of int64 range''), []))"
  "Tx_InsertTransfer Fine now fresh t d =
     (if sint (AmountPaise t) \<le> 0 then (Inl check_violation, [])
      else if transfer_key t \<in> transfer_key ` set (transfers d) then (Inr (0, False), [])
      else if fresh \<in> trID ` set (transfers d) then (Inl unique_violation, [])
      else if \<not> has_user (SenderID t) d \<or> \<not> has_user (RecipientID t) d then (Inl fk_violation, [])
      else (Inr (fresh, True), [InsTransfer (new_transfer_row now fresh t)]))"
  "Tx_MarkReversed Fine now c i b d =
     (if \<exists>t \<in> set (transfers d). trID t = i \<and> active_hold c t then (Inr (now, True), [SetReversed i now b])
      else (Inr (0, False), []))"
  "Tx_UpdateWalletBalance Fine now u b d =
     (if has_wallet u d then (if sint b < 0 then (Inl check_violation, []) else (Inr (), [SetBalance u b now]))
      else (Inr (), []))"
  by (auto simp: Tx_WalletExists_def Tx_InsertWallet_def Tx_LockWallet_def Tx_SumActiveHolds_def Tx_InsertTransfer_def
      Tx_MarkReversed_def Tx_UpdateWalletBalance_def deliver_def sql_wallet_exists_def sql_insert_wallet_def sql_balance_def
      sql_sum_active_holds_def scan_int64_def sql_insert_transfer_def sql_mark_reversed_def sql_update_balance_def
      row_result_def balance_of_def check_violation_def unique_violation_def fk_violation_def split: option.splits)

section \<open>Sessions\<close>

record 'a session =
  prog :: "'a txp"
  began :: pgtime
  staged :: "db_write list"
  held :: "resource set"

record 'a sys =
  committed :: db
  sess :: "nat \<Rightarrow> 'a session option"
  pg_now :: pgtime

definition view :: "'a session \<Rightarrow> db \<Rightarrow> db" where
  "view s d = apply_writes (staged s) d"

definition start :: "pgtime \<Rightarrow> 'a txp \<Rightarrow> 'a session" where
  "start now p = \<lparr>prog = p, began = now, staged = [], held = {}\<rparr>"

definition granted :: "'a sys \<Rightarrow> nat \<Rightarrow> resource set \<Rightarrow> bool" where
  "granted S i R \<longleftrightarrow> (\<forall>j s. j \<noteq> i \<longrightarrow> sess S j = Some s \<longrightarrow> held s \<inter> R = {})"

text \<open>A step of session \<open>i\<close>; \<open>cu now win\<close> is \<open>now - make_interval(secs => win)\<close>.\<close>

inductive session_step :: "(pgtime \<Rightarrow> duration \<Rightarrow> pgtime) \<Rightarrow> nat \<Rightarrow> 'a sys \<Rightarrow> 'a sys \<Rightarrow> bool"
  for cu :: "pgtime \<Rightarrow> duration \<Rightarrow> pgtime" and i :: nat where
  statement: "sess S i = Some s \<Longrightarrow>
     tx_next (cu (began s)) (began s) fresh (view s (committed S)) (prog s) = Some (p, ws) \<Longrightarrow>
     granted S i (needs (cu (began s)) fresh (view s (committed S)) (prog s)) \<Longrightarrow>
     session_step cu i S (S\<lparr>sess := (sess S)(i \<mapsto> s\<lparr>prog := p, staged := staged s @ ws,
       held := held s \<union> needs (cu (began s)) fresh (view s (committed S)) (prog s)\<rparr>)\<rparr>)"
| commit: "sess S i = Some s \<Longrightarrow> prog s = TxReturn (Inr a) \<Longrightarrow>
     session_step cu i S (S\<lparr>committed := view s (committed S), sess := (sess S)(i := None)\<rparr>)"
| rollback: "sess S i = Some s \<Longrightarrow> prog s = TxReturn (Inl err) \<Longrightarrow>
     session_step cu i S (S\<lparr>sess := (sess S)(i := None)\<rparr>)"


definition moves :: "(pgtime \<Rightarrow> duration \<Rightarrow> pgtime) \<Rightarrow> 'a sys \<Rightarrow> 'a sys \<Rightarrow> bool" where
  "moves cu S S' \<longleftrightarrow> (\<exists>i. session_step cu i S S')"

text \<open>
  Around the sessions: one begins, or is lost with its connection; a user signs up; time passes.
  The transactions a request may begin depend on what it has read: \<open>bodies d\<close> are those of a
  request that has seen the tables \<open>d\<close>.
\<close>

inductive outside_step :: "(db \<Rightarrow> 'a txp set) \<Rightarrow> 'a sys \<Rightarrow> 'a sys \<Rightarrow> bool"
  for bodies :: "db \<Rightarrow> 'a txp set" where
  begin_tx: "sess S i = None \<Longrightarrow> p \<in> bodies (committed S) \<Longrightarrow>
     outside_step bodies S (S\<lparr>sess := (sess S)(i \<mapsto> start (pg_now S) p)\<rparr>)"
| lose: "outside_step bodies S (S\<lparr>sess := (sess S)(i := None)\<rparr>)"
| sign_up: "\<not> has_user (uID usr) (committed S) \<Longrightarrow> Username usr \<notin> Username ` set (users (committed S)) \<Longrightarrow>
     outside_step bodies S (S\<lparr>committed := apply_write (InsUser usr) (committed S)\<rparr>)"
| tick: "pg_now S \<le> now \<Longrightarrow> outside_step bodies S (S\<lparr>pg_now := now\<rparr>)"

definition sys_step :: "(pgtime \<Rightarrow> duration \<Rightarrow> pgtime) \<Rightarrow> (db \<Rightarrow> 'a txp set) \<Rightarrow> 'a sys \<Rightarrow> 'a sys \<Rightarrow> bool" where
  "sys_step cu bodies S S' \<longleftrightarrow> moves cu S S' \<or> outside_step bodies S S'"

definition sys_reaches :: "(pgtime \<Rightarrow> duration \<Rightarrow> pgtime) \<Rightarrow> (db \<Rightarrow> 'a txp set) \<Rightarrow> 'a sys \<Rightarrow> 'a sys \<Rightarrow> bool" where
  "sys_reaches cu bodies = (sys_step cu bodies)\<^sup>*\<^sup>*"

definition idle :: "db \<Rightarrow> pgtime \<Rightarrow> 'a sys" where
  "idle d now = \<lparr>committed = d, sess = (\<lambda>i. None), pg_now = now\<rparr>"

section \<open>A session alone\<close>

text \<open>
  A session that is never interrupted runs as \<open>exec_tx\<close> does: the transactions of \<open>WithTx\<close> in
  the theory \<open>Store\<close> are the interleaved ones with nobody else there.
\<close>

definition alone :: "nat \<Rightarrow> 'a sys \<Rightarrow> bool" where
  "alone i S \<longleftrightarrow> (\<forall>j. j \<noteq> i \<longrightarrow> sess S j = None)"

lemma alone_granted: "alone i S \<Longrightarrow> granted S i R"
  by (simp add: alone_def granted_def)

lemma view_append: "view (s\<lparr>staged := staged s @ ws\<rparr>) d = apply_writes ws (view s d)"
  by (simp add: view_def)

definition finished :: "nat \<Rightarrow> goerr + 'a \<Rightarrow> db \<Rightarrow> 'a sys \<Rightarrow> 'a sys \<Rightarrow> bool" where
  "finished i r d S S' \<longleftrightarrow> alone i S' \<and> committed S' = committed S \<and>
     (\<exists>s. sess S' i = Some s \<and> prog s = TxReturn r \<and> view s (committed S') = d)"

text \<open>The outcome of a session alone agrees with a run of \<open>exec_tx\<close>.\<close>

definition agrees :: "pgenv \<Rightarrow> pgtime \<Rightarrow> nat \<Rightarrow> 'a sys \<Rightarrow> (goerr + 'a) \<times> world \<Rightarrow> bool" where
  "agrees env now i S out \<longleftrightarrow>
     (\<exists>S'. (session_step (cutoff_at env) i)\<^sup>*\<^sup>* S S' \<and> finished i (fst out) (db (snd out)) S S')"

definition poised :: "pgtime \<Rightarrow> nat \<Rightarrow> 'a sys \<Rightarrow> 'a txp \<Rightarrow> db \<Rightarrow> bool" where
  "poised now i S p d \<longleftrightarrow> alone i S \<and> (\<exists>s. sess S i = Some s \<and> prog s = p \<and> began s = now \<and> view s (committed S) = d)"

lemma agrees_step:
  assumes S: "poised now i S p d"
    and nxt: "tx_next (cutoff_at env now) now fresh d p = Some (q, ws)"
    and rest: "\<And>S. poised now i S q (apply_writes ws d) \<Longrightarrow> agrees env now i S out"
  shows "agrees env now i S out"
proof -
  obtain s where s: "sess S i = Some s" "prog s = p" "began s = now" "view s (committed S) = d" and al: "alone i S"
    using S by (auto simp: poised_def)
  let ?s = "s\<lparr>prog := q, staged := staged s @ ws, held := held s \<union> needs (cutoff_at env now) fresh d p\<rparr>"
  let ?S = "S\<lparr>sess := (sess S)(i \<mapsto> ?s)\<rparr>"
  have step: "session_step (cutoff_at env) i S ?S"
    using session_step.statement [OF s(1), of "cutoff_at env" fresh q ws] alone_granted [OF al] by (simp add: s(2-4) nxt)
  have "poised now i ?S q (apply_writes ws d)"
    using al s by (auto simp: poised_def alone_def view_def)
  from rest [OF this] obtain S' where S': "(session_step (cutoff_at env) i)\<^sup>*\<^sup>* ?S S'"
    "finished i (fst out) (db (snd out)) ?S S'"
    unfolding agrees_def by blast
  have "(session_step (cutoff_at env) i)\<^sup>*\<^sup>* S S'" by (rule converse_rtranclp_into_rtranclp [OF step S'(1)])
  moreover have "finished i (fst out) (db (snd out)) S S'" using S'(2) by (auto simp: finished_def)
  ultimately show ?thesis unfolding agrees_def by blast
qed

lemma agrees_stmt:
  assumes S: "poised now i S p (db w)" and link: "pg_link env (tick w) = Fine"
    and nxt: "tx_next (cutoff_at env now) now (pg_uuid env (tick w)) (db w) p = continue_with k (f Fine (pg_uuid env (tick w)) (db w))"
    and IH: "\<And>q S w. q \<in> range k \<Longrightarrow> poised now i S q (db w) \<Longrightarrow> agrees env now i S (exec_tx env now q w)"
  shows "agrees env now i S (case tx_stmt env f w of (r, w') \<Rightarrow> exec_tx env now (k r) w')"
proof -
  obtain r ws where res: "f Fine (pg_uuid env (tick w)) (db w) = (r, ws)" by force
  have "agrees env now i S (exec_tx env now (k r) (w\<lparr>db := apply_writes ws (db w), tick := Suc (tick w)\<rparr>))"
    by (rule agrees_step [OF S, of env "pg_uuid env (tick w)" "k r" ws])
      (simp_all add: nxt continue_with_def res IH)
  then show ?thesis by (simp add: tx_stmt_def link res)
qed

lemma agrees_exec_tx:
  assumes env: "\<And>n. pg_link env n = Fine"
  shows "poised now i S p (db w) \<Longrightarrow> agrees env now i S (exec_tx env now p w)"
proof (induction p arbitrary: S w)
  case (TxReturn r)
  then show ?case by (auto simp: agrees_def finished_def poised_def exec_tx.simps)
next
  case (TxObserve m l k)
  show ?case
    unfolding exec_tx.simps
    by (rule agrees_step [OF TxObserve(2), of env undefined k "[]"]) (simp_all add: TxObserve(1))
qed (simp only: exec_tx.simps, rule agrees_stmt, assumption, rule env, simp only: tx_next.simps, blast)+

section \<open>Locks are exclusive\<close>

definition exclusive :: "'a sys \<Rightarrow> bool" where
  "exclusive S \<longleftrightarrow> (\<forall>i j s s'. i \<noteq> j \<longrightarrow> sess S i = Some s \<longrightarrow> sess S j = Some s' \<longrightarrow> held s \<inter> held s' = {})"

lemma exclusiveD: "exclusive S \<Longrightarrow> i \<noteq> j \<Longrightarrow> sess S i = Some s \<Longrightarrow> sess S j = Some s' \<Longrightarrow> held s \<inter> held s' = {}"
  unfolding exclusive_def by blast

lemma exclusiveI:
  "(\<And>i j s s'. i < j \<Longrightarrow> sess S i = Some s \<Longrightarrow> sess S j = Some s' \<Longrightarrow> held s \<inter> held s' = {}) \<Longrightarrow> exclusive S"
  unfolding exclusive_def by (metis Int_commute nat_neq_iff)

lemma exclusive_update:
  assumes "exclusive S" "\<And>j s'. j \<noteq> i \<Longrightarrow> sess S j = Some s' \<Longrightarrow> held s' \<inter> held s = {}"
  shows "exclusive (S\<lparr>sess := (sess S)(i \<mapsto> s)\<rparr>)"
proof (rule exclusiveI)
  fix k l u v
  assume kl: "k < l" "sess (S\<lparr>sess := (sess S)(i \<mapsto> s)\<rparr>) k = Some u" "sess (S\<lparr>sess := (sess S)(i \<mapsto> s)\<rparr>) l = Some v"
  show "held u \<inter> held v = {}"
    using kl assms(2) [of k u] assms(2) [of l v] exclusiveD [OF assms(1), of k l u v] by (auto split: if_splits)
qed

lemma exclusive_end: "exclusive S \<Longrightarrow> exclusive (S\<lparr>sess := (sess S)(i := None)\<rparr>)"
  unfolding exclusive_def by (auto split: if_splits)

lemma exclusive_frame [simp]:
  "exclusive (S\<lparr>committed := d\<rparr>) = exclusive S" "exclusive (S\<lparr>pg_now := now\<rparr>) = exclusive S"
  "exclusive (S\<lparr>committed := d, sess := f\<rparr>) = exclusive (S\<lparr>sess := f\<rparr>)"
  by (simp_all add: exclusive_def)

lemma exclusive_session_step:
  assumes "session_step cu i S S'" "exclusive S"
  shows "exclusive S'"
  using assms(1)
proof (cases rule: session_step.cases)
  case (statement s fresh p ws)
  show ?thesis
    unfolding statement(1)
  proof (rule exclusive_update [OF assms(2)])
    fix j s' assume j: "j \<noteq> i" "sess S j = Some s'"
    have "held s' \<inter> held s = {}" using exclusiveD [OF assms(2) j statement(2)] .
    moreover have "held s' \<inter> needs (cu (began s)) fresh (view s (committed S)) (prog s) = {}"
      using statement(4) j unfolding granted_def by blast
    ultimately show "held s' \<inter> held (s\<lparr>prog := p, staged := staged s @ ws,
        held := held s \<union> needs (cu (began s)) fresh (view s (committed S)) (prog s)\<rparr>) = {}"
      by (simp add: Int_Un_distrib)
  qed
qed (simp_all add: exclusive_end assms(2))

lemma exclusive_outside_step:
  assumes "outside_step bodies S S'" "exclusive S"
  shows "exclusive S'"
  using assms by cases (simp_all add: exclusive_update start_def exclusive_end)

section \<open>Invariants of the sessions\<close>

text \<open>
  The interface every invariant of an interleaving satisfies: a property \<open>good\<close> of the committed
  tables and a property \<open>ok\<close> of each session relative to them. A provider shows that a session
  starts ok, that its own statements and the commits of sessions with other locks keep it ok,
  and that the commit of a session that is ok leaves good tables.
\<close>

locale session_invariant =
  fixes cu :: "pgtime \<Rightarrow> duration \<Rightarrow> pgtime" and good :: "db \<Rightarrow> bool" and ok :: "db \<Rightarrow> 'a session \<Rightarrow> bool"
    and bodies :: "db \<Rightarrow> 'a txp set"
  assumes begin_ok: "p \<in> bodies d \<Longrightarrow> good d \<Longrightarrow> ok d (start now p)"
    and statement_ok: "good d \<Longrightarrow> ok d s \<Longrightarrow>
      tx_next (cu (began s)) (began s) fresh (view s d) (prog s) = Some (p, ws) \<Longrightarrow>
      ok d (s\<lparr>prog := p, staged := staged s @ ws, held := held s \<union> needs (cu (began s)) fresh (view s d) (prog s)\<rparr>)"
    and commit_good: "good d \<Longrightarrow> ok d s \<Longrightarrow> prog s = TxReturn (Inr a) \<Longrightarrow> good (view s d)"
    and commit_ok: "good d \<Longrightarrow> ok d s \<Longrightarrow> ok d s' \<Longrightarrow> held s \<inter> held s' = {} \<Longrightarrow> ok (view s' d) s"
    and sign_up_good: "good d \<Longrightarrow> \<not> has_user (uID usr) d \<Longrightarrow> Username usr \<notin> Username ` set (users d) \<Longrightarrow>
      good (apply_write (InsUser usr) d)"
    and sign_up_ok: "ok d s \<Longrightarrow> ok (apply_write (InsUser usr) d) s"
begin

definition safe :: "'a sys \<Rightarrow> bool" where
  "safe S \<longleftrightarrow> good (committed S) \<and> exclusive S \<and> (\<forall>i s. sess S i = Some s \<longrightarrow> ok (committed S) s)"

lemma safeD: "safe S \<Longrightarrow> good (committed S)" "safe S \<Longrightarrow> exclusive S" "safe S \<Longrightarrow> sess S i = Some s \<Longrightarrow> ok (committed S) s"
  unfolding safe_def by blast+

lemma safe_session_step:
  assumes "session_step cu i S S'" "safe S"
  shows "safe S'"
proof -
  note S = safeD [OF assms(2)]
  from assms(1) have "good (committed S') \<and> (\<forall>j s. sess S' j = Some s \<longrightarrow> ok (committed S') s)"
  proof (cases rule: session_step.cases)
    case (statement s fresh p ws)
    then show ?thesis using S(1,3) statement_ok [OF S(1) S(3) [OF statement(2)] statement(3)] by simp
  next
    case (commit s a)
    have "ok (view s (committed S)) s'" if "j \<noteq> i" "sess S j = Some s'" for j s'
      using commit_ok [OF S(1) S(3) [OF that(2)] S(3) [OF commit(2)] exclusiveD [OF S(2) that commit(2)]] .
    then show ?thesis using commit_good [OF S(1) S(3) [OF commit(2)] commit(3)] by (simp add: commit(1))
  next
    case (rollback s err)
    then show ?thesis using S by simp
  qed
  then show ?thesis using exclusive_session_step [OF assms(1) S(2)] by (simp add: safe_def)
qed

lemma safe_outside_step:
  assumes "outside_step B S S'" "\<And>d. good d \<Longrightarrow> B d \<subseteq> bodies d" "safe S"
  shows "safe S'"
proof -
  note S = safeD [OF assms(3)]
  from assms(1) have "good (committed S') \<and> (\<forall>j s. sess S' j = Some s \<longrightarrow> ok (committed S') s)"
  proof cases
    case (begin_tx i p)
    then have "p \<in> bodies (committed S)" using assms(2) S(1) by blast
    then show ?thesis using S begin_ok by (simp add: begin_tx(1))
  qed (use S sign_up_good sign_up_ok in simp_all)
  then show ?thesis using exclusive_outside_step [OF assms(1) S(2)] by (simp add: safe_def)
qed

lemma safe_sys_step: "sys_step cu B S S' \<Longrightarrow> (\<And>d. good d \<Longrightarrow> B d \<subseteq> bodies d) \<Longrightarrow> safe S \<Longrightarrow> safe S'"
  unfolding sys_step_def moves_def using safe_session_step safe_outside_step by blast

lemma safe_reaches:
  assumes "sys_reaches cu B S S'" "\<And>d. good d \<Longrightarrow> B d \<subseteq> bodies d" "safe S"
  shows "safe S'"
  using assms(1,3) unfolding sys_reaches_def
proof (induction rule: rtranclp_induct)
  case (step S' S'')
  then show ?case using safe_sys_step [OF step(2) assms(2)] by blast
qed

lemma safe_idle: "good d \<Longrightarrow> safe (idle d now)"
  by (simp add: safe_def idle_def exclusive_def)

end

end
