(* ===== verification/Exactly_Once.thy ===== *)
theory Exactly_Once
  imports Concurrency
begin

text \<open>
  What a transaction commits, under interleaving. The bodies of the service are labelled with
  what they report on success; \<open>honest\<close> checks of a body that the label it returns is the
  transfer row it has inserted or reversed, and that it has written no other. The locks on
  keys and rows then make every label commit at most once.
\<close>

section \<open>The bodies and what they report\<close>

datatype reply =
    Paid uuid uuid int64 string string transfer_result
  | Returned transfer claim_result
  | Created uuid

definition execute_tx :: "extern \<Rightarrow> transfer_service \<Rightarrow> uuid \<Rightarrow> uuid \<Rightarrow> int64 \<Rightarrow> string \<Rightarrow> string \<Rightarrow> reply txp" where
  "execute_tx x t s r amount key hash = map_txp (Paid s r amount key hash) (execute_body x t s r amount key hash)"

definition claim_tx :: "extern \<Rightarrow> transfer_service \<Rightarrow> transfer \<Rightarrow> reply txp" where
  "claim_tx x t tr = map_txp (Returned tr) (claim_body x t tr)"

text \<open>\<open>GetOrCreateWallet\<close> inserts outside a transaction: a transaction of one statement.\<close>

definition open_tx :: "transfer_service \<Rightarrow> uuid \<Rightarrow> reply txp" where
  "open_tx t u = map_txp (\<lambda>created. Created u) (InsertWallet u (seedPaise t) TxReturn)"

text \<open>
  The transactions of a request that sees the tables \<open>d\<close>: \<open>Execute\<close> has refused a transfer to
  oneself and an amount that is not positive; \<open>ClaimBack\<close> has read the transfer it reverses,
  of which only the columns of the reversal may since have changed.
\<close>

definition service_bodies :: "extern \<Rightarrow> transfer_service \<Rightarrow> db \<Rightarrow> reply txp set" where
  "service_bodies x t d =
     {execute_tx x t s r amount key hash | s r amount key hash. s \<noteq> r \<and> 0 < sint amount} \<union>
     {claim_tx x t tr | tr. SenderID tr \<noteq> RecipientID tr \<and> 0 < sint (AmountPaise tr) \<and>
        (\<exists>row \<in> set (transfers d). same_columns tr row)} \<union>
     {open_tx t u | u. True}"

lemma in_service_bodies:
  "s \<noteq> r \<Longrightarrow> 0 < sint amount \<Longrightarrow> execute_tx x t s r amount key hash \<in> service_bodies x t d"
  "SenderID tr \<noteq> RecipientID tr \<Longrightarrow> 0 < sint (AmountPaise tr) \<Longrightarrow> row \<in> set (transfers d) \<Longrightarrow> same_columns tr row \<Longrightarrow>
   claim_tx x t tr \<in> service_bodies x t d"
  "open_tx t u \<in> service_bodies x t d"
  unfolding service_bodies_def by blast+

section \<open>Honest bodies\<close>

text \<open>What a reply says of the transfers: the row it has inserted, the row it has reversed, none.\<close>

datatype label = Posted uuid string uuid | ClaimedBack uuid | Opened

fun label_of :: "reply \<Rightarrow> label" where
  "label_of (Paid s r amount key hash res) = Posted s key (TransferID res)"
| "label_of (Returned tr res) = ClaimedBack (trID tr)"
| "label_of (Created u) = Opened"

primrec honest :: "reply txp \<Rightarrow> label \<Rightarrow> bool" where
  "honest (TxReturn r) = (\<lambda>l. case r of Inl err \<Rightarrow> True | Inr c \<Rightarrow> label_of c = l)"
| "honest (WalletExists u k) = (\<lambda>l. \<forall>r. honest (k r) l)"
| "honest (InsertWallet u b k) = (\<lambda>l. \<forall>r. honest (k r) l)"
| "honest (LockWallet u k) = (\<lambda>l. \<forall>r. honest (k r) l)"
| "honest (InsertTransfer t k) = (\<lambda>l. l = Opened \<and> (\<forall>i. honest (k (Inr (i, True))) (Posted (SenderID t) (IdempotencyKey t) i)) \<and>
     (\<forall>i. honest (k (Inr (i, False))) l) \<and> (\<forall>err. honest (k (Inl err)) l))"
| "honest (SumActiveHolds u win k) = (\<lambda>l. \<forall>r. honest (k r) l)"
| "honest (MarkReversed i win b k) = (\<lambda>l. l = Opened \<and> (\<forall>now. honest (k (Inr (now, True))) (ClaimedBack i)) \<and>
     (\<forall>now. honest (k (Inr (now, False))) l) \<and> (\<forall>err. honest (k (Inl err)) l))"
| "honest (UpdateWalletBalance u b k) = (\<lambda>l. \<forall>r. honest (k r) l)"
| "honest (TxObserve m lg k) = honest k"

lemma honest_orReturn:
  "(\<And>b. honest (map_txp f (k b)) l) \<Longrightarrow> honest (map_txp f (orReturn k r)) l"
  by (cases r) simp_all

lemma honest_ensure_wallets:
  "honest (map_txp f rest) l \<Longrightarrow> honest (map_txp f (ensure_wallets seed ids rest)) l"
  by (induction ids) (auto intro!: honest_orReturn)

lemma honest_lock_wallets:
  "(\<And>bals. honest (map_txp f (rest bals)) l) \<Longrightarrow> honest (map_txp f (lock_wallets ids bals rest)) l"
  by (induction ids arbitrary: bals) (auto intro!: honest_orReturn)

lemma honest_execute_tx: "honest (execute_tx x t s r amount key hash) Opened"
  unfolding execute_tx_def execute_body_def Let_def
  by (intro honest_ensure_wallets honest_lock_wallets) (auto simp: execute_move_def Let_def intro!: honest_orReturn)

lemma honest_claim_tx: "honest (claim_tx x t tr) Opened"
  unfolding claim_tx_def claim_body_def Let_def
  by (intro honest_lock_wallets) (auto simp: claim_move_def Let_def intro!: honest_orReturn)

lemma honest_open_tx: "honest (open_tx t u) Opened"
proof -
  have "case map_sum id (\<lambda>created. Created u) r of Inl err \<Rightarrow> True | Inr c \<Rightarrow> label_of c = Opened" for r :: "goerr + bool"
    by (cases r) simp_all
  then show ?thesis by (simp add: open_tx_def)
qed

lemma honest_service_bodies: "p \<in> service_bodies x t d \<Longrightarrow> honest p Opened"
  unfolding service_bodies_def using honest_execute_tx honest_claim_tx honest_open_tx by blast

section \<open>What a session has written to the transfers\<close>

fun about_transfers :: "db_write \<Rightarrow> bool" where
  "about_transfers (InsTransfer t) = True"
| "about_transfers (SetReversed i now b) = True"
| "about_transfers _ = False"

fun write_transfers :: "db_write \<Rightarrow> transfer list \<Rightarrow> transfer list" where
  "write_transfers (InsTransfer t) ts = ts @ [t]"
| "write_transfers (SetReversed i now b) ts = update_where (\<lambda>t. trID t = i) (set_reversed now b) ts"
| "write_transfers _ ts = ts"

lemma transfers_after_write: "transfers (apply_write x d) = write_transfers x (transfers d)"
  by (cases x) simp_all

lemma transfers_after:
  "transfers (apply_writes ws d) = fold write_transfers (filter about_transfers ws) (transfers d)"
proof (induction ws arbitrary: d)
  case (Cons x ws)
  have "write_transfers x ts = ts" if "\<not> about_transfers x" for ts
    using that by (cases x) simp_all
  then show ?case by (simp add: Cons.IH transfers_after_write)
qed simp

lemma transfers_view: "transfers (view s d) = fold write_transfers (filter about_transfers (staged s)) (transfers d)"
  by (simp add: view_def transfers_after)

fun records :: "label \<Rightarrow> db_write list \<Rightarrow> bool" where
  "records (Posted u key i) ws \<longleftrightarrow> (\<exists>t. ws = [InsTransfer t] \<and> transfer_key t = (u, key) \<and> trID t = i)"
| "records (ClaimedBack i) ws \<longleftrightarrow> (\<exists>now b. ws = [SetReversed i now b])"
| "records Opened ws \<longleftrightarrow> ws = []"

text \<open>The locks that a label needs, and what it needs of the committed tables.\<close>

fun label_locks :: "label \<Rightarrow> resource set" where
  "label_locks (Posted u key i) = {TransferKey u key, TransferRow i}"
| "label_locks (ClaimedBack i) = {TransferRow i}"
| "label_locks Opened = {}"

fun outstanding :: "label \<Rightarrow> transfer list \<Rightarrow> bool" where
  "outstanding (Posted u key i) ts \<longleftrightarrow> (u, key) \<notin> transfer_key ` set ts \<and> i \<notin> trID ` set ts"
| "outstanding (ClaimedBack i) ts \<longleftrightarrow> (\<exists>t \<in> set ts. trID t = i \<and> Status t = TransferCompleted)"
| "outstanding Opened ts \<longleftrightarrow> True"

definition distinct_transfers :: "db \<Rightarrow> bool" where
  "distinct_transfers d \<longleftrightarrow> distinct (map trID (transfers d)) \<and> distinct (map transfer_key (transfers d))"

definition honest_session :: "db \<Rightarrow> reply session \<Rightarrow> bool" where
  "honest_session d s \<longleftrightarrow> (\<exists>l. honest (prog s) l \<and> records l (filter about_transfers (staged s)) \<and>
     label_locks l \<subseteq> held s \<and> outstanding l (transfers d))"

lemma honest_sessionI:
  "honest (prog s) l \<Longrightarrow> records l (filter about_transfers (staged s)) \<Longrightarrow> label_locks l \<subseteq> held s \<Longrightarrow>
   outstanding l (transfers d) \<Longrightarrow> honest_session d s"
  unfolding honest_session_def by blast

lemma outstanding_commit:
  assumes "records l' (filter about_transfers (staged s'))" "outstanding l (transfers d)"
    and "label_locks l \<inter> label_locks l' = {}"
  shows "outstanding l (transfers (view s' d))"
proof (cases l')
  case (Posted u key i)
  then obtain t where "filter about_transfers (staged s') = [InsTransfer t]" "transfer_key t = (u, key)" "trID t = i"
    using assms(1) by auto
  then show ?thesis
    using assms(2,3) Posted by (cases l) (auto simp: transfers_view)
next
  case (ClaimedBack i)
  then obtain now b where "filter about_transfers (staged s') = [SetReversed i now b]"
    using assms(1) by auto
  then have ts: "transfers (view s' d) = update_where (\<lambda>t. trID t = i) (set_reversed now b) (transfers d)"
    by (simp add: transfers_view)
  have keys: "transfer_key ` set (transfers (view s' d)) = transfer_key ` set (transfers d)"
    "trID ` set (transfers (view s' d)) = trID ` set (transfers d)"
    unfolding ts by (simp_all flip: set_map)
  show ?thesis
    using assms(2,3) ClaimedBack keys by (cases l) (auto simp: ts set_update_where)
next
  case Opened
  then show ?thesis using assms(1,2) by (simp add: transfers_view)
qed

lemma distinct_commit:
  assumes "records l (filter about_transfers (staged s))" "outstanding l (transfers d)" "distinct_transfers d"
  shows "distinct_transfers (view s d)"
  using assms by (cases l) (auto simp: distinct_transfers_def transfers_view)

lemma honest_session_commit:
  assumes "honest_session d s" "honest_session d s'" "held s \<inter> held s' = {}"
  shows "honest_session (view s' d) s"
proof -
  obtain l where l: "honest (prog s) l" "records l (filter about_transfers (staged s))" "label_locks l \<subseteq> held s"
    "outstanding l (transfers d)"
    using assms(1) unfolding honest_session_def by blast
  obtain l' where l': "records l' (filter about_transfers (staged s'))" "label_locks l' \<subseteq> held s'"
    using assms(2) unfolding honest_session_def by blast
  have "label_locks l \<inter> label_locks l' = {}" using l(3) l'(2) assms(3) by blast
  then show ?thesis by (intro honest_sessionI [OF l(1,2,3)] outstanding_commit [OF l'(1) l(4)])
qed

section \<open>A statement keeps it\<close>

lemma honest_session_quiet:
  assumes "honest_session d s" "\<And>l. honest (prog s) l \<Longrightarrow> honest p l" "filter about_transfers ws = []"
  shows "honest_session d (s\<lparr>prog := p, staged := staged s @ ws, held := held s \<union> R\<rparr>)"
  using assms unfolding honest_session_def by auto

lemma honest_session_statement:
  assumes ok: "honest_session d s" and nxt: "tx_next cu now fresh (view s d) (prog s) = Some (p, ws)"
  shows "honest_session d (s\<lparr>prog := p, staged := staged s @ ws, held := held s \<union> needs cu fresh (view s d) (prog s)\<rparr>)"
proof (cases "prog s")
  case (TxReturn r)
  then show ?thesis using nxt by simp
next
  case (InsertTransfer t k)
  obtain l where l: "honest (prog s) l" "records l (filter about_transfers (staged s))" "outstanding l (transfers d)"
    using ok unfolding honest_session_def by blast
  have "l = Opened" using l(1) by (simp add: InsertTransfer)
  then have none: "filter about_transfers (staged s) = []" "transfers (view s d) = transfers d"
    using l(2) by (simp_all add: transfers_view)
  have res: "p = k (fst (Tx_InsertTransfer Fine now fresh t (view s d)))"
    "ws = snd (Tx_InsertTransfer Fine now fresh t (view s d))"
    using nxt by (auto simp: InsertTransfer continue_with_def)
  show ?thesis
  proof (cases "fst (sql_insert_transfer now fresh t (view s d))")
    case (Inl err)
    then have "ws = []" by (auto simp: res(2) snd_Tx_methods deliver_def sql_insert_transfer_def split: if_splits)
    moreover have "fst (Tx_InsertTransfer Fine now fresh t (view s d)) \<in> {Inr (0, False), Inl err}"
      using Inl by (auto simp: Tx_InsertTransfer_def deliver_def split: prod.splits if_splits)
    ultimately show ?thesis
      using ok by (intro honest_session_quiet) (auto simp: InsertTransfer res(1))
  next
    case (Inr i)
    then have fresh: "transfer_key t \<notin> transfer_key ` set (transfers d)" "fresh \<notin> trID ` set (transfers d)" "i = fresh"
      and ins: "sql_insert_transfer now fresh t (view s d) = (Inr fresh, [InsTransfer (new_transfer_row now fresh t)])"
      by (auto simp: sql_insert_transfer_def none(2) split: if_splits)
    then have "Tx_InsertTransfer Fine now fresh t (view s d) = (Inr (fresh, True), [InsTransfer (new_transfer_row now fresh t)])"
      by (simp add: Tx_InsertTransfer_def deliver_def)
    with l(1) show ?thesis
      by (intro honest_sessionI [where l = "Posted (SenderID t) (IdempotencyKey t) fresh"])
        (use fresh none res in \<open>simp_all add: InsertTransfer transfer_key_def new_transfer_row_def\<close>)
  qed
next
  case (MarkReversed i win b k)
  obtain l where l: "honest (prog s) l" "records l (filter about_transfers (staged s))" "outstanding l (transfers d)"
    using ok unfolding honest_session_def by blast
  have "l = Opened" using l(1) by (simp add: MarkReversed)
  then have none: "filter about_transfers (staged s) = []" "transfers (view s d) = transfers d"
    using l(2) by (simp_all add: transfers_view)
  have res: "p = k (fst (Tx_MarkReversed Fine now (cu win) i b (view s d)))"
    "ws = snd (Tx_MarkReversed Fine now (cu win) i b (view s d))"
    using nxt by (auto simp: MarkReversed continue_with_def)
  show ?thesis
  proof (cases "\<exists>t \<in> set (transfers d). trID t = i \<and> active_hold (cu win) t")
    case True
    then have "Tx_MarkReversed Fine now (cu win) i b (view s d) = (Inr (now, True), [SetReversed i now b])"
      by (simp add: Tx_MarkReversed_def deliver_def sql_mark_reversed_def none(2))
    moreover have "\<exists>t \<in> set (transfers d). trID t = i \<and> Status t = TransferCompleted"
      using True by (auto simp: active_hold_def)
    ultimately show ?thesis
      using l(1) True by (intro honest_sessionI [where l = "ClaimedBack i"])
        (use none res in \<open>simp_all add: MarkReversed\<close>)
  next
    case False
    then have "Tx_MarkReversed Fine now (cu win) i b (view s d) = (Inr (0, False), [])"
      by (auto simp: Tx_MarkReversed_def deliver_def sql_mark_reversed_def none(2))
    then show ?thesis using ok by (intro honest_session_quiet) (simp_all add: MarkReversed res)
  qed
qed (rule honest_session_quiet [OF ok]; use nxt in \<open>auto simp: continue_with_def snd_Tx_methods deliver_def
      sql_insert_wallet_def sql_update_balance_def\<close>)+

interpretation once: session_invariant cu distinct_transfers honest_session "\<lambda>d. {p. honest p Opened}"
  for cu :: "pgtime \<Rightarrow> duration \<Rightarrow> pgtime"
proof
  show "honest_session d (start now p)" if "p \<in> {p. honest p Opened}" for p d now
    using that by (intro honest_sessionI [where l = Opened]) (simp_all add: start_def)
  show "distinct_transfers (view s d)" if "distinct_transfers d" "honest_session d s" for d s
    using that distinct_commit unfolding honest_session_def by blast
  show "distinct_transfers (apply_write (InsUser usr) d)" if "distinct_transfers d" for d usr
    using that by (simp add: distinct_transfers_def)
qed (blast intro: honest_session_statement honest_session_commit
    | simp add: distinct_transfers_def honest_session_def)+


section \<open>The history of commits\<close>

definition committing :: "nat \<Rightarrow> reply sys \<Rightarrow> reply list" where
  "committing i S = (case sess S i of
      Some s \<Rightarrow> (case prog s of TxReturn (Inr c) \<Rightarrow> [c] | _ \<Rightarrow> [])
    | None \<Rightarrow> [])"

inductive history ::
  "(pgtime \<Rightarrow> duration \<Rightarrow> pgtime) \<Rightarrow> (db \<Rightarrow> reply txp set) \<Rightarrow> reply sys \<Rightarrow> reply list \<Rightarrow> reply sys \<Rightarrow> bool"
  for cu :: "pgtime \<Rightarrow> duration \<Rightarrow> pgtime" and bodies :: "db \<Rightarrow> reply txp set" and S0 :: "reply sys" where
  history_start: "history cu bodies S0 [] S0"
| history_move: "history cu bodies S0 ls S \<Longrightarrow> session_step cu i S S' \<Longrightarrow> history cu bodies S0 (ls @ committing i S) S'"
| history_outside: "history cu bodies S0 ls S \<Longrightarrow> outside_step bodies S S' \<Longrightarrow> history cu bodies S0 ls S'"

lemma history_reaches: "history cu B S0 ls S \<Longrightarrow> sys_reaches cu B S0 S"
  unfolding sys_reaches_def
proof (induction rule: history.induct)
  case (history_move ls S i S')
  then show ?case by (auto simp: sys_step_def moves_def intro: rtranclp.rtrancl_into_rtrancl)
next
  case (history_outside ls S S')
  then show ?case by (auto simp: sys_step_def intro: rtranclp.rtrancl_into_rtrancl)
qed simp

text \<open>What may happen once: a key is used, a transfer is claimed back.\<close>

fun event :: "label \<Rightarrow> (uuid \<times> string + uuid) list" where
  "event (Posted u key i) = [Inl (u, key)]"
| "event (ClaimedBack i) = [Inr i]"
| "event Opened = []"

definition events :: "reply list \<Rightarrow> (uuid \<times> string + uuid) list" where
  "events ls = concat (map (event \<circ> label_of) ls)"

lemma events_simps [simp]: "events [] = []" "events (ls @ ms) = events ls @ events ms" "events [c] = event (label_of c)"
  by (simp_all add: events_def)

lemma distinct_event [simp]: "distinct (event l)"
  by (cases l) simp_all

lemma set_events: "set (events ls) = (\<Union>c \<in> set ls. set (event (label_of c)))"
  by (simp add: events_def)

fun settled :: "label \<Rightarrow> transfer list \<Rightarrow> bool" where
  "settled (Posted u key i) ts \<longleftrightarrow> (\<exists>t \<in> set ts. trID t = i \<and> transfer_key t = (u, key))"
| "settled (ClaimedBack i) ts \<longleftrightarrow> (\<exists>t \<in> set ts. trID t = i \<and> Status t = TransferReversed)"
| "settled Opened ts \<longleftrightarrow> True"

lemma settled_write: "settled l ts \<Longrightarrow> settled l (write_transfers x ts)"
proof (cases x)
  case (SetReversed i now b)
  define f where "f t = (if trID t = i then set_reversed now b t else t)" for t
  have f: "trID (f t) = trID t" "transfer_key (f t) = transfer_key t"
    "Status t = TransferReversed \<Longrightarrow> Status (f t) = TransferReversed" for t
    by (simp_all add: f_def)
  have "write_transfers x ts = map f ts" by (simp add: SetReversed update_where_def f_def fun_eq_iff)
  moreover assume "settled l ts"
  ultimately show ?thesis using f by (cases l) force+
qed (cases l; auto)+

lemma settled_writes: "settled l ts \<Longrightarrow> settled l (fold write_transfers ws ts)"
  by (induction ws arbitrary: ts) (simp_all add: settled_write)

lemma settled_not_outstanding:
  assumes "settled l ts" "outstanding l' ts" "distinct (map trID ts)"
  shows "set (event l) \<inter> set (event l') = {}"
proof (cases l)
  case (ClaimedBack i)
  then obtain t where t: "t \<in> set ts" "trID t = i" "Status t = TransferReversed" using assms(1) by auto
  have "Status t' = TransferReversed" if "t' \<in> set ts" "trID t' = i" for t'
  proof -
    have "t' = t" using assms(3) that t(1,2) by (auto simp: distinct_map inj_on_def)
    then show ?thesis using t(3) by simp
  qed
  then show ?thesis
    using assms(2) ClaimedBack by (cases l') (auto simp: TransferCompleted_def TransferReversed_def)
qed (use assms(1,2) in \<open>cases l'; force\<close>)+

lemma settled_commit:
  assumes "records l (filter about_transfers (staged s))" "outstanding l (transfers d)"
  shows "settled l (transfers (view s d))"
proof (cases l)
  case (ClaimedBack i)
  then obtain t where t: "t \<in> set (transfers d)" "trID t = i" using assms(2) by auto
  from assms(1) ClaimedBack obtain now b where "filter about_transfers (staged s) = [SetReversed i now b]" by auto
  then have "set_reversed now b t \<in> set (transfers (view s d))"
    using t by (auto simp: transfers_view set_update_where)
  then show ?thesis unfolding ClaimedBack settled.simps by (rule bexI [rotated]) (simp add: t(2))
qed (use assms in \<open>auto simp: transfers_view\<close>)

lemma committing_step:
  assumes "session_step cu i S S'"
  obtains s c where "sess S i = Some s" "prog s = TxReturn (Inr c)" "committing i S = [c]" "committed S' = view s (committed S)"
    | "committing i S = []" "committed S' = committed S"
  using assms
proof cases
  case (statement s fresh p ws)
  then have "committing i S = []" by (cases "prog s") (simp_all add: committing_def)
  then show ?thesis using that(2) statement(1) by simp
qed (use that in \<open>auto simp: committing_def\<close>)

definition recorded :: "reply list \<Rightarrow> reply sys \<Rightarrow> bool" where
  "recorded ls S \<longleftrightarrow> once.safe S \<and> distinct (events ls) \<and> (\<forall>c \<in> set ls. settled (label_of c) (transfers (committed S)))"

lemma recorded_move:
  assumes "session_step cu i S S'" "recorded ls S"
  shows "recorded (ls @ committing i S) S'"
proof -
  have S: "once.safe S" "distinct (events ls)" "\<And>c. c \<in> set ls \<Longrightarrow> settled (label_of c) (transfers (committed S))"
    using assms(2) by (simp_all add: recorded_def)
  have safe: "once.safe S'" by (rule once.safe_session_step [OF assms(1) S(1)])
  from assms(1) show ?thesis
  proof (cases rule: committing_step)
    case (1 s c)
    have "honest_session (committed S) s" by (rule once.safeD(3) [OF S(1) 1(1)])
    then obtain l where h: "honest (prog s) l" and rec: "records l (filter about_transfers (staged s))"
      "outstanding l (transfers (committed S))"
      unfolding honest_session_def by blast
    from h have l: "label_of c = l" unfolding 1(2) by simp
    have dist: "distinct (map trID (transfers (committed S)))"
      using once.safeD(1) [OF S(1)] by (simp add: distinct_transfers_def)
    have "set (event (label_of k)) \<inter> set (event l) = {}" if "k \<in> set ls" for k
      using settled_not_outstanding [OF S(3) [OF that] rec(2) dist] .
    then have "set (events ls) \<inter> set (event l) = {}" by (auto simp: set_events)
    moreover have "settled (label_of k) (transfers (committed S'))" if "k \<in> set ls" for k
      using settled_writes [OF S(3) [OF that]] by (simp add: 1(4) transfers_view)
    moreover have "settled l (transfers (committed S'))"
      using settled_commit [OF rec] by (simp add: 1(4))
    ultimately show ?thesis using safe S(2) 1(3) by (simp add: recorded_def l)
  next
    case 2
    then show ?thesis using safe S by (simp add: recorded_def)
  qed
qed

lemma recorded_outside:
  assumes "outside_step bodies S S'" "recorded ls S" "\<And>p d. p \<in> bodies d \<Longrightarrow> honest p Opened"
  shows "recorded ls S'"
proof -
  have "once.safe S'"
    using once.safe_outside_step [OF assms(1)] assms(2,3) by (auto simp: recorded_def)
  moreover have "transfers (committed S') = transfers (committed S)"
    using assms(1) by cases simp_all
  ultimately show ?thesis using assms(2) by (simp add: recorded_def)
qed

lemma recorded_history:
  assumes "history cu bodies S0 ls S" "recorded [] S0" "\<And>p d. p \<in> bodies d \<Longrightarrow> honest p Opened"
  shows "recorded ls S"
  using assms(1) by induction (use assms(2,3) recorded_move recorded_outside in blast)+

end
