(* ===== verification/Serial.thy ===== *)
theory Serial
  imports Exactly_Once
begin

text \<open>
  Commits are serial: whatever the interleaving, the tables a transaction leaves are those of
  its one-step specification, \<open>transfer_spec\<close> or \<open>claim_spec\<close>, applied to the tables
  committed just before. A ghost state records what a session has learnt: the wallets it has
  ensured, the balances and the holds it has read, and the writes it has staged after them.
  \<open>follows\<close> checks a body once against the ghost; \<open>describes\<close> ties the ghost to the tables,
  and the locks keep it true while other sessions commit.
\<close>

section \<open>The ghost of a session\<close>

record ghost =
  ens :: "uuid list"
  known :: "uuid \<Rightarrow> int64 option"
  holds_read :: "(uuid \<times> duration \<times> int64) option"
  rev_win :: "duration option"
  tail :: "db_write list"

definition no_ghost :: ghost where
  "no_ghost = \<lparr>ens = [], known = Map.empty, holds_read = None, rev_win = None, tail = []\<rparr>"

lemma no_ghost_simps [simp]:
  "ens no_ghost = []" "known no_ghost = Map.empty" "holds_read no_ghost = None" "tail no_ghost = []"
  by (simp_all add: no_ghost_def)

primrec follows ::
  "int64 \<Rightarrow> pgtime \<Rightarrow> transfer option \<Rightarrow> ('a \<Rightarrow> ghost \<Rightarrow> bool) \<Rightarrow> 'a txp \<Rightarrow> ghost \<Rightarrow> bool" where
  "follows seed now tgt Q (TxReturn r) = (\<lambda>g. case r of Inl err \<Rightarrow> True | Inr a \<Rightarrow> Q a g)"
| "follows seed now tgt Q (WalletExists u k) = (\<lambda>g. known g = Map.empty \<and> tail g = [] \<and> u \<notin> set (ens g) \<and>
     (\<forall>err. follows seed now tgt Q (k (Inl err)) g) \<and> follows seed now tgt Q (k (Inr False)) g \<and>
     follows seed now tgt Q (k (Inr True)) (g\<lparr>ens := ens g @ [u]\<rparr>))"
| "follows seed now tgt Q (InsertWallet u b k) = (\<lambda>g. b = seed \<and> known g = Map.empty \<and> tail g = [] \<and> u \<notin> set (ens g) \<and>
     (\<forall>err. follows seed now tgt Q (k (Inl err)) g) \<and>
     (\<forall>c. follows seed now tgt Q (k (Inr c)) (g\<lparr>ens := ens g @ [u]\<rparr>)))"
| "follows seed now tgt Q (LockWallet u k) = (\<lambda>g. tail g = [] \<and>
     (\<forall>err. follows seed now tgt Q (k (Inl err)) g) \<and>
     (\<forall>b. follows seed now tgt Q (k (Inr b)) (g\<lparr>known := (known g)(u \<mapsto> b)\<rparr>)))"
| "follows seed now tgt Q (InsertTransfer t k) = (\<lambda>g. tail g = [] \<and> known g (RecipientID t) \<noteq> None \<and>
     (\<forall>err. follows seed now tgt Q (k (Inl err)) g) \<and>
     (\<forall>i. follows seed now tgt Q (k (Inr (i, False))) g) \<and>
     (\<forall>i. follows seed now tgt Q (k (Inr (i, True))) (g\<lparr>tail := [InsTransfer (new_transfer_row now i t)]\<rparr>)))"
| "follows seed now tgt Q (SumActiveHolds u win k) = (\<lambda>g. tail g = [] \<and> known g u \<noteq> None \<and>
     (\<forall>err. follows seed now tgt Q (k (Inl err)) g) \<and>
     (\<forall>h. follows seed now tgt Q (k (Inr h)) (g\<lparr>holds_read := Some (u, win, h)\<rparr>)))"
| "follows seed now tgt Q (MarkReversed i win b k) = (\<lambda>g. tail g = [] \<and>
     (\<exists>tr. tgt = Some tr \<and> trID tr = i \<and> known g (RecipientID tr) \<noteq> None) \<and>
     (\<forall>err. follows seed now tgt Q (k (Inl err)) g) \<and>
     (\<forall>c. follows seed now tgt Q (k (Inr (c, False))) g) \<and>
     follows seed now tgt Q (k (Inr (now, True))) (g\<lparr>tail := [SetReversed i now b], rev_win := Some win\<rparr>))"
| "follows seed now tgt Q (UpdateWalletBalance u b k) = (\<lambda>g. known g u \<noteq> None \<and>
     (\<forall>err. follows seed now tgt Q (k (Inl err)) g) \<and>
     (0 \<le> sint b \<longrightarrow> follows seed now tgt Q (k (Inr ())) (g\<lparr>tail := tail g @ [SetBalance u b now]\<rparr>)))"
| "follows seed now tgt Q (TxObserve m l k) = follows seed now tgt Q k"

section \<open>The bodies of the service\<close>

text \<open>What the ghost of a body holds when it returns a reply.\<close>

fun concluded :: "extern \<Rightarrow> transfer_service \<Rightarrow> transfer option \<Rightarrow> pgtime \<Rightarrow> reply \<Rightarrow> ghost \<Rightarrow> bool" where
  "concluded x t tgt now (Paid s r amount key hash res) g \<longleftrightarrow> s \<noteq> r \<and> 0 < sint amount \<and> ens g = sort_ids x [s, r] \<and>
     (\<exists>bs br h. known g s = Some bs \<and> known g r = Some br \<and> holds_read g = Some (s, claimWindow t, h) \<and>
        \<not> (bs - amount <s h) \<and> 0 \<le> sint (br + amount) \<and>
        res = \<lparr>TransferID = TransferID res, NewBalance = bs - amount, Replayed = False\<rparr> \<and>
        tail g = [InsTransfer (transfer_row now (TransferID res) s r amount key hash (bs - amount)),
          SetBalance s (bs - amount) now, SetBalance r (br + amount) now])"
| "concluded x t tgt now (Returned tr res) g \<longleftrightarrow> tgt = Some tr \<and> 0 < sint (AmountPaise tr) \<and> ens g = [] \<and>
     rev_win g = Some (claimWindow t) \<and>
     (\<exists>bs br. known g (SenderID tr) = Some bs \<and> known g (RecipientID tr) = Some br \<and>
        0 \<le> sint (br - AmountPaise tr) \<and> 0 \<le> sint (bs + AmountPaise tr) \<and>
        res = \<lparr>cTransferID = trID tr, cNewBalance = bs + AmountPaise tr, cReversedAt = now, cReplayed = False\<rparr> \<and>
        tail g = [SetReversed (trID tr) now (bs + AmountPaise tr),
          SetBalance (RecipientID tr) (br - AmountPaise tr) now, SetBalance (SenderID tr) (bs + AmountPaise tr) now])"
| "concluded x t tgt now (Created u) g \<longleftrightarrow> ens g = [u] \<and> tail g = []"

lemma follows_ensure_wallets:
  assumes "distinct (ens g @ ids)" "known g = Map.empty" "tail g = []"
    and "follows seed now tgt Q (map_txp f rest) (g\<lparr>ens := ens g @ ids\<rparr>)"
  shows "follows seed now tgt Q (map_txp f (ensure_wallets seed ids rest)) g"
  using assms
proof (induction ids arbitrary: g)
  case (Cons u ids)
  have "follows seed now tgt Q (map_txp f (ensure_wallets seed ids rest)) (g\<lparr>ens := ens g @ [u]\<rparr>)"
    using Cons.prems by (intro Cons.IH) simp_all
  then show ?case using Cons.prems(1-3) by auto
qed simp

lemma follows_lock_wallets:
  assumes "tail g = []" "distinct ids"
    and "\<And>bals' K. (\<And>u. u \<in> set ids \<Longrightarrow> K u = Some (bals' u)) \<Longrightarrow>
      follows seed now tgt Q (map_txp f (rest bals')) (g\<lparr>known := K\<rparr>)"
  shows "follows seed now tgt Q (map_txp f (lock_wallets ids bals rest)) g"
proof -
  have "follows seed now tgt Q (map_txp f (lock_wallets ids bals rest)) g"
    if "\<And>bals' K. (\<And>u. u \<in> set ids \<Longrightarrow> K u = Some (bals' u)) \<Longrightarrow>
          (\<And>u. u \<notin> set ids \<Longrightarrow> K u = known g u \<and> bals' u = bals u) \<Longrightarrow>
          follows seed now tgt Q (map_txp f (rest bals')) (g\<lparr>known := K\<rparr>)"
      "tail g = []" "distinct ids" for g
    using that
  proof (induction ids arbitrary: g bals)
    case Nil
    from Nil.prems(1) [of "known g" bals] show ?case by simp
  next
    case (Cons i ids)
    have "follows seed now tgt Q (map_txp f (lock_wallets ids (bals(i := b)) rest)) (g\<lparr>known := (known g)(i \<mapsto> b)\<rparr>)" for b
    proof (rule Cons.IH)
      fix bals' K
      assume K: "\<And>u. u \<in> set ids \<Longrightarrow> K u = Some (bals' u)"
        "\<And>u. u \<notin> set ids \<Longrightarrow> K u = known (g\<lparr>known := (known g)(i \<mapsto> b)\<rparr>) u \<and> bals' u = (bals(i := b)) u"
      have "K u = Some (bals' u)" if "u \<in> set (i # ids)" for u
        using that K by (cases "u \<in> set ids") auto
      moreover have "K u = known g u \<and> bals' u = bals u" if "u \<notin> set (i # ids)" for u
        using that K(2) [of u] by simp
      ultimately show "follows seed now tgt Q (map_txp f (rest bals')) (g\<lparr>known := (known g)(i \<mapsto> b), known := K\<rparr>)"
        using Cons.prems(1) by simp
    qed (use Cons.prems in simp_all)
    then show ?case using Cons.prems(2) by simp
  qed
  then show ?thesis using assms by blast
qed

lemma follows_execute_move:
  assumes "s \<noteq> r" "0 < sint amount" "known g s = Some (bals s)" "known g r = Some (bals r)"
    and "tail g = []" "ens g = sort_ids x [s, r]"
  shows "follows seed now tgt (concluded x t tgt now) (map_txp (Paid s r amount key hash) (execute_move t s r amount key hash bals)) g"
  using assms
  by (auto simp: execute_move_def Let_def orReturn_def new_transfer_row_def transfer_row_def split: sum.split)

lemma follows_execute_tx:
  assumes "s \<noteq> r" "0 < sint amount"
  shows "follows (seedPaise t) now tgt (concluded x t tgt now) (execute_tx x t s r amount key hash) no_ghost"
proof -
  have dist: "distinct (sort_ids x [s, r])" using assms(1) by (simp add: sort_ids_two)
  show ?thesis
    unfolding execute_tx_def execute_body_def Let_def
    by (intro follows_ensure_wallets follows_lock_wallets follows_execute_move) (use assms dist in simp_all)
qed

lemma follows_claim_tx:
  assumes "SenderID tr \<noteq> RecipientID tr" "0 < sint (AmountPaise tr)"
  shows "follows seed now (Some tr) (concluded x t (Some tr) now) (claim_tx x t tr) no_ghost"
proof -
  have dist: "distinct (sort_ids x [SenderID tr, RecipientID tr])" using assms(1) by (simp add: sort_ids_two)
  show ?thesis
    unfolding claim_tx_def claim_body_def Let_def
    by (intro follows_lock_wallets) (use assms dist in \<open>auto simp: claim_move_def Let_def orReturn_def split: sum.split\<close>)
qed

lemma follows_open_tx: "follows (seedPaise t) now tgt (concluded x t tgt now) (open_tx t u) no_ghost"
  by (simp add: open_tx_def)


section \<open>The ghost and the tables\<close>

definition new_row :: "int64 \<Rightarrow> pgtime \<Rightarrow> uuid \<Rightarrow> db_write" where
  "new_row seed now u = InsWallet \<lparr>wUserID = u, BalancePaise = seed, wCreatedAt = now, wUpdatedAt = now\<rparr>"

definition missing :: "uuid list \<Rightarrow> db \<Rightarrow> uuid list" where
  "missing ids d = filter (\<lambda>u. \<not> has_wallet u d) ids"

lemma missing_append [simp]: "missing (ids @ ids') d = missing ids d @ missing ids' d"
  by (simp add: missing_def)

text \<open>What a staged write rests on: its locks, and what it needs of the committed tables.\<close>

fun grounded :: "(duration \<Rightarrow> pgtime) \<Rightarrow> transfer option \<Rightarrow> duration option \<Rightarrow> db \<Rightarrow> resource set \<Rightarrow> db_write \<Rightarrow> bool" where
  "grounded cu tgt win d R (InsTransfer tr) \<longleftrightarrow> WalletRow (RecipientID tr) \<in> R \<and>
     TransferKey (SenderID tr) (IdempotencyKey tr) \<in> R \<and> TransferRow (trID tr) \<in> R \<and>
     transfer_key tr \<notin> transfer_key ` set (transfers d) \<and> trID tr \<notin> trID ` set (transfers d)"
| "grounded cu tgt win d R (SetReversed i now b) \<longleftrightarrow> TransferRow i \<in> R \<and>
     (\<exists>tr w. tgt = Some tr \<and> trID tr = i \<and> WalletRow (RecipientID tr) \<in> R \<and> win = Some w \<and>
       (\<exists>row \<in> set (transfers d). trID row = i \<and> active_hold (cu w) row))"
| "grounded cu tgt win d R (SetBalance u b now) \<longleftrightarrow> WalletRow u \<in> R"
| "grounded cu tgt win d R _ \<longleftrightarrow> False"

definition has_target :: "transfer option \<Rightarrow> db \<Rightarrow> bool" where
  "has_target tgt d \<longleftrightarrow> (case tgt of None \<Rightarrow> True | Some tr \<Rightarrow> \<exists>row \<in> set (transfers d). same_columns tr row)"

definition describes :: "int64 \<Rightarrow> (duration \<Rightarrow> pgtime) \<Rightarrow> pgtime \<Rightarrow> transfer option \<Rightarrow> db \<Rightarrow> resource set \<Rightarrow> db_write list \<Rightarrow> ghost \<Rightarrow> bool" where
  "describes seed cu now tgt d R ws g \<longleftrightarrow>
     ws = map (new_row seed now) (missing (ens g) d) @ tail g \<and> distinct (ens g) \<and>
     WalletKey ` set (missing (ens g) d) \<subseteq> R \<and>
     (\<forall>u b. known g u = Some b \<longrightarrow>
        WalletRow u \<in> R \<and> balance_of u (fold (ensure_wallet seed now) (ens g) d) = Some b) \<and>
     (case holds_read g of None \<Rightarrow> True | Some (u, win, h) \<Rightarrow>
        WalletRow u \<in> R \<and> fits_int64 (held_sum (cu win) u d) \<and> h = word_of_int (held_sum (cu win) u d)) \<and>
     (\<forall>w \<in> set (tail g). grounded cu tgt (rev_win g) d R w) \<and> has_target tgt d"

lemma describesD:
  assumes "describes seed cu now tgt d R ws g"
  shows "ws = map (new_row seed now) (missing (ens g) d) @ tail g" "distinct (ens g)"
    "WalletKey ` set (missing (ens g) d) \<subseteq> R"
    "known g u = Some b \<Longrightarrow> WalletRow u \<in> R \<and> balance_of u (fold (ensure_wallet seed now) (ens g) d) = Some b"
    "holds_read g = Some (u, win, h) \<Longrightarrow>
       WalletRow u \<in> R \<and> fits_int64 (held_sum (cu win) u d) \<and> h = word_of_int (held_sum (cu win) u d)"
    "w \<in> set (tail g) \<Longrightarrow> grounded cu tgt (rev_win g) d R w" "has_target tgt d"
  using assms unfolding describes_def by auto

lemma missing_simps [simp]: "missing [] d = []" "missing [u] d = (if has_wallet u d then [] else [u])"
  by (simp_all add: missing_def)

lemma ensure_wallet_row: "ensure_wallet seed now u d = (if has_wallet u d then d else apply_write (new_row seed now u) d)"
  by (simp add: ensure_wallet_def new_row_def)

lemma ensured_tables:
  "distinct ids \<Longrightarrow> apply_writes (map (new_row seed now) (missing ids d)) d = fold (ensure_wallet seed now) ids d"
proof (induction ids rule: rev_induct)
  case (snoc u ids)
  then have IH: "apply_writes (map (new_row seed now) (missing ids d)) d = fold (ensure_wallet seed now) ids d"
    by simp
  have "has_wallet u (fold (ensure_wallet seed now) ids d) = has_wallet u d" using snoc.prems by simp
  then show ?case
    using IH ensure_wallet_row [of seed now u "fold (ensure_wallet seed now) ids d"] by simp
qed simp

lemma describes_view:
  assumes "describes seed cu now tgt d R ws g"
  shows "apply_writes ws d = apply_writes (tail g) (fold (ensure_wallet seed now) (ens g) d)"
  using describesD(1,2) [OF assms] ensured_tables [of "ens g" seed now d] by simp

lemma has_wallet_tail:
  "\<forall>w \<in> set ws. grounded cu tgt win d' R w \<Longrightarrow> has_wallet u (apply_writes ws d) = has_wallet u d"
proof (induction ws arbitrary: d)
  case (Cons w ws)
  then show ?case by (cases w) simp_all
qed simp

lemma describes_has_wallet:
  assumes "describes seed cu now tgt d R ws g"
  shows "has_wallet u (apply_writes ws d) \<longleftrightarrow> has_wallet u d \<or> u \<in> set (ens g)"
  unfolding describes_view [OF assms]
  using has_wallet_tail [of "tail g" cu tgt "rev_win g" d R u] describesD(6) [OF assms] by simp

lemma describes_more_locks:
  "describes seed cu now tgt d R ws g \<Longrightarrow> describes seed cu now tgt d (R \<union> R') ws g"
proof -
  have "grounded cu tgt win d R w \<Longrightarrow> grounded cu tgt win d (R \<union> R') w" for win w
    by (cases w) auto
  then show "describes seed cu now tgt d R ws g \<Longrightarrow> describes seed cu now tgt d (R \<union> R') ws g"
    unfolding describes_def by (auto split: option.splits)
qed

section \<open>A statement keeps the description\<close>

definition following :: "extern \<Rightarrow> transfer_service \<Rightarrow> (pgtime \<Rightarrow> duration \<Rightarrow> pgtime) \<Rightarrow> db \<Rightarrow> reply session \<Rightarrow> bool" where
  "following x t cu d s \<longleftrightarrow> (\<exists>tgt g.
     follows (seedPaise t) (began s) tgt (concluded x t tgt (began s)) (prog s) g \<and>
     describes (seedPaise t) (cu (began s)) (began s) tgt d (held s) (staged s) g)"

lemma followingI:
  "follows (seedPaise t) (began s) tgt (concluded x t tgt (began s)) (prog s) g \<Longrightarrow>
   describes (seedPaise t) (cu (began s)) (began s) tgt d (held s) (staged s) g \<Longrightarrow> following x t cu d s"
  unfolding following_def by blast

text \<open>The tables a statement sees before any write that is not a new wallet.\<close>

lemma describes_ensured:
  assumes "describes seed cu now tgt d R ws g" "tail g = []"
  shows "apply_writes ws d = fold (ensure_wallet seed now) (ens g) d" "transfers (apply_writes ws d) = transfers d"
    "held_sum c u (apply_writes ws d) = held_sum c u d"
  using describes_view [OF assms(1)] assms(2) by simp_all

lemma describes_old_wallet:
  assumes "describes seed cu now tgt d R ws g" "has_wallet u (apply_writes ws d)" "u \<notin> set (ens g)" "known g = Map.empty"
  shows "describes seed cu now tgt d R ws (g\<lparr>ens := ens g @ [u]\<rparr>)"
proof -
  have "has_wallet u d" using assms(2,3) describes_has_wallet [OF assms(1)] by simp
  then show ?thesis using assms by (simp add: describes_def missing_def)
qed

lemma describes_new_wallet:
  assumes "describes seed cu now tgt d R ws g" "\<not> has_wallet u (apply_writes ws d)" "tail g = []" "known g = Map.empty"
  shows "describes seed cu now tgt d (R \<union> {WalletKey u}) (ws @ [new_row seed now u]) (g\<lparr>ens := ens g @ [u]\<rparr>)"
proof -
  have "\<not> has_wallet u d" "u \<notin> set (ens g)" using assms(2) describes_has_wallet [OF assms(1)] by simp_all
  then show ?thesis using assms(3,4) describes_more_locks [OF assms(1), of "{WalletKey u}"] by (auto simp: describes_def missing_def)
qed

lemma describes_locked:
  assumes "describes seed cu now tgt d R ws g" "balance_of u (apply_writes ws d) = Some b" "tail g = []"
  shows "describes seed cu now tgt d (R \<union> {WalletRow u}) ws (g\<lparr>known := (known g)(u \<mapsto> b)\<rparr>)"
  using describes_more_locks [OF assms(1), of "{WalletRow u}"] assms(2,3) describes_ensured(1) [OF assms(1,3)]
  by (auto simp: describes_def)

lemma describes_holds:
  assumes "describes seed cu now tgt d R ws g" "known g u \<noteq> None" "fits_int64 (held_sum (cu win) u d)"
  shows "describes seed cu now tgt d R ws (g\<lparr>holds_read := Some (u, win, word_of_int (held_sum (cu win) u d))\<rparr>)"
  using assms describesD(4) [OF assms(1), of u] by (auto simp: describes_def)

lemma describes_write:
  assumes "describes seed cu now tgt d R ws g" "grounded cu tgt win d (R \<union> R') w" "tail g = [] \<or> win = rev_win g"
  shows "describes seed cu now tgt d (R \<union> R') (ws @ [w]) (g\<lparr>tail := tail g @ [w], rev_win := win\<rparr>)"
  using describes_more_locks [OF assms(1), of R'] assms(2,3) by (auto simp: describes_def)


lemma following_next:
  assumes "follows (seedPaise t) (began s) tgt (concluded x t tgt (began s)) p g"
    and "describes (seedPaise t) (cu (began s)) (began s) tgt d (held s \<union> R) (staged s @ ws) g"
  shows "following x t cu d (s\<lparr>prog := p, staged := staged s @ ws, held := held s \<union> R\<rparr>)"
  using assms by (intro followingI [where g = g and tgt = tgt]) simp_all

lemma following_statement:
  assumes "following x t cu d s" "tx_next (cu (began s)) (began s) fresh (view s d) (prog s) = Some (p, ws)"
  shows "following x t cu d (s\<lparr>prog := p, staged := staged s @ ws,
    held := held s \<union> needs (cu (began s)) fresh (view s d) (prog s)\<rparr>)"
proof -
  let ?v = "apply_writes (staged s) d"
  obtain tgt g where f: "follows (seedPaise t) (began s) tgt (concluded x t tgt (began s)) (prog s) g"
    and D: "describes (seedPaise t) (cu (began s)) (began s) tgt d (held s) (staged s) g"
    using assms(1) unfolding following_def by blast
  have D': "describes (seedPaise t) (cu (began s)) (began s) tgt d (insert a (held s)) (staged s) g"
    "describes (seedPaise t) (cu (began s)) (began s) tgt d (insert a (insert b (held s))) (staged s) g" for a b
    using describes_more_locks [OF D, of "{a}"] describes_more_locks [OF D, of "{a, b}"] by simp_all
  have known: "known g u = Some b \<Longrightarrow> WalletRow u \<in> held s \<and> has_wallet u ?v" for u b
    using describesD(4) [OF D, of u b] describes_has_wallet [OF D, of u]
      balance_of_has_wallet [of u "fold (ensure_wallet (seedPaise t) (began s)) (ens g) d" b] by auto
  note nxt = assms(2) [unfolded view_def]
  have "\<exists>g'. follows (seedPaise t) (began s) tgt (concluded x t tgt (began s)) p g' \<and>
      describes (seedPaise t) (cu (began s)) (began s) tgt d (held s \<union> needs (cu (began s)) fresh ?v (prog s)) (staged s @ ws) g'"
  proof (cases "prog s")
    case (WalletExists u k)
    then show ?thesis
      using f nxt D describes_old_wallet [OF D, of u]
      by (cases "has_wallet u ?v") (auto simp: continue_with_def Tx_Fine)
  next
    case (InsertWallet u b k)
    then show ?thesis
      using f nxt D D' describes_old_wallet [OF D, of u] describes_new_wallet [OF D, of u]
      by (auto simp: continue_with_def Tx_Fine new_row_def split: if_splits)
  next
    case (LockWallet u k)
    then show ?thesis
      using f nxt D D' describes_locked [OF D, of u] balance_of_has_wallet [of u ?v]
      by (auto simp: continue_with_def Tx_Fine split: if_splits option.splits)
  next
    case (SumActiveHolds u win k)
    then show ?thesis
      using f nxt D describes_holds [OF D, of u win] describes_ensured(3) [OF D]
      by (auto simp: continue_with_def Tx_Fine split: if_splits)
  next
    case (InsertTransfer tr k)
    then show ?thesis
      using f nxt D D' describes_ensured(2) [OF D] known [of "RecipientID tr"]
        describes_write [OF D, of "rev_win g" "needs (cu (began s)) fresh ?v (prog s)" "InsTransfer (new_transfer_row (began s) fresh tr)"]
      by (auto simp: continue_with_def Tx_Fine new_transfer_row_def transfer_key_def split: if_splits)
  next
    case (MarkReversed i win b k)
    then show ?thesis
      using f nxt D D' describes_ensured(2) [OF D]
        describes_write [OF D, of "Some win" "{TransferRow i}" "SetReversed i (began s) b"] known
      by (fastforce simp: continue_with_def Tx_Fine split: if_splits)
  next
    case (UpdateWalletBalance u b k)
    then show ?thesis
      using f nxt D D' known [of u] describes_write [OF D, of "rev_win g" "{WalletRow u}" "SetBalance u b (began s)"]
      by (auto simp: continue_with_def Tx_Fine split: if_splits)
  next
    case (TxObserve m l k)
    then show ?thesis
      using f nxt D by (auto)
  qed (use nxt in simp)
  then show ?thesis unfolding view_def by (auto intro: following_next)
qed


section \<open>The commit of another session keeps the description\<close>

lemma balance_tail:
  "\<forall>w \<in> set ws. grounded cu tgt win d' R w \<Longrightarrow> WalletRow u \<notin> R \<Longrightarrow> balance_of u (apply_writes ws d) = balance_of u d"
proof (induction ws arbitrary: d)
  case (Cons w ws)
  then show ?case by (cases w) auto
qed simp

lemma same_columns_write:
  assumes "row \<in> set ts" "same_columns tr row"
  shows "\<exists>row' \<in> set (fold write_transfers ws ts). same_columns tr row'"
  using assms
proof (induction ws arbitrary: row ts)
  case (Cons w ws)
  have "\<exists>row' \<in> set (write_transfers w ts). same_columns tr row'"
  proof (cases w)
    case (SetReversed i now b)
    have "same_columns tr (set_reversed now b row)" using Cons.prems(2) by (simp add: same_columns_def)
    then show ?thesis using Cons.prems SetReversed by (cases "trID row = i") (auto simp: set_update_where)
  qed (use Cons.prems in auto)
  then obtain row' where "row' \<in> set (write_transfers w ts)" "same_columns tr row'" by blast
  then show ?case using Cons.IH by simp
qed auto

lemma holds_of_others:
  assumes "\<And>t. t \<in> set ts \<Longrightarrow> p t \<Longrightarrow> RecipientID t \<noteq> u"
  shows "filter (\<lambda>t. RecipientID t = u \<and> active_hold c t) (update_where p (set_reversed now b) ts) =
    filter (\<lambda>t. RecipientID t = u \<and> active_hold c t) ts"
  using assms by (induction ts) (auto simp: update_where_def)

text \<open>The rows a session may write belong to recipients it has locked.\<close>

lemma target_rows:
  assumes "distinct_transfers d" "has_target (Some tr) d" "t \<in> set (transfers d)" "trID t = trID tr"
  shows "same_columns tr t"
proof -
  obtain row where "row \<in> set (transfers d)" "same_columns tr row" using assms(2) by (auto simp: has_target_def)
  moreover have "row = t"
    using assms(1,3,4) calculation by (auto simp: distinct_transfers_def distinct_map inj_on_def same_columns_def)
  ultimately show ?thesis by simp
qed

lemma held_sum_commit:
  assumes dist: "distinct_transfers d" and D: "describes seed cu now tgt d (held s) (staged s) g"
    and rec: "records l (filter about_transfers (staged s))" and free: "WalletRow u \<notin> held s"
  shows "held_sum c u (view s d) = held_sum c u d"
proof -
  have tail: "grounded cu tgt (rev_win g) d (held s) w" if "w \<in> set (filter about_transfers (staged s))" for w
    using that describesD(1) [OF D] by (auto intro: describesD(6) [OF D] simp: new_row_def)
  show ?thesis
  proof (cases l)
    case (Posted v key i)
    then obtain tr where tr: "filter about_transfers (staged s) = [InsTransfer tr]" using rec by auto
    have "RecipientID tr \<noteq> u" using tail [of "InsTransfer tr"] free by (auto simp: tr)
    then show ?thesis by (simp add: held_sum_def transfers_view tr)
  next
    case (ClaimedBack i)
    then obtain nw b where w: "filter about_transfers (staged s) = [SetReversed i nw b]" using rec by auto
    obtain tr where tr: "tgt = Some tr" "trID tr = i" "WalletRow (RecipientID tr) \<in> held s"
      using tail [of "SetReversed i nw b"] by (auto simp: w)
    have "RecipientID t \<noteq> u" if "t \<in> set (transfers d)" "trID t = i" for t
      using target_rows [OF dist, of tr t] describesD(7) [OF D] that tr free by (auto simp: same_columns_def)
    then show ?thesis by (simp add: held_sum_def transfers_view w holds_of_others)
  next
    case Opened
    then show ?thesis using rec by (simp add: held_sum_def transfers_view)
  qed
qed

lemma active_hold_commit:
  assumes "row \<in> set (transfers d)" "trID row = i" "active_hold c row" "records l (filter about_transfers (staged s))"
    and "label_locks l \<subseteq> R" "TransferRow i \<notin> R"
  shows "\<exists>row \<in> set (transfers (view s d)). trID row = i \<and> active_hold c row"
proof (cases l)
  case (ClaimedBack j)
  then obtain nw b where "filter about_transfers (staged s) = [SetReversed j nw b]" using assms(4) by auto
  moreover have "j \<noteq> i" using assms(5,6) ClaimedBack by auto
  ultimately show ?thesis using assms(1-3) by (auto simp: transfers_view set_update_where)
qed (use assms in \<open>auto simp: transfers_view\<close>)

lemma grounded_commit:
  assumes "grounded cu tgt win d R w" "records l (filter about_transfers (staged s))" "label_locks l \<subseteq> held s" "R \<inter> held s = {}"
  shows "grounded cu tgt win (view s d) R w"
proof (cases w)
  case (InsTransfer tr)
  have "outstanding (Posted (SenderID tr) (IdempotencyKey tr) (trID tr)) (transfers (view s d))"
    by (rule outstanding_commit [OF assms(2)]) (use assms InsTransfer in \<open>auto simp: transfer_key_def\<close>)
  then show ?thesis using assms(1) InsTransfer by (simp add: transfer_key_def)
next
  case (SetReversed i nw b)
  then obtain tr c row where *: "TransferRow i \<in> R" "tgt = Some tr" "trID tr = i" "WalletRow (RecipientID tr) \<in> R" "win = Some c"
    "row \<in> set (transfers d)" "trID row = i" "active_hold (cu c) row"
    using assms(1) by auto
  have "TransferRow i \<notin> held s" using *(1) assms(4) by blast
  then show ?thesis
    using active_hold_commit [OF *(6-8) assms(2,3)] * SetReversed by simp
qed (use assms in auto)

lemma describes_commit:
  fixes s' :: "reply session"
  assumes dist: "distinct_transfers d" and D: "describes seed cu now tgt d R ws g"
    and D': "describes seed cu' now' tgt' d (held s') (staged s') g'" and hon: "honest_session d s'" and disj: "R \<inter> held s' = {}"
  shows "describes seed cu now tgt (view s' d) R ws g"
proof -
  obtain l where l: "records l (filter about_transfers (staged s'))" "label_locks l \<subseteq> held s'"
    using hon unfolding honest_session_def by blast
  have hw: "has_wallet u (view s' d) \<longleftrightarrow> has_wallet u d \<or> u \<in> set (ens g')" for u
    using describes_has_wallet [OF D'] by (simp add: view_def)
  have same: "has_wallet u (view s' d) = has_wallet u d" if "u \<in> set (ens g)" for u
  proof (rule ccontr)
    assume "has_wallet u (view s' d) \<noteq> has_wallet u d"
    then have "\<not> has_wallet u d" "u \<in> set (ens g')" using hw by auto
    then have "WalletKey u \<in> R" "WalletKey u \<in> held s'"
      using describesD(3) [OF D] describesD(3) [OF D'] that by (auto simp: missing_def)
    then show False using disj by blast
  qed
  have mis: "missing (ens g) (view s' d) = missing (ens g) d"
    unfolding missing_def by (rule filter_cong) (simp_all add: same)
  have bal: "balance_of u (view s' d) = balance_of u d" if "WalletRow u \<in> R" "has_wallet u d" for u
  proof -
    have free: "WalletRow u \<notin> held s'" using that(1) disj by blast
    have "balance_of u (view s' d) = balance_of u (fold (ensure_wallet seed now') (ens g') d)"
      unfolding view_def describes_view [OF D']
      using balance_tail [OF _ free, of "tail g'"] describesD(6) [OF D'] by blast
    then show ?thesis using that(2) by (simp add: balance_of_ensure_wallets)
  qed
  have "balance_of u (fold (ensure_wallet seed now) (ens g) (view s' d)) = Some b" if k: "known g u = Some b" for u b
  proof -
    have u: "WalletRow u \<in> R" "balance_of u (fold (ensure_wallet seed now) (ens g) d) = Some b"
      using describesD(4) [OF D k] by simp_all
    show ?thesis
    proof (cases "u \<in> set (ens g) \<and> \<not> has_wallet u d")
      case True
      then show ?thesis using u(2) same [of u] by (simp add: balance_of_ensure_wallets)
    next
      case False
      then have b: "balance_of u d = Some b" using u(2) by (auto simp: balance_of_ensure_wallets)
      then have "has_wallet u d" by (rule balance_of_has_wallet)
      then show ?thesis using b bal [OF u(1)] hw [of u] by (simp add: balance_of_ensure_wallets)
    qed
  qed
  moreover have "held_sum (cu win) u (view s' d) = held_sum (cu win) u d" if "WalletRow u \<in> R" for u win
    by (rule held_sum_commit [OF dist D' l(1)]) (use that disj in blast)
  moreover have "has_target tgt (view s' d)"
    using describesD(7) [OF D] same_columns_write [of _ "transfers d" _ "filter about_transfers (staged s')"]
    by (auto simp: has_target_def transfers_view split: option.splits)
  ultimately show ?thesis
    using D grounded_commit [OF _ l disj] unfolding describes_def mis
    by (auto split: option.splits)
qed

lemma following_commit:
  assumes "distinct_transfers d" "following x t cu d s" "following x t cu d s'" "honest_session d s'" "held s \<inter> held s' = {}"
  shows "following x t cu (view s' d) s"
  using assms(2,3) describes_commit [OF assms(1) _ _ assms(4,5)] unfolding following_def by blast


section \<open>A commit is one step of the specification\<close>

definition following_bodies :: "extern \<Rightarrow> transfer_service \<Rightarrow> db \<Rightarrow> reply txp set" where
  "following_bodies x t d = {p. honest p Opened \<and> (\<exists>tgt. has_target tgt d \<and>
     (\<forall>now. follows (seedPaise t) now tgt (concluded x t tgt now) p no_ghost))}"

lemma describes_start: "has_target tgt d \<Longrightarrow> describes seed cu now tgt d {} [] no_ghost"
  by (simp add: describes_def missing_def)

lemma describes_sign_up:
  "describes seed cu now tgt (apply_write (InsUser usr) d) R ws g = describes seed cu now tgt d R ws g"
proof -
  have mis: "missing ids (apply_write (InsUser usr) d) = missing ids d" for ids by (simp add: missing_def)
  have bal: "balance_of u (fold (ensure_wallet seed now) ids (apply_write (InsUser usr) d)) =
      balance_of u (fold (ensure_wallet seed now) ids d)" for u ids
    by (simp add: balance_of_ensure_wallets)
  have gr: "grounded cu tgt win (apply_write (InsUser usr) d) R w = grounded cu tgt win d R w" for win w
    by (cases w) auto
  have tg: "has_target tgt (apply_write (InsUser usr) d) = has_target tgt d" by (simp add: has_target_def split: option.split)
  show ?thesis unfolding describes_def mis bal gr tg held_sum_write ..
qed

lemma following_sign_up: "following x t cu d s \<Longrightarrow> following x t cu (apply_write (InsUser usr) d) s"
  by (simp add: following_def describes_sign_up)

interpretation serial: session_invariant cu distinct_transfers "\<lambda>d s. honest_session d s \<and> following x t cu d s" "following_bodies x t"
  for cu :: "pgtime \<Rightarrow> duration \<Rightarrow> pgtime" and x :: extern and t :: transfer_service
proof
  fix p d now assume "p \<in> following_bodies x t d" "distinct_transfers d"
  then obtain tgt where "honest p Opened" "has_target tgt d"
    "follows (seedPaise t) now tgt (concluded x t tgt now) p no_ghost"
    by (auto simp: following_bodies_def)
  then show "honest_session d (start now p) \<and> following x t cu d (start now p)"
    by (auto simp: start_def describes_start intro!: honest_sessionI [where l = Opened] followingI [where g = no_ghost])
next
  show "distinct_transfers (view s d)" if "distinct_transfers d" "honest_session d s \<and> following x t cu d s" for d s
    using that distinct_commit unfolding honest_session_def by blast
  show "distinct_transfers (apply_write (InsUser usr) d)" if "distinct_transfers d" for d usr
    using that by (simp add: distinct_transfers_def)
  show "honest_session (apply_write (InsUser usr) d) s \<and> following x t cu (apply_write (InsUser usr) d) s"
    if "honest_session d s \<and> following x t cu d s" for d s usr
    using that following_sign_up by (simp add: honest_session_def)
  show "honest_session (view s' d) s \<and> following x t cu (view s' d) s"
    if "distinct_transfers d" "honest_session d s \<and> following x t cu d s" "honest_session d s' \<and> following x t cu d s'"
      "held s \<inter> held s' = {}" for d s s'
    using that honest_session_commit following_commit by blast
qed (simp add: honest_session_statement following_statement)

lemma service_bodies_follow: "service_bodies x t d \<subseteq> following_bodies x t d"
proof
  fix p assume p: "p \<in> service_bodies x t d"
  then have "\<exists>tgt. has_target tgt d \<and> (\<forall>now. follows (seedPaise t) now tgt (concluded x t tgt now) p no_ghost)"
    unfolding service_bodies_def
  proof (elim UnE CollectE exE conjE)
    fix tr assume "p = claim_tx x t tr" "SenderID tr \<noteq> RecipientID tr" "0 < sint (AmountPaise tr)"
      "\<exists>row \<in> set (transfers d). same_columns tr row"
    then show ?thesis using follows_claim_tx by (intro exI [of _ "Some tr"]) (simp add: has_target_def)
  qed (auto intro!: exI [of _ None] simp: has_target_def follows_execute_tx follows_open_tx)
  then show "p \<in> following_bodies x t d"
    using honest_service_bodies [OF p] by (simp add: following_bodies_def)
qed

text \<open>The step of the specification that a reply stands for.\<close>

fun spec_step :: "extern \<Rightarrow> transfer_service \<Rightarrow> (duration \<Rightarrow> pgtime) \<Rightarrow> pgtime \<Rightarrow> reply \<Rightarrow> db \<Rightarrow> db \<Rightarrow> bool" where
  "spec_step x t cu now (Paid s r amount key hash res) d d' \<longleftrightarrow>
     transfer_spec now (cu (claimWindow t)) (seedPaise t) (sort_ids x [s, r]) (TransferID res) s r amount key hash d = Inr (res, d')"
| "spec_step x t cu now (Returned tr res) d d' \<longleftrightarrow> claim_spec now (cu (claimWindow t)) tr d = Inr (res, d')"
| "spec_step x t cu now (Created u) d d' \<longleftrightarrow> d' = ensure_wallet (seedPaise t) now u d"

text \<open>What the bodies have checked of a request before they began.\<close>

fun sound_reply :: "db \<Rightarrow> reply \<Rightarrow> bool" where
  "sound_reply d (Paid s r amount key hash res) \<longleftrightarrow> s \<noteq> r \<and> 0 < sint amount"
| "sound_reply d (Returned tr res) \<longleftrightarrow> (\<exists>row \<in> set (transfers d). same_columns tr row)"
| "sound_reply d (Created u) \<longleftrightarrow> True"

lemma commit_sound:
  assumes "following x t cu d s" "prog s = TxReturn (Inr c)"
  shows "sound_reply d c"
proof -
  obtain tgt g where "concluded x t tgt (began s) c g"
    and D: "describes (seedPaise t) (cu (began s)) (began s) tgt d (held s) (staged s) g"
    using assms unfolding following_def by auto
  with describesD(7) [OF D] show ?thesis by (cases c) (simp_all add: has_target_def)
qed

lemma ensured_nonneg:
  assumes "\<forall>u b. balance_of u d = Some b \<longrightarrow> 0 \<le> sint b" "0 \<le> sint seed"
    and "balance_of u (fold (ensure_wallet seed now) ids d) = Some b"
  shows "0 \<le> sint b"
  using assms by (auto simp: balance_of_ensure_wallets split: if_splits)

lemma commit_spec:
  assumes "following x t cu d s" "prog s = TxReturn (Inr c)" "\<forall>u b. balance_of u d = Some b \<longrightarrow> 0 \<le> sint b" "0 \<le> sint (seedPaise t)"
  shows "spec_step x t (cu (began s)) (began s) c d (view s d)"
proof -
  obtain tgt g where con: "concluded x t tgt (began s) c g"
    and D: "describes (seedPaise t) (cu (began s)) (began s) tgt d (held s) (staged s) g"
    using assms(1,2) unfolding following_def by auto
  note view = describes_view [OF D]
  note nonneg = ensured_nonneg [OF assms(3,4), where now = "began s" and ids = "ens g"]
  show ?thesis
  proof (cases c)
    case (Paid u r amount key hash res)
    let ?now = "began s" let ?held = "held_sum (cu (began s) (claimWindow t)) u d"
    from con obtain bs br h where c: "0 < sint amount" "ens g = sort_ids x [u, r]" "known g u = Some bs" "known g r = Some br"
      "holds_read g = Some (u, claimWindow t, h)" "\<not> (bs - amount <s h)" "0 \<le> sint (br + amount)"
      "res = \<lparr>TransferID = TransferID res, NewBalance = bs - amount, Replayed = False\<rparr>"
      "tail g = [InsTransfer (transfer_row ?now (TransferID res) u r amount key hash (bs - amount)),
          SetBalance u (bs - amount) ?now, SetBalance r (br + amount) ?now]"
      by (auto simp: Paid)
    have bal: "balance_of u (fold (ensure_wallet (seedPaise t) ?now) (sort_ids x [u, r]) d) = Some bs"
      "balance_of r (fold (ensure_wallet (seedPaise t) ?now) (sort_ids x [u, r]) d) = Some br"
      using describesD(4) [OF D c(3)] describesD(4) [OF D c(4)] by (simp_all add: c(2))
    have nn: "0 \<le> sint bs" "0 \<le> sint br" using nonneg bal by (simp_all add: c(2))
    have hold: "fits_int64 ?held" "h = word_of_int ?held"
      using describesD(5) [OF D c(5)] by simp_all
    have key: "(u, key) \<notin> transfer_key ` set (transfers d)" "TransferID res \<notin> trID ` set (transfers d)"
      using describesD(6) [OF D, of "InsTransfer (transfer_row ?now (TransferID res) u r amount key hash (bs - amount))"]
      by (simp_all add: c(9) transfer_row_def transfer_key_def)
    have "?held \<le> sint bs - sint amount"
      using c(6) nn(1) c(1) hold by (simp add: int64_sless_iff sint_of_int_int64 sint_int64_minus_exact)
    moreover have "sint br + sint amount < 2 ^ 63"
      using sint_int64_plus_bound [OF c(7)] nn(2) c(1) by simp
    ultimately have "transfer_spec ?now (cu ?now (claimWindow t)) (seedPaise t) (sort_ids x [u, r]) (TransferID res) u r amount key hash d
      = Inr (\<lparr>TransferID = TransferID res, NewBalance = bs - amount, Replayed = False\<rparr>, view s d)"
      using transfer_specI [OF bal hold(1) key] by (simp add: view_def view c(2,9) del: apply_writes_simps)
    then show ?thesis using c(8) by (simp add: Paid)
  next
    case (Returned tr res)
    let ?now = "began s"
    from con obtain bs br where c: "0 < sint (AmountPaise tr)" "ens g = []" "rev_win g = Some (claimWindow t)"
      "known g (SenderID tr) = Some bs" "known g (RecipientID tr) = Some br"
      "0 \<le> sint (br - AmountPaise tr)" "0 \<le> sint (bs + AmountPaise tr)"
      "res = \<lparr>cTransferID = trID tr, cNewBalance = bs + AmountPaise tr, cReversedAt = ?now, cReplayed = False\<rparr>"
      "tail g = [SetReversed (trID tr) ?now (bs + AmountPaise tr),
          SetBalance (RecipientID tr) (br - AmountPaise tr) ?now, SetBalance (SenderID tr) (bs + AmountPaise tr) ?now]"
      by (auto simp: Returned)
    have bal: "balance_of (SenderID tr) d = Some bs" "balance_of (RecipientID tr) d = Some br"
      using describesD(4) [OF D c(4)] describesD(4) [OF D c(5)] by (simp_all add: c(2))
    have nn: "0 \<le> sint bs" "0 \<le> sint br" using assms(3) bal by blast+
    have act: "\<exists>row \<in> set (transfers d). trID row = trID tr \<and> active_hold (cu ?now (claimWindow t)) row"
      using describesD(6) [OF D, of "SetReversed (trID tr) ?now (bs + AmountPaise tr)"] by (auto simp: c(3,9))
    have "\<not> sint br < sint (AmountPaise tr)"
      using c(1,6) nn(2) by (simp add: sint_int64_minus_exact)
    moreover have "\<not> 2 ^ 63 \<le> sint bs + sint (AmountPaise tr)"
      using sint_int64_plus_bound [OF c(7)] nn(1) c(1) by simp
    moreover have "view s d = apply_writes (tail g) d" by (simp add: view_def view c(2))
    ultimately show ?thesis
      using act by (simp add: Returned claim_spec_def bal c(8,9) del: apply_writes_simps)
  next
    case (Created u)
    then show ?thesis using con view by (simp add: view_def)
  qed
qed

section \<open>Histories are serial\<close>

text \<open>
  A serial run: the replies in the order of their commits, each one step of its specification
  at the time its transaction began, with the signups of users in between.
\<close>

inductive serial_run ::
  "extern \<Rightarrow> transfer_service \<Rightarrow> (pgtime \<Rightarrow> duration \<Rightarrow> pgtime) \<Rightarrow> db \<Rightarrow> reply list \<Rightarrow> db \<Rightarrow> bool"
  for x :: extern and t :: transfer_service and cu :: "pgtime \<Rightarrow> duration \<Rightarrow> pgtime" and d0 :: db where
  serial_start: "serial_run x t cu d0 [] d0"
| serial_user: "serial_run x t cu d0 ls d \<Longrightarrow> \<not> has_user (uID usr) d \<Longrightarrow> serial_run x t cu d0 ls (apply_write (InsUser usr) d)"
| serial_step: "serial_run x t cu d0 ls d \<Longrightarrow> spec_step x t (cu now) now c d d' \<Longrightarrow> serial_run x t cu d0 (ls @ [c]) d'"

lemma serial_move:
  assumes "session_step cu i S S'" "serial.safe x t cu S" "serial_run x t cu d0 ls (committed S)"
    and "\<forall>u b. balance_of u (committed S) = Some b \<longrightarrow> 0 \<le> sint b" "0 \<le> sint (seedPaise t)"
  shows "serial_run x t cu d0 (ls @ committing i S) (committed S')"
  using assms(1)
proof (cases rule: committing_step)
  case (1 s c)
  have "following x t cu (committed S) s" using serial.safeD(3) [OF assms(2) 1(1)] by blast
  from commit_spec [OF this 1(2) assms(4,5)] serial_step [OF assms(3)] show ?thesis by (auto simp: 1(3,4))
next
  case 2
  then show ?thesis using assms(3) by simp
qed

lemma serial_outside:
  assumes "outside_step bodies S S'" "serial_run x t cu d0 ls (committed S)"
  shows "serial_run x t cu d0 ls (committed S')"
  using assms by cases (simp_all add: serial_user)

end
