(* ===== verification/Isolation.thy ===== *)
theory Isolation
  imports Concurrency
begin

text \<open>
  Money under interleaving. A transaction body is checked once, against \<open>balanced\<close>: it changes
  a balance only after it has locked and read it, and when it returns a value its changes add
  up to nothing. The locks then carry this through any interleaving: what a session has read
  under a lock stays what its view says, and the imbalance of its staged writes stays what it
  was, whatever the other sessions commit.
\<close>

section \<open>The effect of writes on balances\<close>

fun touches :: "uuid \<Rightarrow> db_write \<Rightarrow> bool" where
  "touches u (InsWallet w) = (wUserID w = u)"
| "touches u (SetBalance v b now) = (v = u)"
| "touches u _ = False"

fun write_balance :: "uuid \<Rightarrow> db_write \<Rightarrow> int64 option \<Rightarrow> int64 option" where
  "write_balance u (InsWallet w) b = (if b = None \<and> wUserID w = u then Some (BalancePaise w) else b)"
| "write_balance u (SetBalance v b' now) b = (if v = u \<and> b \<noteq> None then Some b' else b)"
| "write_balance u _ b = b"

fun new_wallet :: "db_write \<Rightarrow> uuid list" where
  "new_wallet (InsWallet w) = [wUserID w]"
| "new_wallet _ = []"

definition new_wallets :: "db_write list \<Rightarrow> uuid list" where
  "new_wallets ws = concat (map new_wallet ws)"

lemma new_wallets_simps [simp]:
  "new_wallets [] = []" "new_wallets (x # ws) = new_wallet x @ new_wallets ws"
  "new_wallets (ws @ vs) = new_wallets ws @ new_wallets vs"
  by (simp_all add: new_wallets_def)

lemma balance_after_write: "balance_of u (apply_write x d) = write_balance u x (balance_of u d)"
proof (cases x)
  case (InsWallet w)
  then show ?thesis
    by (auto simp: balance_of_def apply_write.simps find_append split: option.split)
qed (auto simp: balance_of_update balance_of_None_iff)

lemma balance_after_writes: "balance_of u (apply_writes ws d) = fold (write_balance u) ws (balance_of u d)"
  by (induction ws arbitrary: d) (simp_all add: balance_after_write del: apply_write.simps)

lemma wallet_keys_after: "map wUserID (wallets (apply_writes ws d)) = map wUserID (wallets d) @ new_wallets ws"
proof (induction ws arbitrary: d)
  case (Cons x ws)
  then show ?case by (cases x) simp_all
qed simp

lemma has_wallet_after: "has_wallet u (apply_writes ws d) \<longleftrightarrow> has_wallet u d \<or> u \<in> set (new_wallets ws)"
proof -
  have "set (map wUserID (wallets (apply_writes ws d))) = set (map wUserID (wallets d)) \<union> set (new_wallets ws)"
    by (simp only: wallet_keys_after set_append)
  then show ?thesis by (simp add: has_wallet_def)
qed

text \<open>What the writes add to the money beyond one seed per new wallet.\<close>

fun imbalance1 :: "int64 \<Rightarrow> db_write \<Rightarrow> (uuid \<Rightarrow> int64 option) \<Rightarrow> int" where
  "imbalance1 seed (InsWallet w) bal = sint (BalancePaise w) - sint seed"
| "imbalance1 seed (SetBalance u b now) bal = (case bal u of None \<Rightarrow> 0 | Some b0 \<Rightarrow> sint b - sint b0)"
| "imbalance1 seed _ bal = 0"

fun imbalance :: "int64 \<Rightarrow> db_write list \<Rightarrow> (uuid \<Rightarrow> int64 option) \<Rightarrow> int" where
  "imbalance seed [] bal = 0"
| "imbalance seed (x # ws) bal = imbalance1 seed x bal + imbalance seed ws (\<lambda>u. write_balance u x (bal u))"

definition surplus :: "int64 \<Rightarrow> db \<Rightarrow> int" where
  "surplus seed d = money d - sint seed * int (length (wallets d))"

lemma surplus_write:
  "distinct (map wUserID (wallets d)) \<Longrightarrow>
   surplus seed (apply_write x d) = surplus seed d + imbalance1 seed x (\<lambda>u. balance_of u d)"
proof (cases x)
  case (SetBalance u b now)
  assume "distinct (map wUserID (wallets d))"
  show ?thesis
  proof (cases "balance_of u d")
    case None
    then have "update_where (\<lambda>w. wUserID w = u) (set_balance b now) (wallets d) = wallets d"
      by (auto simp: balance_of_None_iff has_wallet_def intro!: update_where_none)
    then have "apply_write (SetBalance u b now) d = d" by (simp add: apply_write.simps)
    then show ?thesis using None by (simp add: SetBalance)
  next
    case (Some b0)
    then show ?thesis
      using money_SetBalance [OF \<open>distinct _\<close> Some, of b now] by (simp add: SetBalance surplus_def)
  qed
qed (simp_all add: surplus_def algebra_simps)

lemma surplus_after:
  "distinct (map wUserID (wallets (apply_writes ws d))) \<Longrightarrow>
   surplus seed (apply_writes ws d) = surplus seed d + imbalance seed ws (\<lambda>u. balance_of u d)"
proof (induction ws arbitrary: d)
  case (Cons x ws)
  have "distinct (map wUserID (wallets d))"
    using Cons.prems unfolding wallet_keys_after by simp
  then show ?case
    using Cons.IH [of "apply_write x d"] Cons.prems
    by (simp add: surplus_write balance_after_write del: apply_write.simps)
qed simp

lemma imbalance_cong:
  "(\<And>u. \<exists>x \<in> set ws. touches u x \<Longrightarrow> bal u = bal' u) \<Longrightarrow> imbalance seed ws bal = imbalance seed ws bal'"
proof (induction ws arbitrary: bal bal')
  case (Cons x ws)
  have "imbalance1 seed x bal = imbalance1 seed x bal'"
    using Cons.prems by (cases x) simp_all
  moreover have "imbalance seed ws (\<lambda>u. write_balance u x (bal u)) = imbalance seed ws (\<lambda>u. write_balance u x (bal' u))"
    using Cons.prems by (intro Cons.IH) auto
  ultimately show ?case by simp
qed simp

lemma imbalance_append:
  "imbalance seed (ws @ [x]) bal = imbalance seed ws bal + imbalance1 seed x (\<lambda>u. fold (write_balance u) ws (bal u))"
  by (induction ws arbitrary: bal) simp_all

lemma untouched_balance: "\<not> (\<exists>x \<in> set ws. touches u x) \<Longrightarrow> fold (write_balance u) ws b = b"
proof (induction ws arbitrary: b)
  case (Cons x ws)
  then show ?case by (cases x) auto
qed simp

section \<open>Balanced bodies\<close>

primrec balanced :: "int64 \<Rightarrow> 'a txp \<Rightarrow> (uuid \<Rightarrow> int64 option) \<Rightarrow> int \<Rightarrow> bool" where
  "balanced seed (TxReturn r) = (\<lambda>known D. case r of Inl err \<Rightarrow> True | Inr a \<Rightarrow> D = 0)"
| "balanced seed (WalletExists u k) = (\<lambda>known D. \<forall>r. balanced seed (k r) known D)"
| "balanced seed (InsertWallet u b k) = (\<lambda>known D. b = seed \<and> (\<forall>r. balanced seed (k r) known D))"
| "balanced seed (LockWallet u k) = (\<lambda>known D.
     (\<forall>err. balanced seed (k (Inl err)) known D) \<and>
     (\<forall>b. 0 \<le> sint b \<longrightarrow> (known u = None \<or> known u = Some b) \<longrightarrow> balanced seed (k (Inr b)) (known(u \<mapsto> b)) D))"
| "balanced seed (InsertTransfer t k) = (\<lambda>known D. \<forall>r. balanced seed (k r) known D)"
| "balanced seed (SumActiveHolds u win k) = (\<lambda>known D. \<forall>r. balanced seed (k r) known D)"
| "balanced seed (MarkReversed i win b k) = (\<lambda>known D. \<forall>r. balanced seed (k r) known D)"
| "balanced seed (UpdateWalletBalance u b k) = (\<lambda>known D. case known u of None \<Rightarrow> False | Some b0 \<Rightarrow>
     (\<forall>err. balanced seed (k (Inl err)) known D) \<and>
     (0 \<le> sint b \<longrightarrow> balanced seed (k (Inr ())) (known(u \<mapsto> b)) (D + sint b - sint b0)))"
| "balanced seed (TxObserve m l k) = balanced seed k"

lemma balanced_map_txp [simp]: "balanced seed (map_txp f p) = balanced seed p"
  by (induction p) (auto simp: fun_eq_iff split: sum.split option.split)

lemma balanced_orReturn:
  "(\<And>x. balanced seed (k x) known D) \<Longrightarrow> balanced seed (orReturn k r) known D"
  by (cases r) simp_all

lemma balanced_ensure_wallets:
  "balanced seed rest known D \<Longrightarrow> balanced seed (ensure_wallets seed ids rest) known D"
  by (induction ids) (auto intro!: balanced_orReturn)

lemma balanced_execute_move:
  assumes "s \<noteq> r" "known s = Some bs" "known r = Some br" "bals s = bs" "bals r = br"
    and "0 \<le> sint bs" "0 \<le> sint br" "0 < sint amount"
  shows "balanced seed (execute_move t s r amount key hash bals) known 0"
  using assms sint_int64_minus_exact [of bs amount] sint_int64_plus_nonneg [of br amount]
  by (auto simp: execute_move_def Let_def intro!: balanced_orReturn)

lemma balanced_claim_move:
  assumes "SenderID tr \<noteq> RecipientID tr" "known (SenderID tr) = Some bs" "known (RecipientID tr) = Some br"
    and "bals (SenderID tr) = bs" "bals (RecipientID tr) = br"
    and "0 \<le> sint bs" "0 \<le> sint br" "0 < sint (AmountPaise tr)"
  shows "balanced seed (claim_move t tr bals) known 0"
  using assms sint_int64_minus_exact [of br "AmountPaise tr"] sint_int64_plus_nonneg [of bs "AmountPaise tr"]
  by (auto simp: claim_move_def Let_def intro!: balanced_orReturn)

lemma balanced_execute_body:
  assumes "s \<noteq> r" "0 < sint amount"
  shows "balanced (seedPaise t) (execute_body x t s r amount key hash) Map.empty 0"
  using assms unfolding execute_body_def Let_def sort_ids_two
  by (intro balanced_ensure_wallets) (auto intro!: balanced_execute_move)

lemma balanced_claim_body:
  assumes "SenderID tr \<noteq> RecipientID tr" "0 < sint (AmountPaise tr)"
  shows "balanced seed (claim_body x t tr) Map.empty 0"
  using assms unfolding claim_body_def Let_def sort_ids_two
  by (auto intro!: balanced_claim_move)

section \<open>The invariant of a session\<close>

text \<open>
  What a session has staged it holds the locks for, and the tables it sees are well-formed.
\<close>

definition staged_ok :: "resource set \<Rightarrow> db_write list \<Rightarrow> db \<Rightarrow> bool" where
  "staged_ok R ws d \<longleftrightarrow>
     (\<forall>w. InsWallet w \<in> set ws \<longrightarrow> WalletKey (wUserID w) \<in> R \<and> \<not> has_wallet (wUserID w) d \<and> 0 \<le> sint (BalancePaise w)) \<and>
     (\<forall>u b now. SetBalance u b now \<in> set ws \<longrightarrow> WalletRow u \<in> R \<and> 0 \<le> sint b) \<and>
     (\<forall>u. WalletRow u \<in> R \<longrightarrow> has_wallet u (apply_writes ws d)) \<and>
     distinct (new_wallets ws)"

definition accounts_ok :: "db \<Rightarrow> bool" where
  "accounts_ok d \<longleftrightarrow> distinct (map wUserID (wallets d)) \<and> (\<forall>u b. balance_of u d = Some b \<longrightarrow> 0 \<le> sint b)"

definition session_ok :: "int64 \<Rightarrow> db \<Rightarrow> 'a session \<Rightarrow> bool" where
  "session_ok seed d s \<longleftrightarrow> staged_ok (held s) (staged s) d \<and>
     (\<exists>known. balanced seed (prog s) known (imbalance seed (staged s) (\<lambda>u. balance_of u d)) \<and>
        (\<forall>u b. known u = Some b \<longrightarrow> WalletRow u \<in> held s \<and> balance_of u (view s d) = Some b))"

lemma in_new_wallets: "u \<in> set (new_wallets ws) \<longleftrightarrow> (\<exists>w. InsWallet w \<in> set ws \<and> wUserID w = u)"
proof (induction ws)
  case (Cons x ws)
  then show ?case by (cases x) auto
qed simp

lemma accounts_ok_after:
  assumes "accounts_ok d" "staged_ok R ws d"
  shows "accounts_ok (apply_writes ws d)"
proof -
  have distinct: "distinct (map wUserID (wallets (apply_writes ws d)))"
    using assms unfolding wallet_keys_after
    by (auto simp: accounts_ok_def staged_ok_def in_new_wallets has_wallet_def) (metis imageI)
  have nonneg: "SetBalance v c now \<in> set ws \<Longrightarrow> 0 \<le> sint c" "InsWallet w \<in> set ws \<Longrightarrow> 0 \<le> sint (BalancePaise w)"
    for v c now w
    using assms(2) unfolding staged_ok_def by blast+
  have "fold (write_balance u) vs b0 = Some b \<Longrightarrow> set vs \<subseteq> set ws \<Longrightarrow> (\<And>c. b0 = Some c \<Longrightarrow> 0 \<le> sint c) \<Longrightarrow> 0 \<le> sint b"
    for u vs b0 b
  proof (induction vs arbitrary: b0)
    case (Cons x vs)
    have "0 \<le> sint c" if "write_balance u x b0 = Some c" for c
      using that Cons.prems(2,3) nonneg by (cases x) (auto split: if_splits)
    then show ?case using Cons.IH [of "write_balance u x b0"] Cons.prems(1,2) by simp
  qed simp
  with distinct show ?thesis
    using assms(1) unfolding accounts_ok_def balance_after_writes by blast
qed

lemma session_ok_start: "balanced seed p Map.empty 0 \<Longrightarrow> session_ok seed d (start now p)"
  by (auto simp: session_ok_def staged_ok_def start_def intro!: exI [of _ Map.empty])

section \<open>A statement keeps it\<close>

lemma staged_ok_more:
  "staged_ok R ws d \<Longrightarrow> (\<And>u. WalletRow u \<in> R' \<Longrightarrow> has_wallet u (apply_writes ws d)) \<Longrightarrow> staged_ok (R \<union> R') ws d"
  by (auto simp: staged_ok_def)

lemma session_okI:
  "staged_ok (held s) (staged s) d \<Longrightarrow> balanced seed (prog s) known (imbalance seed (staged s) (\<lambda>u. balance_of u d)) \<Longrightarrow>
   (\<And>u b. known u = Some b \<Longrightarrow> WalletRow u \<in> held s \<and> balance_of u (view s d) = Some b) \<Longrightarrow> session_ok seed d s"
  unfolding session_ok_def by blast

lemma session_okE:
  assumes "session_ok seed d s"
  obtains known where "staged_ok (held s) (staged s) d"
    "balanced seed (prog s) known (imbalance seed (staged s) (\<lambda>u. balance_of u d))"
    "\<And>u b. known u = Some b \<Longrightarrow> WalletRow u \<in> held s \<and> balance_of u (view s d) = Some b"
  using assms unfolding session_ok_def by blast

lemma session_ok_read:
  assumes "session_ok seed d s" "\<And>u. WalletRow u \<in> R \<Longrightarrow> has_wallet u (view s d)"
    and "\<And>known D. balanced seed (prog s) known D \<Longrightarrow> balanced seed p known D"
  shows "session_ok seed d (s\<lparr>prog := p, staged := staged s @ [], held := held s \<union> R\<rparr>)"
  using assms(1)
proof (rule session_okE)
  fix known
  assume st: "staged_ok (held s) (staged s) d"
    and kn: "balanced seed (prog s) known (imbalance seed (staged s) (\<lambda>u. balance_of u d))"
      "\<And>u b. known u = Some b \<Longrightarrow> WalletRow u \<in> held s \<and> balance_of u (view s d) = Some b"
  show ?thesis
    by (rule session_okI [where known = known])
      (use staged_ok_more [OF st] assms(2,3) kn in \<open>simp_all add: view_def\<close>)
qed

text \<open>A write that is not about wallets.\<close>

lemma session_ok_other_write:
  assumes "session_ok seed d s" "\<And>u. \<not> touches u x" "\<And>u. WalletRow u \<notin> R"
    and "\<And>known D. balanced seed (prog s) known D \<Longrightarrow> balanced seed p known D"
  shows "session_ok seed d (s\<lparr>prog := p, staged := staged s @ [x], held := held s \<union> R\<rparr>)"
  using assms(1)
proof (rule session_okE)
  fix known
  assume st: "staged_ok (held s) (staged s) d"
    and kn: "balanced seed (prog s) known (imbalance seed (staged s) (\<lambda>u. balance_of u d))"
      "\<And>u b. known u = Some b \<Longrightarrow> WalletRow u \<in> held s \<and> balance_of u (view s d) = Some b"
  have x: "new_wallet x = []" "\<And>w. x \<noteq> InsWallet w" "\<And>u b now. x \<noteq> SetBalance u b now" "\<And>bal. imbalance1 seed x bal = 0"
    "\<And>u b. write_balance u x b = b"
    using assms(2) by (cases x; auto)+
  have "staged_ok (held s \<union> R) (staged s @ [x]) d"
    using st assms(3) x(1) x(2,3) [symmetric] unfolding staged_ok_def has_wallet_after by auto
  moreover have "imbalance seed (staged s @ [x]) (\<lambda>u. balance_of u d) = imbalance seed (staged s) (\<lambda>u. balance_of u d)"
    by (simp add: imbalance_append x)
  moreover have "balance_of u (apply_writes (staged s @ [x]) d) = balance_of u (view s d)" for u
    by (simp add: view_def balance_after_writes x del: apply_writes_simps)
  ultimately show ?thesis
    by (intro session_okI [where known = known]) (use assms(4) kn in \<open>simp_all add: view_def\<close>)
qed

lemma session_ok_InsWallet:
  fixes c :: pgtime
  assumes "session_ok seed d s" "\<not> has_wallet u (view s d)" "0 \<le> sint seed"
    and "\<And>known D. balanced seed (prog s) known D \<Longrightarrow> balanced seed p known D"
  defines "w \<equiv> \<lparr>wUserID = u, BalancePaise = seed, wCreatedAt = c, wUpdatedAt = c\<rparr>"
  shows "session_ok seed d (s\<lparr>prog := p, staged := staged s @ [InsWallet w], held := held s \<union> {WalletKey u}\<rparr>)"
  using assms(1)
proof (rule session_okE)
  fix known
  assume st: "staged_ok (held s) (staged s) d"
    and kn: "balanced seed (prog s) known (imbalance seed (staged s) (\<lambda>u. balance_of u d))"
      "\<And>u b. known u = Some b \<Longrightarrow> WalletRow u \<in> held s \<and> balance_of u (view s d) = Some b"
  have "staged_ok (held s \<union> {WalletKey u}) (staged s @ [InsWallet w]) d"
    using st assms(2,3) unfolding staged_ok_def has_wallet_after view_def w_def by auto
  moreover have "imbalance seed (staged s @ [InsWallet w]) (\<lambda>u. balance_of u d) = imbalance seed (staged s) (\<lambda>u. balance_of u d)"
    by (simp add: imbalance_append w_def)
  moreover have "balance_of v (apply_writes (staged s @ [InsWallet w]) d) = Some b" if "balance_of v (view s d) = Some b" for v b
    using that by (simp add: view_def balance_after_writes del: apply_writes_simps)
  ultimately show ?thesis
    by (intro session_okI [where known = known]) (use assms(4) kn in \<open>simp_all add: view_def\<close>)
qed

lemma session_ok_LockWallet:
  assumes "session_ok seed d s" "accounts_ok d" "prog s = LockWallet u k"
  shows "session_ok seed d (s\<lparr>prog := k (fst (Tx_LockWallet Fine u (view s d))), staged := staged s @ [],
    held := held s \<union> (if has_wallet u (view s d) then {WalletRow u} else {})\<rparr>)"
proof (cases "balance_of u (view s d)")
  case None
  then have "fst (Tx_LockWallet Fine u (view s d)) = Inl RepoErrNotFound" "\<not> has_wallet u (view s d)"
    by (simp_all add: Tx_LockWallet_def deliver_def sql_balance_def row_result_def balance_of_def)
      (simp add: balance_of_None_iff [symmetric] balance_of_def)
  then show ?thesis using assms by (intro session_ok_read) auto
next
  case (Some b)
  then have res: "fst (Tx_LockWallet Fine u (view s d)) = Inr b" and w: "has_wallet u (view s d)"
    using balance_of_has_wallet by (auto simp: Tx_LockWallet_def deliver_def sql_balance_def row_result_def balance_of_def)
  have st: "staged_ok (held s) (staged s) d" using assms(1) by (simp add: session_ok_def)
  have nn: "0 \<le> sint b" using accounts_ok_after [OF assms(2) st] Some by (simp add: accounts_ok_def view_def)
  obtain known where kn: "balanced seed (prog s) known (imbalance seed (staged s) (\<lambda>u. balance_of u d))"
    "\<And>v c. known v = Some c \<Longrightarrow> WalletRow v \<in> held s \<and> balance_of v (view s d) = Some c"
    using assms(1) unfolding session_ok_def by blast
  have "known u = None \<or> known u = Some b" using kn(2) [of u] Some by (cases "known u") auto
  then have bal: "balanced seed (k (Inr b)) (known(u \<mapsto> b)) (imbalance seed (staged s) (\<lambda>u. balance_of u d))"
    using kn(1) nn unfolding assms(3) balanced.simps by blast
  have "staged_ok (held s \<union> {WalletRow u}) (staged s) d"
    using st w by (intro staged_ok_more) (simp_all add: view_def)
  then show ?thesis
    by (intro session_okI [where known = "known(u \<mapsto> b)"])
      (use kn(2) Some w res bal in \<open>simp_all add: view_def split: if_splits\<close>)
qed

lemma session_ok_Update:
  fixes c :: pgtime
  assumes "session_ok seed d s" "accounts_ok d" "prog s = UpdateWalletBalance u b k"
  defines "res \<equiv> Tx_UpdateWalletBalance Fine c u b (view s d)"
  shows "session_ok seed d (s\<lparr>prog := k (fst res), staged := staged s @ snd res,
    held := held s \<union> (if has_wallet u (view s d) then {WalletRow u} else {})\<rparr>)"
proof -
  have st: "staged_ok (held s) (staged s) d" using assms(1) by (simp add: session_ok_def)
  obtain known where kn: "balanced seed (prog s) known (imbalance seed (staged s) (\<lambda>u. balance_of u d))"
    "\<And>v c. known v = Some c \<Longrightarrow> WalletRow v \<in> held s \<and> balance_of v (view s d) = Some c"
    using assms(1) unfolding session_ok_def by blast
  obtain b0 where b0: "known u = Some b0" "\<And>err. balanced seed (k (Inl err)) known (imbalance seed (staged s) (\<lambda>u. balance_of u d))"
    "0 \<le> sint b \<Longrightarrow> balanced seed (k (Inr ())) (known(u \<mapsto> b)) (imbalance seed (staged s) (\<lambda>u. balance_of u d) + sint b - sint b0)"
    using kn(1) assms(3) by (auto split: option.splits)
  have u: "WalletRow u \<in> held s" "balance_of u (view s d) = Some b0" "has_wallet u (view s d)"
    using kn(2) [OF b0(1)] balance_of_has_wallet by auto
  show ?thesis
  proof (cases "sint b < 0")
    case True
    then have "res = (Inl check_violation, [])" using u(3)
      by (simp add: res_def Tx_UpdateWalletBalance_def deliver_def sql_update_balance_def)
    then show ?thesis
      by (intro session_okI [where known = known]) (use kn(2) b0(2) st u in \<open>simp_all add: view_def insert_absorb\<close>)
  next
    case False
    then have res: "res = (Inr (), [SetBalance u b c])" using u(3)
      by (simp add: res_def Tx_UpdateWalletBalance_def deliver_def sql_update_balance_def)
    have "staged_ok (held s) (staged s @ [SetBalance u b c]) d"
      using st u(1) False unfolding staged_ok_def has_wallet_after by auto
    moreover have "imbalance seed (staged s @ [SetBalance u b c]) (\<lambda>u. balance_of u d) =
        imbalance seed (staged s) (\<lambda>u. balance_of u d) + sint b - sint b0"
      using u(2) by (simp add: imbalance_append view_def balance_after_writes)
    moreover have "balance_of v (apply_writes (staged s @ [SetBalance u b c]) d) =
        (if v = u then Some b else balance_of v (view s d))" for v
      using u(2) by (auto simp: balance_after_writes view_def simp del: apply_writes_simps)
    ultimately show ?thesis
      by (intro session_okI [where known = "known(u \<mapsto> b)"])
        (use b0(3) False kn(2) u in \<open>simp_all add: res view_def insert_absorb split: if_splits del: apply_writes_simps\<close>)
  qed
qed

lemma session_ok_statement:
  assumes ok: "session_ok seed d s" "accounts_ok d" "0 \<le> sint seed"
    and nxt: "tx_next cu c fresh (view s d) (prog s) = Some (p, ws)"
  shows "session_ok seed d (s\<lparr>prog := p, staged := staged s @ ws, held := held s \<union> needs cu fresh (view s d) (prog s)\<rparr>)"
proof (cases "prog s")
  case (TxReturn r)
  then show ?thesis using nxt by simp
next
  case (WalletExists u k)
  then have "ws = []" "\<exists>r. p = k r" using nxt by (auto simp: continue_with_def snd_Tx_methods)
  then show ?thesis using session_ok_read [OF ok(1), of "{}" p] WalletExists by auto
next
  case (InsertWallet u b k)
  have b: "b = seed" using ok(1) InsertWallet by (auto simp: session_ok_def)
  have p: "\<And>known D. balanced seed (prog s) known D \<Longrightarrow> balanced seed p known D"
    using nxt InsertWallet by (auto simp: continue_with_def)
  show ?thesis
  proof (cases "\<not> has_wallet u (view s d) \<and> has_user u (view s d)")
    case True
    then have "ws = [InsWallet \<lparr>wUserID = u, BalancePaise = seed, wCreatedAt = c, wUpdatedAt = c\<rparr>]"
      using nxt InsertWallet b ok(3) by (auto simp: continue_with_def Tx_InsertWallet_def deliver_def sql_insert_wallet_def)
    then show ?thesis using session_ok_InsWallet [OF ok(1) _ ok(3) p, of u c] True InsertWallet by simp
  next
    case False
    then have "ws = []"
      using nxt InsertWallet b ok(3) by (auto simp: continue_with_def Tx_InsertWallet_def deliver_def sql_insert_wallet_def)
    moreover have "has_wallet v (view s d)" if "WalletRow v \<in> needs cu fresh (view s d) (prog s)" for v
      using that by (simp add: InsertWallet split: if_splits)
    ultimately show ?thesis using session_ok_read [OF ok(1) _ p] by simp
  qed
next
  case (LockWallet u k)
  then have "ws = []" "p = k (fst (Tx_LockWallet Fine u (view s d)))"
    using nxt by (auto simp: continue_with_def snd_Tx_methods)
  then show ?thesis using session_ok_LockWallet [OF ok(1,2) LockWallet] LockWallet by simp
next
  case (InsertTransfer t k)
  then have p: "\<And>known D. balanced seed (prog s) known D \<Longrightarrow> balanced seed p known D"
    and ws: "ws = [] \<or> (\<exists>t. ws = [InsTransfer t])"
    using nxt by (auto simp: continue_with_def Tx_InsertTransfer_def deliver_def sql_insert_transfer_def split: if_splits)
  have none: "WalletRow v \<notin> needs cu fresh (view s d) (prog s)" for v by (simp add: InsertTransfer)
  then have wal: "WalletRow v \<in> needs cu fresh (view s d) (prog s) \<Longrightarrow> has_wallet v (view s d)" for v by blast
  show ?thesis
    using ws session_ok_read [OF ok(1) wal p] session_ok_other_write [OF ok(1) _ none p] by auto
next
  case (SumActiveHolds u win k)
  then have "ws = []" "\<exists>r. p = k r" using nxt by (auto simp: continue_with_def snd_Tx_methods)
  then show ?thesis using session_ok_read [OF ok(1), of "{}" p] SumActiveHolds by auto
next
  case (MarkReversed i win b k)
  then have p: "\<And>known D. balanced seed (prog s) known D \<Longrightarrow> balanced seed p known D"
    and ws: "ws = [] \<or> (\<exists>i n b. ws = [SetReversed i n b])"
    using nxt by (auto simp: continue_with_def Tx_MarkReversed_def deliver_def sql_mark_reversed_def split: if_splits)
  have none: "WalletRow v \<notin> needs cu fresh (view s d) (prog s)" for v by (simp add: MarkReversed)
  then have wal: "WalletRow v \<in> needs cu fresh (view s d) (prog s) \<Longrightarrow> has_wallet v (view s d)" for v by blast
  show ?thesis
    using ws session_ok_read [OF ok(1) wal p] session_ok_other_write [OF ok(1) _ none p] by auto
next
  case (UpdateWalletBalance u b k)
  then have "p = k (fst (Tx_UpdateWalletBalance Fine c u b (view s d)))" "ws = snd (Tx_UpdateWalletBalance Fine c u b (view s d))"
    using nxt by (auto simp: continue_with_def)
  then show ?thesis using session_ok_Update [OF ok(1,2) UpdateWalletBalance, of c] UpdateWalletBalance by simp
next
  case (TxObserve m l k)
  then have "ws = []" "p = k" using nxt by auto
  then show ?thesis using session_ok_read [OF ok(1), of "{}" p] TxObserve by auto
qed

section \<open>The commit of another session keeps it\<close>

definition relevant :: "uuid \<Rightarrow> 'a session \<Rightarrow> bool" where
  "relevant u s \<longleftrightarrow> (\<exists>x \<in> set (staged s). touches u x) \<or> WalletRow u \<in> held s"

lemma relevant_locked:
  fixes s :: "'a session"
  assumes "staged_ok (held s) (staged s) d" "relevant u s"
  shows "WalletKey u \<in> held s \<and> \<not> has_wallet u d \<or> WalletRow u \<in> held s \<and> (has_wallet u d \<or> WalletKey u \<in> held s)"
proof -
  have "WalletKey u \<in> held s \<and> \<not> has_wallet u d" if "InsWallet w \<in> set (staged s)" "wUserID w = u" for w
    using that assms(1) unfolding staged_ok_def by blast
  moreover have "WalletRow u \<in> held s" if "SetBalance u b now \<in> set (staged s)" for b now
    using that assms(1) unfolding staged_ok_def by blast
  moreover have "has_wallet u d \<or> WalletKey u \<in> held s" if "WalletRow u \<in> held s"
    using that assms(1) unfolding staged_ok_def has_wallet_after in_new_wallets by blast
  moreover consider "WalletRow u \<in> held s" | w where "InsWallet w \<in> set (staged s)" "wUserID w = u"
    | b now where "SetBalance u b now \<in> set (staged s)"
  proof -
    have "WalletRow u \<in> held s \<or> (\<exists>w. InsWallet w \<in> set (staged s) \<and> wUserID w = u) \<or> (\<exists>b now. SetBalance u b now \<in> set (staged s))"
    proof (cases "WalletRow u \<in> held s")
      case False
      then obtain x where "x \<in> set (staged s)" "touches u x" using assms(2) by (auto simp: relevant_def)
      from \<open>touches u x\<close> have "(\<exists>w. x = InsWallet w \<and> wUserID w = u) \<or> (\<exists>b now. x = SetBalance u b now)" by (cases x) auto
      with \<open>x \<in> set (staged s)\<close> show ?thesis by blast
    qed simp
    then show ?thesis using that by blast
  qed
  ultimately show ?thesis by cases blast+
qed

lemma relevant_untouched:
  fixes s s' :: "'a session"
  assumes "staged_ok (held s) (staged s) d" "staged_ok (held s') (staged s') d" "held s \<inter> held s' = {}" "relevant u s"
  shows "\<not> (\<exists>x \<in> set (staged s'). touches u x)"
  using relevant_locked [OF assms(1,4)] relevant_locked [OF assms(2), of u] assms(3) unfolding relevant_def by blast

lemma session_ok_commit:
  fixes s s' :: "'a session"
  assumes s: "session_ok seed d s" and s': "session_ok seed d s'" and disj: "held s \<inter> held s' = {}"
  shows "session_ok seed (view s' d) s"
  using s
proof (rule session_okE)
  fix known
  assume st: "staged_ok (held s) (staged s) d"
    and kn: "balanced seed (prog s) known (imbalance seed (staged s) (\<lambda>u. balance_of u d))"
      "\<And>u b. known u = Some b \<Longrightarrow> WalletRow u \<in> held s \<and> balance_of u (view s d) = Some b"
  have st': "staged_ok (held s') (staged s') d" using s' by (simp add: session_ok_def)
  note free = relevant_untouched [OF st st' disj]
  have bal: "balance_of u (view s' d) = balance_of u d" if "relevant u s" for u
    using untouched_balance [OF free [OF that]] by (simp add: view_def balance_after_writes)
  have new: "u \<notin> set (new_wallets (staged s'))" if "relevant u s" for u
    using free [OF that] unfolding in_new_wallets by force
  have "staged_ok (held s) (staged s) (view s' d)"
    unfolding staged_ok_def
  proof (intro conjI allI impI)
    fix w assume w: "InsWallet w \<in> set (staged s)"
    then have "relevant (wUserID w) s" unfolding relevant_def by force
    then show "\<not> has_wallet (wUserID w) (view s' d)"
      using st w new unfolding staged_ok_def view_def has_wallet_after by blast
  next
    fix u assume "WalletRow u \<in> held s"
    then show "has_wallet u (apply_writes (staged s) (view s' d))"
      using st unfolding staged_ok_def view_def has_wallet_after by blast
  qed (use st in \<open>unfold staged_ok_def, blast+\<close>)
  moreover have "imbalance seed (staged s) (\<lambda>u. balance_of u (view s' d)) = imbalance seed (staged s) (\<lambda>u. balance_of u d)"
    by (rule imbalance_cong) (rule bal, simp add: relevant_def)
  moreover have "balance_of u (view s (view s' d)) = balance_of u (view s d)" if "known u = Some b" for u b
  proof -
    have "relevant u s" using kn(2) [OF that] by (simp add: relevant_def)
    then show ?thesis using bal [of u] by (simp add: view_def balance_after_writes)
  qed
  ultimately show ?thesis
    by (intro session_okI [where known = known]) (use kn in simp_all)
qed

section \<open>The system\<close>

lemma session_ok_users:
  assumes "session_ok seed d s"
  shows "session_ok seed (apply_write (InsUser usr) d) s"
proof -
  have hw: "has_wallet u (apply_writes ws (apply_write (InsUser usr) d)) = has_wallet u (apply_writes ws d)" for u ws
    by (simp add: has_wallet_after)
  have bal: "balance_of u (apply_writes ws (apply_write (InsUser usr) d)) = balance_of u (apply_writes ws d)" for u ws
    by (simp add: balance_after_writes)
  from hw [of _ "[]"] bal [of _ "[]"] show ?thesis
    using assms by (simp add: session_ok_def staged_ok_def view_def hw bal)
qed

text \<open>The committed tables: no two wallets of one user, no negative balance, and a fixed sum beyond the seeds.\<close>

definition seed_money :: "int64 \<Rightarrow> int \<Rightarrow> db \<Rightarrow> bool" where
  "seed_money seed extra d \<longleftrightarrow> 0 \<le> sint seed \<and> accounts_ok d \<and> surplus seed d = extra"

definition balanced_bodies :: "int64 \<Rightarrow> db \<Rightarrow> 'a txp set" where
  "balanced_bodies seed d = {p. balanced seed p Map.empty 0}"

lemma seed_money_commit:
  assumes "seed_money seed extra d" "session_ok seed d s" "prog s = TxReturn (Inr a)"
  shows "seed_money seed extra (view s d)"
proof -
  have st: "staged_ok (held s) (staged s) d" using assms(2) by (simp add: session_ok_def)
  have acc: "accounts_ok (view s d)"
    using assms(1) accounts_ok_after [OF _ st] by (simp add: view_def seed_money_def)
  have "imbalance seed (staged s) (\<lambda>u. balance_of u d) = 0"
    using assms(2,3) by (auto simp: session_ok_def)
  then have "surplus seed (view s d) = extra"
    using surplus_after [of "staged s" d seed] acc assms(1) by (simp add: view_def accounts_ok_def seed_money_def)
  with acc show ?thesis using assms(1) by (simp add: seed_money_def)
qed

interpretation isolation: session_invariant cu "seed_money seed extra" "session_ok seed" "balanced_bodies seed"
  for cu :: "pgtime \<Rightarrow> duration \<Rightarrow> pgtime" and seed :: int64 and extra :: int
proof
  show "seed_money seed extra (apply_write (InsUser usr) d)" if "seed_money seed extra d" for d usr
    using that by (simp add: seed_money_def accounts_ok_def surplus_def)
qed (blast intro: session_ok_start session_ok_statement seed_money_commit session_ok_commit session_ok_users
    | simp add: seed_money_def balanced_bodies_def session_ok_start session_ok_statement)+

end
