(* ===== verification/Constraints.thy ===== *)
theory Constraints
  imports Isolation Exactly_Once
begin

text \<open>
  The constraints of the schema under interleaving. A statement is checked against the tables its
  session sees; that the committed tables satisfy the constraints in the end is a matter of the
  locks for the unique keys and the balances (\<open>Isolation\<close>, \<open>Exactly_Once\<close>), and, for foreign keys
  and the columns of a single row, of users never being removed. The last part is shown here.
\<close>

definition rows_ok :: "db \<Rightarrow> bool" where
  "rows_ok d \<longleftrightarrow> users_ok d \<and> (\<forall>w \<in> set (wallets d). has_user (wUserID w) d) \<and>
     (\<forall>t \<in> set (transfers d). has_user (SenderID t) d \<and> has_user (RecipientID t) d \<and>
        0 < sint (AmountPaise t) \<and> Status t \<in> {TransferCompleted, TransferReversed})"

lemma schema_ok_parts: "schema_ok d \<longleftrightarrow> rows_ok d \<and> accounts_ok d \<and> distinct_transfers d"
  by (auto simp: schema_ok_def rows_ok_def wallets_ok_def transfers_ok_def accounts_ok_def distinct_transfers_def
      balance_of_Some_iff; blast)

text \<open>What a staged write has been checked against.\<close>

fun checked :: "db \<Rightarrow> db_write \<Rightarrow> bool" where
  "checked d (InsUser usr) \<longleftrightarrow> False"
| "checked d (InsWallet w) \<longleftrightarrow> has_user (wUserID w) d"
| "checked d (InsTransfer t) \<longleftrightarrow> has_user (SenderID t) d \<and> has_user (RecipientID t) d \<and>
     0 < sint (AmountPaise t) \<and> Status t \<in> {TransferCompleted, TransferReversed}"
| "checked d (SetBalance u b now) \<longleftrightarrow> True"
| "checked d (SetReversed i now b) \<longleftrightarrow> True"

lemma checked_users: "users d = users d' \<Longrightarrow> checked d w = checked d' w"
  by (cases w) (simp_all add: has_user_def)

lemma checked_sign_up: "checked d w \<Longrightarrow> checked (apply_write (InsUser usr) d) w"
  by (cases w) auto

lemma users_after_checked: "\<forall>w \<in> set ws. checked d' w \<Longrightarrow> users (apply_writes ws d) = users d"
proof (induction ws arbitrary: d)
  case (Cons w ws)
  then show ?case by (cases w) simp_all
qed simp

lemma tx_next_checked:
  "tx_next cu now fresh d p = Some (q, ws) \<Longrightarrow> w \<in> set ws \<Longrightarrow> checked d w"
  by (cases p) (auto simp: continue_with_def Tx_Fine new_transfer_row_def split: if_splits option.splits)

lemma rows_ok_write: "rows_ok d \<Longrightarrow> checked d w \<Longrightarrow> rows_ok (apply_write w d)"
  by (cases w) (auto simp: rows_ok_def users_ok_def apply_write.simps set_update_where)

lemma rows_ok_writes: "rows_ok d \<Longrightarrow> \<forall>w \<in> set ws. checked d w \<Longrightarrow> rows_ok (apply_writes ws d)"
proof (induction ws arbitrary: d)
  case (Cons w ws)
  then have "users (apply_write w d) = users d" using users_after_checked [of "[w]" d d] by simp
  with Cons show ?case using checked_users [of "apply_write w d" d] by (simp add: rows_ok_write)
qed simp

definition checked_session :: "db \<Rightarrow> 'a session \<Rightarrow> bool" where
  "checked_session d s \<longleftrightarrow> (\<forall>w \<in> set (staged s). checked d w)"

interpretation constraints: session_invariant cu rows_ok checked_session "\<lambda>d. UNIV"
  for cu :: "pgtime \<Rightarrow> duration \<Rightarrow> pgtime"
proof
  show "checked_session d (start now p)" for d now p
    by (simp add: checked_session_def start_def)
next
  fix d s fresh p ws
  assume ok: "checked_session d s" and nxt: "tx_next (cu (began s)) (began s) fresh (view s d) (prog s) = Some (p, ws)"
  have "users (view s d) = users d"
    using ok users_after_checked by (simp add: checked_session_def view_def)
  then show "checked_session d (s\<lparr>prog := p, staged := staged s @ ws,
      held := held s \<union> needs (cu (began s)) fresh (view s d) (prog s)\<rparr>)"
    using ok tx_next_checked [OF nxt] checked_users [of "view s d" d] by (auto simp: checked_session_def)
next
  show "rows_ok (view s d)" if "rows_ok d" "checked_session d s" for d s
    using that rows_ok_writes by (simp add: checked_session_def view_def)
  show "checked_session (view s' d) s" if "checked_session d s" "checked_session d s'" for d s s'
    using that users_after_checked [of "staged s'" d d] checked_users [of "view s' d" d]
    by (simp add: checked_session_def view_def)
  show "rows_ok (apply_write (InsUser usr) d)"
    if "rows_ok d" "\<not> has_user (uID usr) d" "Username usr \<notin> Username ` set (users d)" for d usr
    using that by (auto simp: rows_ok_def users_ok_def has_user_def apply_write.simps)
  show "checked_session (apply_write (InsUser usr) d) s" if "checked_session d s" for d s usr
    using that checked_sign_up unfolding checked_session_def by blast
qed

section \<open>The schema under interleaving\<close>

lemma service_bodies_balanced: "service_bodies x t d \<subseteq> balanced_bodies (seedPaise t) d"
  by (auto simp: service_bodies_def balanced_bodies_def execute_tx_def claim_tx_def open_tx_def
      balanced_execute_body balanced_claim_body split: sum.split)

lemma schema_money: "schema_ok d \<Longrightarrow> 0 \<le> sint seed \<Longrightarrow> seed_money seed (surplus seed d) d"
  by (simp add: schema_ok_parts seed_money_def)

lemma money_kept:
  assumes "sys_reaches cu (service_bodies x t) (idle d now) S" "schema_ok d" "0 \<le> sint (seedPaise t)"
  shows "seed_money (seedPaise t) (surplus (seedPaise t) d) (committed S)"
  by (rule isolation.safeD(1) [OF isolation.safe_reaches [OF assms(1) service_bodies_balanced
        isolation.safe_idle [OF schema_money [OF assms(2,3)]]]])

lemma schema_kept:
  assumes "sys_reaches cu (service_bodies x t) (idle d now) S" "schema_ok d" "0 \<le> sint (seedPaise t)"
  shows "schema_ok (committed S)"
proof -
  have d: "rows_ok d" "distinct_transfers d" using assms(2) by (simp_all add: schema_ok_parts)
  have "rows_ok (committed S)"
    by (rule constraints.safeD(1) [OF constraints.safe_reaches [OF assms(1) _ constraints.safe_idle [OF d(1)]]]) simp
  moreover have "distinct_transfers (committed S)"
    by (rule once.safeD(1) [OF once.safe_reaches [OF assms(1) _ once.safe_idle [OF d(2)]]])
      (use honest_service_bodies in blast)
  ultimately show ?thesis using money_kept [OF assms] by (simp add: schema_ok_parts seed_money_def)
qed

end
