(* ===== verification/Schedule.thy ===== *)
theory Schedule
  imports Exactly_Once Examples
begin

text \<open>
  Schedules: a function that runs a given interleaving step by step, and its soundness for the
  step relation; the examples evaluate it.
\<close>

section \<open>Running a schedule\<close>

datatype action = Run nat uuid | Begin nat "transfer option" "reply txp" | Wait_Until pgtime | Join user

text \<open>\<open>ids\<close> lists the sessions a schedule uses.\<close>

definition free_of :: "reply sys \<Rightarrow> nat list \<Rightarrow> nat \<Rightarrow> resource set \<Rightarrow> bool" where
  "free_of S ids i R \<longleftrightarrow> list_all (\<lambda>j. j = i \<or> (case sess S j of None \<Rightarrow> True | Some s \<Rightarrow> held s \<inter> R = {})) ids"

text \<open>A request that begins a transaction may have read a transfer.\<close>

definition has_read :: "transfer option \<Rightarrow> db \<Rightarrow> bool" where
  "has_read basis d \<longleftrightarrow> (case basis of None \<Rightarrow> True | Some tr \<Rightarrow> list_ex (same_columns tr) (transfers d))"

fun perform :: "(pgtime \<Rightarrow> duration \<Rightarrow> pgtime) \<Rightarrow> nat list \<Rightarrow> action \<Rightarrow> reply sys \<Rightarrow> reply sys option" where
  "perform cu ids (Run i fresh) S = (case sess S i of
     None \<Rightarrow> None
   | Some s \<Rightarrow> (case tx_next (cu (began s)) (began s) fresh (view s (committed S)) (prog s) of
       Some (p, ws) \<Rightarrow>
         let R = needs (cu (began s)) fresh (view s (committed S)) (prog s) in
         if free_of S ids i R
         then Some (S\<lparr>sess := (sess S)(i \<mapsto> s\<lparr>prog := p, staged := staged s @ ws, held := held s \<union> R\<rparr>)\<rparr>)
         else None
     | None \<Rightarrow> (case prog s of
         TxReturn (Inr a) \<Rightarrow> Some (S\<lparr>committed := view s (committed S), sess := (sess S)(i := None)\<rparr>)
       | _ \<Rightarrow> Some (S\<lparr>sess := (sess S)(i := None)\<rparr>))))"
| "perform cu ids (Begin i basis p) S =
     (if i \<in> set ids \<and> sess S i = None \<and> has_read basis (committed S) then Some (S\<lparr>sess := (sess S)(i \<mapsto> start (pg_now S) p)\<rparr>) else None)"
| "perform cu ids (Wait_Until now) S = (if pg_now S \<le> now then Some (S\<lparr>pg_now := now\<rparr>) else None)"
| "perform cu ids (Join usr) S =
     (if has_user (uID usr) (committed S) \<or> Username usr \<in> Username ` set (users (committed S)) then None
      else Some (S\<lparr>committed := apply_write (InsUser usr) (committed S)\<rparr>))"

fun committed_by :: "action \<Rightarrow> reply sys \<Rightarrow> reply list" where
  "committed_by (Run i fresh) S = committing i S"
| "committed_by _ S = []"

fun schedule ::
  "(pgtime \<Rightarrow> duration \<Rightarrow> pgtime) \<Rightarrow> nat list \<Rightarrow> action list \<Rightarrow> reply sys \<times> reply list \<Rightarrow> (reply sys \<times> reply list) option" where
  "schedule cu ids [] S = Some S"
| "schedule cu ids (a # as) (S, ls) = (case perform cu ids a S of
     None \<Rightarrow> None
   | Some S' \<Rightarrow> schedule cu ids as (S', ls @ committed_by a S))"

fun begins_in :: "(db \<Rightarrow> reply txp set) \<Rightarrow> action \<Rightarrow> bool" where
  "begins_in B (Begin i basis p) \<longleftrightarrow> (\<forall>d. has_read basis d \<longrightarrow> p \<in> B d)"
| "begins_in B _ \<longleftrightarrow> True"

lemma free_of_granted:
  assumes "free_of S ids i R" "\<And>j. j \<notin> set ids \<Longrightarrow> sess S j = None"
  shows "granted S i R"
  unfolding granted_def
proof (intro allI impI)
  fix j s assume j: "j \<noteq> i" "sess S j = Some s"
  then have "j \<in> set ids" using assms(2) by fastforce
  with assms(1) j(1) have "case sess S j of None \<Rightarrow> True | Some s \<Rightarrow> held s \<inter> R = {}"
    unfolding free_of_def list_all_iff by blast
  then show "held s \<inter> R = {}" using j(2) by simp
qed

lemma perform_Run:
  assumes "perform cu ids (Run i fresh) S = Some S'" "\<And>j. j \<notin> set ids \<Longrightarrow> sess S j = None"
  shows "session_step cu i S S'"
proof -
  obtain s where s: "sess S i = Some s" using assms(1) by (auto split: option.splits)
  show ?thesis
  proof (cases "tx_next (cu (began s)) (began s) fresh (view s (committed S)) (prog s)")
    case (Some pw)
    then obtain p ws where nxt: "tx_next (cu (began s)) (began s) fresh (view s (committed S)) (prog s) = Some (p, ws)"
      by (cases pw) simp
    show ?thesis
      using assms(1) session_step.statement [of S i s cu fresh p ws, OF s nxt] free_of_granted [of S ids i, OF _ assms(2)]
      by (simp add: s nxt Let_def split: if_splits)
  next
    case None
    then obtain r where "prog s = TxReturn r" by (cases "prog s") (auto simp: continue_with_def)
    then show ?thesis
      using assms(1) None session_step.commit [OF s] session_step.rollback [OF s] by (cases r) (auto simp: s)
  qed
qed

lemma perform_outside:
  "perform cu ids (Begin i basis p) S = Some S' \<Longrightarrow> begins_in B (Begin i basis p) \<Longrightarrow> outside_step B S S'"
  "perform cu ids (Wait_Until now) S = Some S' \<Longrightarrow> outside_step B S S'"
  "perform cu ids (Join usr) S = Some S' \<Longrightarrow> outside_step B S S'"
  by (auto split: if_splits intro: outside_step.intros)

lemma perform_ids:
  assumes "perform cu ids a S = Some S'" "\<And>j. j \<notin> set ids \<Longrightarrow> sess S j = None" "j \<notin> set ids"
  shows "sess S' j = None"
proof (cases a)
  case (Run i fresh)
  from perform_Run [OF _ assms(2)] assms(1) Run have "session_step cu i S S'" by blast
  then show ?thesis using assms(2) [OF assms(3)] by cases auto
qed (use assms in \<open>auto split: if_splits\<close>)

lemma perform_step:
  assumes "perform cu ids a S = Some S'" "\<And>j. j \<notin> set ids \<Longrightarrow> sess S j = None" "begins_in B a"
  obtains i where "session_step cu i S S'" "committed_by a S = committing i S"
    | "outside_step B S S'" "committed_by a S = []"
proof (cases a)
  case (Run i fresh)
  then show ?thesis using that(1) perform_Run [OF assms(1) [unfolded Run] assms(2)] by simp
next
  case (Begin i basis p)
  show ?thesis using that(2) perform_outside(1) [OF assms(1) [unfolded Begin]] assms(3) by (simp add: Begin)
next
  case (Wait_Until now)
  show ?thesis using that(2) perform_outside(2) [OF assms(1) [unfolded Wait_Until]] by (simp add: Wait_Until)
next
  case (Join usr)
  show ?thesis using that(2) perform_outside(3) [OF assms(1) [unfolded Join]] by (simp add: Join)
qed

lemma schedule_history:
  assumes "schedule cu ids as (S, ls) = Some (S', ls')" "\<And>j. j \<notin> set ids \<Longrightarrow> sess S j = None"
    and "list_all (begins_in B) as" "history cu B S0 ls S"
  shows "history cu B S0 ls' S'"
  using assms
proof (induction as arbitrary: S ls)
  case (Cons a as)
  from Cons.prems(1) obtain S1 where S1: "perform cu ids a S = Some S1"
    and rest: "schedule cu ids as (S1, ls @ committed_by a S) = Some (S', ls')"
    by (auto split: option.splits)
  have "history cu B S0 (ls @ committed_by a S) S1"
    by (rule perform_step [OF S1 Cons.prems(2), of B])
      (use Cons.prems(3,4) history_move history_outside in fastforce)+
  then show ?case
    using Cons.IH [OF rest perform_ids [OF S1 Cons.prems(2)]] Cons.prems(3) by simp
qed simp

section \<open>A claim that begins inside its window and runs after it\<close>

text \<open>
  Carol (3) has received 10 paise from Alice (1) and, later, 10 from Bob (2); the window is
  100 microseconds. Alice's claim begins when her transfer is 99 microseconds old. Before it
  runs, Carol spends what is then available to her.
\<close>

definition late_service :: transfer_service where
  "late_service = \<lparr>seedPaise = 1000, claimWindow = 100000\<rparr>"

definition late_cutoff :: "pgtime \<Rightarrow> duration \<Rightarrow> pgtime" where
  "late_cutoff now win = now - win div 1000"

definition late_transfer :: "uuid \<Rightarrow> uuid \<Rightarrow> pgtime \<Rightarrow> transfer" where
  "late_transfer i s c =
     \<lparr>trID = i, SenderID = s, RecipientID = 3, AmountPaise = 10, IdempotencyKey = ''k'', BodyHash = [],
      SenderBalanceAfter = 990, Status = TransferCompleted, trCreatedAt = c, ReversedAt = None,
      SenderBalanceAfterReversal = None\<rparr>"

definition late_db :: db where
  "late_db =
     \<lparr>users = map (\<lambda>(u, n). \<lparr>uID = u, Username = n, PasswordHash = [], uCreatedAt = 0\<rparr>) [(1, ''alice''), (2, ''bob''), (3, ''carol'')],
      wallets = map (\<lambda>(u, b). \<lparr>wUserID = u, BalancePaise = b, wCreatedAt = 0, wUpdatedAt = 5\<rparr>) [(1, 990), (2, 990), (3, 1020)],
      transfers = [late_transfer 11 1 0, late_transfer 12 2 5]\<rparr>"

definition late_claim :: "reply txp" where
  "late_claim = claim_tx ex_extern late_service (late_transfer 11 1 0)"

definition late_spend :: "reply txp" where
  "late_spend = execute_tx ex_extern late_service 3 2 1010 ''rent'' []"

definition late_second_claim :: "reply txp" where
  "late_second_claim = claim_tx ex_extern late_service (late_transfer 12 2 5)"

definition late_actions :: "action list" where
  "late_actions = [Begin 0 (Some (late_transfer 11 1 0)) late_claim, Wait_Until 100, Begin 1 None late_spend] @
     replicate 9 (Run 1 13) @ replicate 6 (Run 0 14) @ [Begin 2 (Some (late_transfer 12 2 5)) late_second_claim] @ replicate 4 (Run 2 15)"

definition late_end :: "(reply sys \<times> reply list) option" where
  "late_end = schedule late_cutoff [0, 1, 2] late_actions (idle late_db 99, [])"

definition late_replies :: "reply list" where
  "late_replies =
     [Paid 3 2 1010 ''rent'' [] \<lparr>TransferID = 13, NewBalance = 10, Replayed = False\<rparr>,
      Returned (late_transfer 11 1 0) \<lparr>cTransferID = 11, cNewBalance = 1000, cReversedAt = 99, cReplayed = False\<rparr>]"

definition failed_with :: "goerr \<Rightarrow> reply txp \<Rightarrow> bool" where
  "failed_with err p \<longleftrightarrow> (case p of TxReturn (Inl e) \<Rightarrow> e = err | _ \<Rightarrow> False)"

lemma late_replies_simps [simp]:
  "late_replies \<noteq> []" "label_of ` set late_replies = {Posted 3 ''rent'' 13, ClaimedBack 11}"
  by (simp_all add: late_replies_def late_transfer_def)

end
