(* ===== verification/Holds.thy ===== *)
theory Holds
  imports Serial Constraints Schedule
begin

text \<open>
  The holds under interleaving. When no claim commits after the window of its transfer, measured
  by the clock at its commit, every committed balance covers the holds on it at all times,
  although each transaction computes its windows with the time of its own \<open>BEGIN\<close>.
\<close>

section \<open>Claims that commit in time\<close>

fun in_time :: "pgtime \<Rightarrow> db \<Rightarrow> reply \<Rightarrow> bool" where
  "in_time c d (Returned tr res) \<longleftrightarrow> (\<exists>row \<in> set (transfers d). trID row = trID tr \<and> active_hold c row)"
| "in_time c d (Paid s r amount key hash res) \<longleftrightarrow> True"
| "in_time c d (Created u) \<longleftrightarrow> True"

inductive timely_history ::
  "(pgtime \<Rightarrow> duration \<Rightarrow> pgtime) \<Rightarrow> duration \<Rightarrow> (db \<Rightarrow> reply txp set) \<Rightarrow> reply sys \<Rightarrow> reply list \<Rightarrow> reply sys \<Rightarrow> bool"
  for cu :: "pgtime \<Rightarrow> duration \<Rightarrow> pgtime" and win :: duration and bodies :: "db \<Rightarrow> reply txp set" and S0 :: "reply sys" where
  timely_start: "timely_history cu win bodies S0 [] S0"
| timely_move: "timely_history cu win bodies S0 ls S \<Longrightarrow> session_step cu i S S' \<Longrightarrow>
    \<forall>c \<in> set (committing i S). in_time (cu (pg_now S) win) (committed S) c \<Longrightarrow>
    timely_history cu win bodies S0 (ls @ committing i S) S'"
| timely_outside: "timely_history cu win bodies S0 ls S \<Longrightarrow> outside_step bodies S S' \<Longrightarrow> timely_history cu win bodies S0 ls S'"

lemma timely_is_history: "timely_history cu win bodies S0 ls S \<Longrightarrow> history cu bodies S0 ls S"
  by (induction rule: timely_history.induct) (auto intro: history.intros)

section \<open>Sessions began in the past\<close>

lemma session_step_began:
  "session_step cu i S S' \<Longrightarrow> (\<And>j s. sess S j = Some s \<Longrightarrow> began s \<le> pg_now S) \<Longrightarrow> sess S' j = Some s \<Longrightarrow> began s \<le> pg_now S'"
  by (erule session_step.cases) (auto split: if_splits)

lemma outside_step_began:
  "outside_step B S S' \<Longrightarrow> (\<And>j s. sess S j = Some s \<Longrightarrow> began s \<le> pg_now S) \<Longrightarrow> sess S' j = Some s \<Longrightarrow> began s \<le> pg_now S'"
  by (erule outside_step.cases) (auto simp: start_def split: if_splits intro: order_trans)

lemma began_reaches:
  "sys_reaches cu B (idle d now) S \<Longrightarrow> sess S j = Some s \<Longrightarrow> began s \<le> pg_now S"
  unfolding sys_reaches_def
proof (induction arbitrary: j s rule: rtranclp_induct)
  case (step S S')
  then show ?case
    unfolding sys_step_def moves_def using session_step_began outside_step_began by blast
qed (simp add: idle_def)

section \<open>A step keeps the holds covered\<close>

definition covered :: "pgtime \<Rightarrow> db \<Rightarrow> bool" where
  "covered c d \<longleftrightarrow> parties_ok d \<and> solvent c d"

lemma covered_step:
  assumes "spec_step x t (cu b) b c d d'" "schema_ok d" "schema_ok d'" "covered limit d" "sound_reply d c"
    and "cu b (claimWindow t) \<le> limit" "in_time limit d c" "0 \<le> sint (seedPaise t)"
  shows "covered limit d'"
proof (cases c)
  case (Paid s r amount key hash res)
  then have spec: "transfer_spec b (cu b (claimWindow t)) (seedPaise t) (sort_ids x [s, r]) (TransferID res) s r amount key hash d = Inr (res, d')"
    and sr: "s \<noteq> r" "0 < sint amount"
    using assms(1,5) by simp_all
  from spec have "\<exists>row \<in> set (transfers d'). SenderID row = s \<and> RecipientID row = r" "users d' = users d"
    by (auto elim!: transfer_specE simp: transfer_row_def)
  with assms(3) have "\<forall>u \<in> set (sort_ids x [s, r]). has_user u d"
    by (auto simp: schema_ok_def transfers_ok_def has_user_def)
  then show ?thesis
    using solvency.inv_transfer_spec_later [OF spec assms(6)] parties.inv_transfer_spec [OF spec] assms(2,4,8) sr
    by (simp add: covered_def)
next
  case (Returned tr res)
  then have spec: "claim_spec b (cu b (claimWindow t)) tr d = Inr (res, d')" using assms(1) by simp
  obtain row where row: "row \<in> set (transfers d)" "same_columns tr row" using assms(5) Returned by auto
  obtain row' where row': "row' \<in> set (transfers d)" "trID row' = trID tr" "active_hold limit row'"
    using assms(7) Returned by auto
  have "row' = row"
    using row row' assms(2) by (intro transfer_id_unique [of d]) (auto simp: schema_ok_def same_columns_def)
  then show ?thesis
    using solvency.inv_claim_spec_later [OF spec, of limit row] parties.inv_claim_spec [OF spec] assms(2,4) row row'(3)
    by (simp add: covered_def same_columns_def)
next
  case (Created u)
  then show ?thesis
    using assms(1,2,4,8) solvency.inv_new_wallet [of limit d u "seedPaise t" b]
    by (cases "has_wallet u d") (simp_all add: covered_def parties_ok_ensure_wallet, simp add: ensure_wallet_def)
qed

lemma covered_history:
  assumes "timely_history cu (claimWindow t) (service_bodies x t) (idle d now) ls S"
    and "schema_ok d" "covered (cu now (claimWindow t)) d" "0 \<le> sint (seedPaise t)"
    and mono: "\<And>a b. a \<le> b \<Longrightarrow> cu a (claimWindow t) \<le> cu b (claimWindow t)"
  shows "covered (cu (pg_now S) (claimWindow t)) (committed S)"
  using assms(1)
proof (induction rule: timely_history.induct)
  case (timely_move ls S i S')
  note hist = timely_is_history [OF timely_move(1)]
  note reach = history_reaches [OF hist] history_reaches [OF history_move [OF hist timely_move(2)]]
  note schema = schema_kept [OF reach(1) assms(2,4)] schema_kept [OF reach(2) assms(2,4)]
  have now: "pg_now S' = pg_now S" using timely_move(2) by (auto elim: session_step.cases)
  from timely_move(2) show ?case
  proof (cases rule: committing_step)
    case (1 s c)
    have "distinct_transfers d" using assms(2) by (simp add: schema_ok_parts)
    then have "serial.safe x t cu S"
      by (intro serial.safe_reaches [OF reach(1) service_bodies_follow] serial.safe_idle)
    then have fol: "following x t cu (committed S) s" using serial.safeD(3) [OF _ 1(1)] by blast
    have "\<forall>u b. balance_of u (committed S) = Some b \<longrightarrow> 0 \<le> sint b"
      using schema(1) by (simp add: schema_ok_parts accounts_ok_def)
    from commit_spec [OF fol 1(2) this assms(4)] commit_sound [OF fol 1(2)] timely_move(3)
    show ?thesis
      using covered_step [OF _ schema timely_move(4)] mono [OF began_reaches [OF reach(1) 1(1)]] assms(4)
      by (simp add: 1(3,4) now)
  next
    case 2
    then show ?thesis using timely_move(4) now by simp
  qed
next
  case (timely_outside ls S S')
  have "transfers_ok (committed S)"
    using schema_kept [OF history_reaches [OF timely_is_history [OF timely_outside(1)]] assms(2,4)]
    by (simp add: schema_ok_def)
  with timely_outside(2,3) show ?case
    by cases (auto simp: covered_def intro: solvency.inv_later parties.inv_new_user solvency.inv_new_user mono)
qed (use assms(3) in \<open>simp add: idle_def\<close>)

text \<open>What the cover is for: the recipient of every hold can pay it back.\<close>

lemma covered_hold:
  assumes "covered c d" "schema_ok d" "row \<in> set (transfers d)" "active_hold c row"
  shows "\<exists>b. balance_of (RecipientID row) d = Some b \<and> sint (AmountPaise row) \<le> sint b"
proof -
  have "has_wallet (RecipientID row) d" using assms(1,3) by (simp add: covered_def parties_ok_def transfer_ok_def)
  then obtain b where b: "balance_of (RecipientID row) d = Some b" using balance_of_None_iff [of "RecipientID row" d] by auto
  have "sint (AmountPaise row) \<le> held_sum c (RecipientID row) d"
    using assms(2-4) by (intro held_sum_covers) (simp_all add: schema_ok_def)
  also have "\<dots> \<le> sint b" using assms(1) b by (simp add: covered_def solvent_def)
  finally show ?thesis using b by blast
qed

section \<open>Timely schedules\<close>

fun timely :: "(pgtime \<Rightarrow> duration \<Rightarrow> pgtime) \<Rightarrow> duration \<Rightarrow> nat list \<Rightarrow> action list \<Rightarrow> reply sys \<Rightarrow> bool" where
  "timely cu win ids [] S \<longleftrightarrow> True"
| "timely cu win ids (a # as) S \<longleftrightarrow> list_all (in_time (cu (pg_now S) win) (committed S)) (committed_by a S) \<and>
     (case perform cu ids a S of None \<Rightarrow> True | Some S' \<Rightarrow> timely cu win ids as S')"

lemma schedule_timely:
  assumes "schedule cu ids as (S, ls) = Some (S', ls')" "\<And>j. j \<notin> set ids \<Longrightarrow> sess S j = None"
    and "list_all (begins_in B) as" "timely cu win ids as S" "timely_history cu win B S0 ls S"
  shows "timely_history cu win B S0 ls' S'"
  using assms
proof (induction as arbitrary: S ls)
  case (Cons a as)
  from Cons.prems(1) obtain S1 where S1: "perform cu ids a S = Some S1"
    and rest: "schedule cu ids as (S1, ls @ committed_by a S) = Some (S', ls')"
    by (auto split: option.splits)
  have "timely_history cu win B S0 (ls @ committed_by a S) S1"
    by (rule perform_step [OF S1 Cons.prems(2), of B])
      (use Cons.prems(3-5) timely_move timely_outside in \<open>fastforce simp: list_all_iff\<close>)+
  then show ?case
    using Cons.IH [OF rest perform_ids [OF S1 Cons.prems(2)]] Cons.prems(3,4) by (simp add: S1)
qed simp

end
