(* ===== verification/Deadlock.thy ===== *)
theory Deadlock
  imports Concurrency "HOL-Library.Multiset"
begin

text \<open>
  The bodies take their locks in one global order: the keys of new wallets and then the rows of
  wallets, each in the order of \<open>sort_ids\<close>, then the idempotency key, then the row of the
  transfer. \<open>ascending\<close> checks this of a body once; a system of such bodies never deadlocks.
\<close>

section \<open>The order of locks\<close>

definition rank :: "extern \<Rightarrow> resource \<Rightarrow> nat \<times> string" where
  "rank x r = (case r of
      WalletKey u \<Rightarrow> (0, uuid_String x u)
    | WalletRow u \<Rightarrow> (1, uuid_String x u)
    | TransferKey u key \<Rightarrow> (2, [])
    | TransferRow i \<Rightarrow> (3, []))"

lemma rank_simps [simp]:
  "rank x (WalletKey u) = (0, uuid_String x u)" "rank x (WalletRow u) = (1, uuid_String x u)"
  "rank x (TransferKey u key) = (2, [])" "rank x (TransferRow i) = (3, [])"
  by (simp_all add: rank_def)

definition above :: "extern \<Rightarrow> resource set \<Rightarrow> nat \<times> string \<Rightarrow> bool" where
  "above x H r \<longleftrightarrow> (\<forall>h \<in> H. rank x h < r)"

lemma above_simps [simp]:
  "above x {} r" "above x (insert h H) r \<longleftrightarrow> rank x h < r \<and> above x H r" "above x (H \<union> H') r \<longleftrightarrow> above x H r \<and> above x H' r"
  by (auto simp: above_def)

primrec ascending :: "extern \<Rightarrow> 'a txp \<Rightarrow> resource set \<Rightarrow> bool" where
  "ascending x (TxReturn r) = (\<lambda>H. True)"
| "ascending x (WalletExists u k) = (\<lambda>H. \<forall>r. ascending x (k r) H)"
| "ascending x (InsertWallet u b k) = (\<lambda>H. above x H (rank x (WalletKey u)) \<and>
     (\<forall>r. ascending x (k r) H \<and> ascending x (k r) (insert (WalletKey u) H)))"
| "ascending x (LockWallet u k) = (\<lambda>H. above x H (rank x (WalletRow u)) \<and>
     (\<forall>err. ascending x (k (Inl err)) H) \<and> (\<forall>b. ascending x (k (Inr b)) (insert (WalletRow u) H)))"
| "ascending x (InsertTransfer t k) = (\<lambda>H. above x H (2, []) \<and>
     (\<forall>r. ascending x (k r) H \<and>
       (\<forall>i. ascending x (k r) (H \<union> {TransferKey (SenderID t) (IdempotencyKey t), TransferRow i}))))"
| "ascending x (SumActiveHolds u win k) = (\<lambda>H. \<forall>r. ascending x (k r) H)"
| "ascending x (MarkReversed i win b k) = (\<lambda>H. above x H (3, []) \<and>
     (\<forall>r. ascending x (k r) H \<and> ascending x (k r) (insert (TransferRow i) H)))"
| "ascending x (UpdateWalletBalance u b k) = (\<lambda>H. WalletRow u \<in> H \<and> (\<forall>r. ascending x (k r) H))"
| "ascending x (TxObserve m l k) = ascending x k"

lemma ascending_map_txp [simp]: "ascending x (map_txp f p) = ascending x p"
  by (induction p) (auto simp: fun_eq_iff)

lemma ascending_orReturn: "(\<And>b. ascending x (k b) H) \<Longrightarrow> ascending x (orReturn k r) H"
  by (cases r) simp_all

lemma ascending_needs:
  assumes "ascending x p H" "h' \<in> needs cu fresh d p"
  shows "h' \<in> H \<or> above x H (rank x h')"
proof (cases p)
  case (InsertTransfer t k)
  have "r < (3, [])" if "r < (2, [])" for r :: "nat \<times> string"
    using that by (cases r) (auto simp: less_prod_def)
  then have "above x H (3, [])" if "above x H (2, [])"
    using that unfolding above_def by blast
  then show ?thesis using assms InsertTransfer by (auto split: if_splits)
qed (use assms in \<open>auto split: if_splits\<close>)

lemma ascending_next:
  assumes "ascending x p H" "tx_next cu now fresh d p = Some (q, ws)"
  shows "ascending x q (H \<union> needs cu fresh d p)"
proof (cases p)
  case (LockWallet u k)
  show ?thesis
  proof (cases "balance_of u d")
    case None
    then have "fst (Tx_LockWallet Fine u d) = Inl RepoErrNotFound" "\<not> has_wallet u d"
      by (simp_all add: Tx_LockWallet_def deliver_def sql_balance_def row_result_def balance_of_def)
        (simp add: balance_of_None_iff [symmetric] balance_of_def)
    then show ?thesis using assms LockWallet by (auto simp: continue_with_def)
  next
    case (Some b)
    then have "fst (Tx_LockWallet Fine u d) = Inr b" "has_wallet u d"
      using balance_of_has_wallet by (auto simp: Tx_LockWallet_def deliver_def sql_balance_def row_result_def balance_of_def)
    then show ?thesis using assms LockWallet by (auto simp: continue_with_def)
  qed
qed (use assms in \<open>auto simp: continue_with_def insert_absorb\<close>)

section \<open>The bodies of the service\<close>

definition in_order :: "extern \<Rightarrow> uuid list \<Rightarrow> bool" where
  "in_order x ids \<longleftrightarrow> sorted_wrt (\<lambda>a b. uuid_String x a < uuid_String x b) ids"

lemma in_order_simps [simp]:
  "in_order x []" "in_order x (a # ids) \<longleftrightarrow> (\<forall>b \<in> set ids. uuid_String x a < uuid_String x b) \<and> in_order x ids"
  by (simp_all add: in_order_def)

lemma in_order_sort_ids: "uuid_ok x \<Longrightarrow> a \<noteq> b \<Longrightarrow> in_order x (sort_ids x [a, b])"
  using uuid_String_inject [of x a b] by (auto simp: sort_ids_two not_le order.strict_iff_order)

lemma ascending_ensure_wallets:
  "in_order x ids \<Longrightarrow> \<forall>u \<in> set ids. above x H (0, uuid_String x u) \<Longrightarrow>
   (\<And>H'. H' \<subseteq> H \<union> WalletKey ` set ids \<Longrightarrow> ascending x rest H') \<Longrightarrow> ascending x (ensure_wallets seed ids rest) H"
proof (induction ids arbitrary: H)
  case (Cons u ids)
  have skip: "ascending x (ensure_wallets seed ids rest) H"
    using Cons.prems by (intro Cons.IH) auto
  have take: "ascending x (ensure_wallets seed ids rest) (insert (WalletKey u) H)"
    using Cons.prems by (intro Cons.IH) auto
  show ?case
    using Cons.prems(2) skip take by (auto intro!: ascending_orReturn)
qed simp

lemma ascending_lock_wallets:
  "in_order x ids \<Longrightarrow> \<forall>u \<in> set ids. above x H (1, uuid_String x u) \<Longrightarrow>
   (\<And>bals. ascending x (rest bals) (H \<union> WalletRow ` set ids)) \<Longrightarrow> ascending x (lock_wallets ids bals rest) H"
proof (induction ids arbitrary: H bals)
  case (Cons u ids)
  have "ascending x (lock_wallets ids bals' rest) (insert (WalletRow u) H)" for bals'
    using Cons.prems by (intro Cons.IH) auto
  then show ?case using Cons.prems(2) by simp
qed simp

lemma above_keys: "above x (WalletKey ` U) (Suc n, s)"
  by (auto simp: above_def less_prod_def)

lemma above_rows: "above x (WalletRow ` U) (Suc (Suc n), s)"
  by (auto simp: above_def less_prod_def)

lemma above_mono: "above x H r \<Longrightarrow> H' \<subseteq> H \<Longrightarrow> above x H' r"
  by (auto simp: above_def)

lemma ascending_execute_move:
  assumes "H' \<subseteq> WalletKey ` U"
  shows "ascending x (execute_move t s r amount key hash bals) (H' \<union> WalletRow ` {s, r})"
proof -
  have "above x H' (2, [])" "above x (WalletRow ` {s, r}) (2, [])"
    using above_mono [OF above_keys assms] above_rows [of x "{s, r}" 0 "[]"] by (simp_all add: numeral_2_eq_2)
  then show ?thesis by (auto simp: execute_move_def Let_def intro!: ascending_orReturn)
qed

lemma ascending_claim_move: "ascending x (claim_move t tr bals) (WalletRow ` {SenderID tr, RecipientID tr})"
  by (auto simp: claim_move_def Let_def above_def less_prod_def intro!: ascending_orReturn)

lemma ascending_execute_body:
  assumes "uuid_ok x" "s \<noteq> r"
  shows "ascending x (execute_body x t s r amount key hash) {}"
  unfolding execute_body_def Let_def
proof (rule ascending_ensure_wallets [OF in_order_sort_ids [OF assms]])
  fix H' assume H': "H' \<subseteq> {} \<union> WalletKey ` set (sort_ids x [s, r])"
  show "ascending x (lock_wallets (sort_ids x [s, r]) (\<lambda>_. 0) (execute_move t s r amount key hash)) H'"
  proof (rule ascending_lock_wallets [OF in_order_sort_ids [OF assms]])
    show "\<forall>u \<in> set (sort_ids x [s, r]). above x H' (1, uuid_String x u)"
      using above_mono [OF above_keys, of H' "set (sort_ids x [s, r])" x 0] H' by simp
    show "ascending x (execute_move t s r amount key hash bals) (H' \<union> WalletRow ` set (sort_ids x [s, r]))" for bals
      using ascending_execute_move [of H' "set (sort_ids x [s, r])" x t s r amount key hash bals] H' by simp
  qed
qed simp

lemma ascending_claim_body:
  assumes "uuid_ok x" "SenderID tr \<noteq> RecipientID tr"
  shows "ascending x (claim_body x t tr) {}"
  unfolding claim_body_def Let_def
  using ascending_claim_move [of x t tr]
  by (intro ascending_lock_wallets [OF in_order_sort_ids [OF assms]]) simp_all

section \<open>Somebody can always move\<close>

definition ordered_session :: "extern \<Rightarrow> db \<Rightarrow> 'a session \<Rightarrow> bool" where
  "ordered_session x d s \<longleftrightarrow> ascending x (prog s) (held s)"

definition ordered_bodies :: "extern \<Rightarrow> db \<Rightarrow> 'a txp set" where
  "ordered_bodies x d = {p. ascending x p {}}"

interpretation lock_order: session_invariant cu "\<lambda>d. True" "ordered_session x" "ordered_bodies x"
  for cu :: "pgtime \<Rightarrow> duration \<Rightarrow> pgtime" and x :: extern
  by unfold_locales
    (auto simp: ordered_session_def ordered_bodies_def start_def intro: ascending_next)

text \<open>There are finitely many sessions at any time.\<close>

definition sessions :: "'a sys \<Rightarrow> nat set" where
  "sessions S = {i. sess S i \<noteq> None}"

lemma sessions_simps [simp]:
  "sessions (S\<lparr>sess := (sess S)(i \<mapsto> s)\<rparr>) = insert i (sessions S)"
  "sessions (S\<lparr>sess := (sess S)(i := None)\<rparr>) = sessions S - {i}"
  "sessions (S\<lparr>committed := d, sess := f\<rparr>) = sessions (S\<lparr>sess := f\<rparr>)"
  "sessions (S\<lparr>committed := d\<rparr>) = sessions S" "sessions (S\<lparr>pg_now := now\<rparr>) = sessions S"
  "sessions (idle d now) = {}"
  by (auto simp: sessions_def idle_def)

lemma session_step_sessions: "session_step cu i S S' \<Longrightarrow> sessions S' \<subseteq> insert i (sessions S) \<and> i \<in> sessions S"
  by (erule session_step.cases) (auto simp: sessions_def [of S])

lemma moves_finite: "moves cu S S' \<Longrightarrow> finite (sessions S) \<Longrightarrow> finite (sessions S')"
  using session_step_sessions unfolding moves_def by (metis finite_insert finite_subset)

lemma finite_sessions_step: "sys_step cu bodies S S' \<Longrightarrow> finite (sessions S) \<Longrightarrow> finite (sessions S')"
  unfolding sys_step_def
proof (elim disjE)
  show "finite (sessions S')" if "outside_step bodies S S'" "finite (sessions S)"
    using that by cases simp_all
qed (rule moves_finite)

lemma finite_sessions: "sys_reaches cu bodies S S' \<Longrightarrow> finite (sessions S) \<Longrightarrow> finite (sessions S')"
  unfolding sys_reaches_def by (induction rule: rtranclp_induct) (auto intro: finite_sessions_step)

text \<open>A session that cannot move waits for a lock that another session holds.\<close>

lemma blocked_waits:
  assumes "sess S i = Some s" "\<And>S'. \<not> session_step cu i S S'"
  shows "\<exists>h j s'. h \<in> needs (cu (began s)) 0 (view s (committed S)) (prog s) \<and> j \<noteq> i \<and> sess S j = Some s' \<and> h \<in> held s'"
proof -
  have "prog s \<noteq> TxReturn r" for r
    using assms session_step.commit [OF assms(1)] session_step.rollback [OF assms(1)] by (cases r) blast+
  then obtain p ws where "tx_next (cu (began s)) (began s) 0 (view s (committed S)) (prog s) = Some (p, ws)"
    by (cases "prog s") (auto simp: continue_with_def)
  then have "\<not> granted S i (needs (cu (began s)) 0 (view s (committed S)) (prog s))"
    using session_step.statement [OF assms(1)] assms(2) by blast
  then show ?thesis unfolding granted_def by blast
qed

lemma finite_needs: "finite (needs cu fresh d p)"
  by (cases p) auto

lemma somebody_moves:
  assumes "lock_order.safe x S" "finite (sessions S)" "sess S i0 = Some s0"
  shows "\<exists>i S'. session_step cu i S S'"
proof (rule ccontr)
  assume stuck: "\<nexists>i S'. session_step cu i S S'"
  define wants where "wants i = (case sess S i of None \<Rightarrow> {} | Some s \<Rightarrow> needs (cu (began s)) 0 (view s (committed S)) (prog s))" for i
  define C where "C = {h. \<exists>i j s'. h \<in> wants i \<and> j \<noteq> i \<and> sess S j = Some s' \<and> h \<in> held s'}"
  have "C \<subseteq> (\<Union>i \<in> sessions S. wants i)" by (auto simp: C_def wants_def sessions_def split: option.splits)
  moreover have "finite (\<Union>i \<in> sessions S. wants i)"
    using assms(2) by (auto simp: wants_def finite_needs split: option.split)
  ultimately have fin: "finite (rank x ` C)" by (meson finite_imageI finite_subset)
  have waits: "\<exists>h j s'. h \<in> C \<and> h \<in> wants i \<and> j \<noteq> i \<and> sess S j = Some s' \<and> h \<in> held s'" if "sess S i = Some s" for i s
  proof -
    have "wants i = needs (cu (began s)) 0 (view s (committed S)) (prog s)" by (simp add: wants_def that)
    then show ?thesis using blocked_waits [OF that, of cu] stuck unfolding C_def by blast
  qed
  then have "rank x ` C \<noteq> {}" using assms(3) by blast
  then obtain h where h: "h \<in> C" "\<And>h'. h' \<in> C \<Longrightarrow> rank x h' \<le> rank x h"
    using Max_in [OF fin] Max_ge [OF fin] by (metis (no_types, lifting) imageE image_eqI)
  then obtain i j s' where j: "h \<in> wants i" "j \<noteq> i" "sess S j = Some s'" "h \<in> held s'" by (auto simp: C_def)
  from waits [OF j(3)] obtain h' l s'' where h': "h' \<in> C" "h' \<in> wants j"
    and l: "l \<noteq> j" "sess S l = Some s''" "h' \<in> held s''" by blast
  have "h' \<notin> held s'"
    using exclusiveD [OF lock_order.safeD(2) [OF assms(1)] l(1,2) j(3)] l(3) by blast
  then have "rank x h < rank x h'"
    using ascending_needs [of x "prog s'" "held s'" h'] lock_order.safeD(3) [OF assms(1) j(3)] j(3,4) h'(2)
    by (auto simp: ordered_session_def wants_def above_def)
  then show False using h(2) [OF h'(1)] by simp
qed


section \<open>And every transaction ends\<close>

text \<open>
  Each statement leaves less of a body to run, so the multiset of the bodies under way
  decreases with every step of a session.
\<close>

definition rest_of :: "('a txp \<times> 'a txp) set" where
  "rest_of = {(q, p). \<exists>cu now fresh d ws. tx_next cu now fresh d p = Some (q, ws)}"

lemma wf_rest_of: "wf rest_of"
  unfolding wf_def
proof (intro allI impI)
  fix P :: "'a txp \<Rightarrow> bool" and p
  assume step: "\<forall>p. (\<forall>q. (q, p) \<in> rest_of \<longrightarrow> P q) \<longrightarrow> P p"
  show "P p"
    by (induction p; rule step [rule_format]) (auto simp: rest_of_def continue_with_def)
qed

definition pending :: "'a sys \<Rightarrow> 'a txp multiset" where
  "pending S = image_mset (\<lambda>i. prog (the (sess S i))) (mset_set (sessions S))"

lemma pending_split:
  assumes "finite (sessions S)" "sess S i = Some s"
  shows "pending S = add_mset (prog s) (image_mset (\<lambda>i. prog (the (sess S i))) (mset_set (sessions S - {i})))"
proof -
  have "i \<in> sessions S" using assms(2) by (simp add: sessions_def)
  then have "mset_set (sessions S) = add_mset i (mset_set (sessions S - {i}))"
    using assms(1) by (simp add: mset_set.remove)
  then show ?thesis using assms(2) by (simp add: pending_def)
qed

lemma pending_decreases:
  assumes "session_step cu i S S'" "finite (sessions S)"
  shows "(pending S', pending S) \<in> mult rest_of"
proof -
  let ?M = "image_mset (\<lambda>i. prog (the (sess S i))) (mset_set (sessions S - {i}))"
  have others: "image_mset (\<lambda>j. prog (the ((if j = i then o' else sess S j)))) (mset_set (sessions S - {i})) = ?M" for o'
    using assms(2) by (intro image_mset_cong) auto
  from assms(1) show ?thesis
  proof (cases rule: session_step.cases)
    case (statement s fresh p ws)
    have rest: "(p, prog s) \<in> rest_of" using statement(3) unfolding rest_of_def by blast
    have "pending S' = add_mset p ?M"
      using pending_split [of S' i] assms(2) others by (simp add: statement(1) insert_Diff_if)
    moreover have "pending S = add_mset (prog s) ?M" by (rule pending_split [OF assms(2) statement(2)])
    ultimately show ?thesis
      using one_step_implies_mult [of "{#prog s#}" "{#p#}" rest_of ?M] rest by simp
  next
    case (commit s a)
    have "pending S' = ?M" using others by (simp add: pending_def commit(1))
    then show ?thesis
      using one_step_implies_mult [of "{#prog s#}" "{#}" rest_of ?M] pending_split [OF assms(2) commit(2)] by simp
  next
    case (rollback s err)
    have "pending S' = ?M" using others by (simp add: pending_def rollback(1))
    then show ?thesis
      using one_step_implies_mult [of "{#prog s#}" "{#}" rest_of ?M] pending_split [OF assms(2) rollback(2)] by simp
  qed
qed

lemma moves_safe: "moves cu S S' \<Longrightarrow> lock_order.safe x S \<Longrightarrow> lock_order.safe x S'"
  using lock_order.safe_session_step unfolding moves_def by blast

lemma wf_moves: "wf {(S', S). finite (sessions S) \<and> moves cu S S'}"
  by (rule wf_subset [OF wf_inv_image [OF wf_mult [OF wf_rest_of]], of _ pending])
    (auto simp: inv_image_def moves_def intro: pending_decreases)

lemma everybody_finishes:
  assumes "lock_order.safe x S" "finite (sessions S)"
  shows "\<exists>S'. (moves cu)\<^sup>*\<^sup>* S S' \<and> sessions S' = {}"
  using assms
proof (induction S rule: wf_induct_rule [OF wf_moves [of cu]])
  case (1 S)
  show ?case
  proof (cases "sessions S = {}")
    case True
    then show ?thesis by blast
  next
    case False
    then obtain i s where "sess S i = Some s" by (auto simp: sessions_def)
    from somebody_moves [OF 1(2,3) this, of cu] obtain S1 where m: "moves cu S S1" by (auto simp: moves_def)
    from 1(1) [of S1] m 1(2,3) moves_safe [OF m] moves_finite [OF m] obtain S' where
      "(moves cu)\<^sup>*\<^sup>* S1 S'" "sessions S' = {}" by blast
    then show ?thesis using converse_rtranclp_into_rtranclp [of "moves cu", OF m] by blast
  qed
qed

end
