(* ===== verification/Concurrency_Properties.thy ===== *)
theory Concurrency_Properties
  imports Holds Deadlock
begin

text \<open>
  Properties of the service under any interleaving of its transactions: \<open>service_bodies\<close>
  are the transactions that the handlers start, each in a session of its own.
\<close>

section \<open>The bodies of the service\<close>

lemma service_bodies_ordered: "uuid_ok x \<Longrightarrow> service_bodies x t d \<subseteq> ordered_bodies x d"
  by (auto simp: service_bodies_def ordered_bodies_def execute_tx_def claim_tx_def open_tx_def
      ascending_execute_body ascending_claim_body)

lemma session_step_pg_now: "(session_step cu i)\<^sup>*\<^sup>* S S' \<Longrightarrow> pg_now S' = pg_now S"
  by (induction rule: rtranclp_induct) (auto elim: session_step.cases)

section \<open>Concurrent clients\<close>

text \<open>
  C4: exactly once, whatever the interleaving. However the transactions of any number of
  concurrent requests interleave, and whichever connections are lost between statements, every
  idempotency key of a sender is committed by at most one transaction and every transfer is
  claimed back by at most one; and each committed transaction has its row in the tables.
\<close>

theorem concurrent_exactly_once:
  assumes "history cu (service_bodies x t) (idle d now) ls S" "schema_ok d"
  shows "distinct (events ls) \<and> (\<forall>c \<in> set ls. settled (label_of c) (transfers (committed S)))"
proof -
  have "distinct_transfers d"
    using assms(2) by (simp add: distinct_transfers_def schema_ok_def transfers_ok_def)
  then have "recorded [] (idle d now)"
    using once.safe_idle by (simp add: recorded_def)
  from recorded_history [OF assms(1) this honest_service_bodies] show ?thesis
    by (simp add: recorded_def)
qed

lemma late_begins: "list_all (begins_in (service_bodies ex_extern late_service)) late_actions"
  by (auto simp: late_actions_def late_claim_def late_second_claim_def late_spend_def list_all_iff has_read_def list_ex_iff
      late_transfer_def intro!: in_service_bodies)

lemma late_history:
  assumes "late_end = Some (S, ls)"
  shows "history late_cutoff (service_bodies ex_extern late_service) (idle late_db 99) ls S"
  using schedule_history [OF assms [unfolded late_end_def] _ late_begins history_start]
  by (simp add: idle_def)

lemma late_schema_ok: "schema_ok late_db"
  by code_simp

lemma late_outcome:
  obtains S where "late_end = Some (S, late_replies)" "balance_of 3 (committed S) = Some 0"
    "held_sum (late_cutoff (pg_now S) (claimWindow late_service)) 3 (committed S) = 10"
    "\<exists>s. sess S 2 = Some s \<and> failed_with check_violation (prog s)"
proof -
  have "map_option (\<lambda>(S, ls). (ls, balance_of 3 (committed S),
      held_sum (late_cutoff (pg_now S) (claimWindow late_service)) 3 (committed S),
      map_option (\<lambda>s. failed_with check_violation (prog s)) (sess S 2))) late_end
    = Some (late_replies, Some 0, 10, Some True)"
    by code_simp
  then show ?thesis using that by (auto simp: map_option_case split: option.splits prod.splits)
qed

lemma concurrent_exactly_once_witness:
  "\<exists>S. history late_cutoff (service_bodies ex_extern late_service) (idle late_db 99) late_replies S \<and>
     settled (ClaimedBack 11) (transfers (committed S))"
proof (rule late_outcome)
  fix S assume "late_end = Some (S, late_replies)"
  then have h: "history late_cutoff (service_bodies ex_extern late_service) (idle late_db 99) late_replies S"
    by (rule late_history)
  from concurrent_exactly_once [OF h late_schema_ok] have "\<forall>l \<in> label_of ` set late_replies. settled l (transfers (committed S))" by blast
  then have "settled (ClaimedBack 11) (transfers (committed S))" by simp
  with h show ?thesis by blast
qed

text \<open>
  C3: commits are serial. Whatever the interleaving, the tables that concurrent transactions
  leave are those of running them one after another in the order of their commits: each step
  is one application of \<open>transfer_spec\<close>, \<open>claim_spec\<close> or the creation of a wallet, with the
  result its client is told, at the time its transaction began.
\<close>

theorem commits_are_serial:
  assumes "history cu (service_bodies x t) (idle d now) ls S" "schema_ok d" "0 \<le> sint (seedPaise t)"
  shows "serial_run x t cu d ls (committed S)"
proof -
  let ?extra = "surplus (seedPaise t) d"
  have "seed_money (seedPaise t) ?extra d" "distinct_transfers d"
    using assms(2,3) schema_money by (simp_all add: schema_ok_parts)
  then have start: "isolation.safe (seedPaise t) ?extra (idle d now :: reply sys)" "serial.safe x t cu (idle d now)"
    by (simp_all add: isolation.safe_idle serial.safe_idle)
  from assms(1) show ?thesis
  proof induction
    case (history_move ls S i S')
    note reach = history_reaches [OF history_move(1)]
    have "isolation.safe (seedPaise t) ?extra S"
      by (rule isolation.safe_reaches [OF reach service_bodies_balanced start(1)])
    then have "\<forall>u b. balance_of u (committed S) = Some b \<longrightarrow> 0 \<le> sint b"
      by (auto dest: isolation.safeD(1) simp: seed_money_def accounts_ok_def)
    moreover have "serial.safe x t cu S"
      by (rule serial.safe_reaches [OF reach service_bodies_follow start(2)])
    ultimately show ?case using serial_move [OF history_move(2)] history_move(3) assms(3) by blast
  next
    case (history_outside ls S S')
    then show ?case using serial_outside by blast
  qed (simp add: idle_def serial_start)
qed

lemma commits_are_serial_witness:
  "\<exists>d'. serial_run ex_extern late_service late_cutoff late_db late_replies d' \<and> balance_of 3 d' = Some 0"
  by (rule late_outcome) (use commits_are_serial [OF late_history late_schema_ok] in \<open>auto simp: late_service_def\<close>)

text \<open>
  C8: the books balance whatever the interleaving. In every state that concurrent transactions
  reach, the committed balances add up to the number of wallets times the seed, and the tables
  satisfy every constraint of the schema: no negative balance, no second wallet of a user, no
  key used twice, no row without its user. A transaction that has read a balance under the
  row lock writes what it read plus or minus the amount, and no other can have changed it.
\<close>

theorem concurrent_conservation:
  fixes now :: pgtime
  assumes "sys_reaches cu (service_bodies x t) (idle empty_db now) S" "0 \<le> sint (seedPaise t)"
  shows "money (committed S) = sint (seedPaise t) * int (length (wallets (committed S))) \<and> schema_ok (committed S)"
  using money_kept [OF assms(1) schema_ok_empty assms(2)] schema_kept [OF assms(1) schema_ok_empty assms(2)]
  by (simp add: seed_money_def surplus_def money_def empty_db_def)

definition open_actions :: "action list" where
  "open_actions = map Join ex_users @ [Begin 0 None (open_tx ex_service 1), Begin 1 None (open_tx ex_service 2)] @ [Run 0 5, Run 1 6, Run 1 6, Run 0 5]"

lemma open_history:
  obtains S where "history late_cutoff (service_bodies ex_extern ex_service) (idle empty_db 0) [Created 2, Created 1] S"
    "length (wallets (committed S)) = 2"
proof -
  have "map_option (\<lambda>(S, ls). (ls, length (wallets (committed S))))
      (schedule late_cutoff [0, 1] open_actions (idle empty_db 0, [])) = Some ([Created 2, Created 1], 2)"
    by code_simp
  then obtain S where S: "schedule late_cutoff [0, 1] open_actions (idle empty_db 0, []) = Some (S, [Created 2, Created 1])"
    "length (wallets (committed S)) = 2"
    by (auto simp: map_option_case split: option.splits prod.splits)
  have "list_all (begins_in (service_bodies ex_extern ex_service)) open_actions"
    by (simp add: open_actions_def ex_users_def in_service_bodies)
  from schedule_history [OF S(1) _ this history_start] S(2) that show ?thesis by (simp add: idle_def)
qed

lemma concurrent_conservation_witness:
  "\<exists>S. sys_reaches late_cutoff (service_bodies ex_extern ex_service) (idle empty_db 0) S \<and> money (committed S) = 200000"
  by (rule open_history) (use concurrent_conservation [OF history_reaches] history_reaches in fastforce)

text \<open>
  C10: no deadlock, and every request gets its answer. From every state that concurrent
  transactions reach, the sessions under way can run to their ends: the bodies take their
  locks in one global order, so one of the sessions can always move.
\<close>

theorem no_deadlock:
  assumes "sys_reaches cu (service_bodies x t) (idle d now) S" "uuid_ok x"
  shows "\<exists>S'. (moves cu)\<^sup>*\<^sup>* S S' \<and> sessions S' = {}"
proof (rule everybody_finishes)
  show "lock_order.safe x S"
    by (rule lock_order.safe_reaches [OF assms(1) service_bodies_ordered [OF assms(2)]]) (simp add: lock_order.safe_idle)
  show "finite (sessions S)" by (rule finite_sessions [OF assms(1)]) simp
qed

lemma no_deadlock_witness:
  "\<exists>S. (\<exists>ls. history late_cutoff (service_bodies ex_extern late_service) (idle late_db 99) ls S \<and> ls \<noteq> []) \<and>
    (\<exists>S'. (moves late_cutoff)\<^sup>*\<^sup>* S S' \<and> sessions S' = {})"
  by (rule late_outcome) (use no_deadlock [OF history_reaches ex_uuid_ok] late_history late_replies_simps(1) in blast)





text \<open>
  C9: holds are honoured whatever the interleaving, as long as every claim that commits does so
  inside the window of its transfer by the clock at its commit. Then at every moment every
  balance covers the holds on it, so the recipient of each transfer that is still claimable
  has the money to pay it back, although each transaction measures windows from its own
  \<open>BEGIN\<close>, and however long the others take.
\<close>

theorem timely_claims_keep_holds:
  assumes "timely_history cu (claimWindow t) (service_bodies x t) (idle d now) ls S"
    and "schema_ok d" "parties_ok d" "solvent (cu now (claimWindow t)) d" "0 \<le> sint (seedPaise t)"
    and "\<And>a b. a \<le> b \<Longrightarrow> cu a (claimWindow t) \<le> cu b (claimWindow t)"
  defines "limit \<equiv> cu (pg_now S) (claimWindow t)"
  shows "solvent limit (committed S) \<and>
    (\<forall>row \<in> set (transfers (committed S)). active_hold limit row \<longrightarrow>
       (\<exists>b. balance_of (RecipientID row) (committed S) = Some b \<and> sint (AmountPaise row) \<le> sint b))"
proof -
  have "covered limit (committed S)"
    unfolding limit_def using assms(1-6) by (intro covered_history) (simp_all add: covered_def)
  moreover have "schema_ok (committed S)"
    using schema_kept [OF history_reaches [OF timely_is_history [OF assms(1)]] assms(2,5)] .
  ultimately show ?thesis using covered_hold unfolding covered_def by blast
qed

definition prompt_actions :: "action list" where
  "prompt_actions = [Begin 0 (Some (late_transfer 11 1 0)) late_claim, Begin 1 None late_spend] @
     replicate 6 (Run 0 14) @ [Wait_Until 100] @ replicate 7 (Run 1 13)"

lemma prompt_history:
  obtains S ls where "timely_history late_cutoff (claimWindow late_service) (service_bodies ex_extern late_service) (idle late_db 99) ls S"
    "balance_of 3 (committed S) = Some 1010" "pg_now S = 100" "length ls = 1"
proof -
  have "map_option (\<lambda>(S, ls). (balance_of 3 (committed S), pg_now S, length ls))
      (schedule late_cutoff [0, 1] prompt_actions (idle late_db 99, [])) = Some (Some 1010, 100, 1)"
    and timely: "timely late_cutoff (claimWindow late_service) [0, 1] prompt_actions (idle late_db 99)"
    by code_simp+
  then obtain S ls where S: "schedule late_cutoff [0, 1] prompt_actions (idle late_db 99, []) = Some (S, ls)"
    "balance_of 3 (committed S) = Some 1010" "pg_now S = 100" "length ls = 1"
    by (auto simp: map_option_case split: option.splits prod.splits)
  have "list_all (begins_in (service_bodies ex_extern late_service)) prompt_actions"
    using late_begins by (simp add: late_actions_def prompt_actions_def list_all_iff)
  from schedule_timely [OF S(1) _ this timely timely_start] S(2-4) that show ?thesis by (simp add: idle_def)
qed

lemma late_solvent: "solvent (late_cutoff 99 (claimWindow late_service)) late_db"
  unfolding solvent_def held_sum_def balance_of_def late_db_def late_transfer_def late_cutoff_def late_service_def
  by (auto simp: active_hold_def split: if_splits)

lemma late_parties_ok: "parties_ok late_db"
  by code_simp

lemma timely_claims_keep_holds_witness:
  "\<exists>S :: reply sys. solvent (late_cutoff 100 (claimWindow late_service)) (committed S) \<and> balance_of 3 (committed S) = Some 1010"
proof (rule prompt_history)
  fix S ls
  assume S: "timely_history late_cutoff (claimWindow late_service) (service_bodies ex_extern late_service) (idle late_db 99) ls S"
    "balance_of 3 (committed S) = Some 1010" "pg_now S = 100"
  have "solvent (late_cutoff (pg_now S) (claimWindow late_service)) (committed S)"
    using timely_claims_keep_holds [OF S(1) late_schema_ok late_parties_ok late_solvent]
    by (simp add: late_cutoff_def late_service_def)
  then show ?thesis using S(2) unfolding S(3) by blast
qed

text \<open>
  C13: a claim that begins inside its window and runs after it breaks the guarantee of another
  sender. \<open>now()\<close> is the time of \<open>BEGIN\<close>; when the recipient spends between the expiry and the
  claim's own statements, the claim still succeeds and takes money that secures the hold of
  a second transfer. The claim of that transfer, well inside its window, then fails on the
  CHECK constraint and can never succeed.
\<close>

theorem late_claim_breaks_hold:
  "\<exists>S. history late_cutoff (service_bodies ex_extern late_service) (idle late_db 99) late_replies S \<and>
     solvent (late_cutoff 99 (claimWindow late_service)) late_db \<and>
     balance_of 3 (committed S) = Some 0 \<and>
     held_sum (late_cutoff (pg_now S) (claimWindow late_service)) 3 (committed S) = 10 \<and>
     (\<exists>s. sess S 2 = Some s \<and> failed_with check_violation (prog s))"
  by (rule late_outcome) (use late_history late_solvent in blast)

end
