(* ===== verification/Process.thy ===== *)
theory Process
  imports App
begin

text \<open>
  \<open>internal/db\<close> and \<open>cmd/server/main.go\<close>: the startup of the process, its two goroutines
  and its exit. golang-migrate, pgxpool, \<open>net/http\<close>'s server and client, and the signals are
  parameters: what they return is an argument or a choice of the environment.
\<close>

section \<open>db.go\<close>

text \<open>The calls of \<open>db.go\<close> into its libraries; \<open>Up\<close> returns nil as \<open>None\<close>.\<close>

record pool_config =
  ConnString :: string
  MaxConns :: int
  MinConns :: int

record db_libs =
  iofs_New :: "goerr option"
  migrate_New :: "string \<Rightarrow> goerr option"
  migrate_Up :: "string \<Rightarrow> goerr option"
  pgx_ParseConfig :: "string \<Rightarrow> goerr + pool_config"
  pgx_NewWithConfig :: "pool_config \<Rightarrow> goerr option"

text \<open>\<open>migrate.ErrNoChange\<close>, by its text\<close>

definition ErrNoChange :: goerr where
  "ErrNoChange = OtherError ''no change''"

text \<open>The loop over the two prefixes, which breaks at the first that matches.\<close>

fun rewrite_scheme :: "string list \<Rightarrow> string \<Rightarrow> string" where
  "rewrite_scheme [] url = url"
| "rewrite_scheme (prefix # prefixes) url =
     (case cut_prefix prefix url of
        Some rest \<Rightarrow> ''pgx5://'' @ rest
      | None \<Rightarrow> rewrite_scheme prefixes url)"

definition migrate_url :: "string \<Rightarrow> string" where
  "migrate_url databaseURL = rewrite_scheme [''postgresql://'', ''postgres://''] databaseURL"

definition Migrate :: "db_libs \<Rightarrow> string \<Rightarrow> goerr option" where
  "Migrate lib databaseURL =
     (case iofs_New lib of
        Some err \<Rightarrow> Some err
      | None \<Rightarrow>
         (let url = migrate_url databaseURL in
          case migrate_New lib url of
            Some err \<Rightarrow> Some err
          | None \<Rightarrow>
             (case migrate_Up lib url of
                None \<Rightarrow> None
              | Some err \<Rightarrow> if errors_Is err ErrNoChange then None else Some err)))"

definition Connect :: "db_libs \<Rightarrow> string \<Rightarrow> goerr + pool_config" where
  "Connect lib databaseURL =
     (case pgx_ParseConfig lib databaseURL of
        Inl err \<Rightarrow> Inl (Wrapped ''parse DATABASE_URL'' err)
      | Inr cfg \<Rightarrow>
         (let cfg = cfg\<lparr>MaxConns := 10\<rparr>; cfg = cfg\<lparr>MinConns := 2\<rparr> in
          case pgx_NewWithConfig lib cfg of
            Some err \<Rightarrow> Inl (Wrapped ''connect database'' err)
          | None \<Rightarrow> Inr cfg))"

section \<open>The startup of run\<close>

datatype run_error = ConfigError fmt_error | ProcessError goerr

record http_server =
  Addr :: string
  ReadHeaderTimeout :: duration
  ReadTimeout :: duration
  WriteTimeout :: duration
  IdleTimeout :: duration

definition server_of :: "config \<Rightarrow> http_server" where
  "server_of cfg =
     \<lparr>Addr = '':'' @ Port cfg, ReadHeaderTimeout = 5000000000, ReadTimeout = 15000000000,
      WriteTimeout = 15000000000, IdleTimeout = 60000000000\<rparr>"

text \<open>From \<open>config.Load\<close> to the server value: the configuration and the pool.\<close>

definition startup ::
  "(int \<Rightarrow> int \<Rightarrow> int \<Rightarrow> int) \<Rightarrow> (string \<Rightarrow> string) \<Rightarrow> db_libs \<Rightarrow> run_error + (config \<times> pool_config)" where
  "startup frac getenv lib =
     (case Load frac getenv of
        Inl err \<Rightarrow> Inl (ConfigError err)
      | Inr cfg \<Rightarrow>
         (case Migrate lib (DatabaseURL cfg) of
            Some err \<Rightarrow> Inl (ProcessError (Wrapped ''migrations'' err))
          | None \<Rightarrow>
             (case Connect lib (DatabaseURL cfg) of
                Inl err \<Rightarrow> Inl (ProcessError err)
              | Inr pool \<Rightarrow> Inr (cfg, pool))))"

text \<open>The line logged once the migrations have run, also when the pool then fails.\<close>

definition startup_log :: "(int \<Rightarrow> int \<Rightarrow> int \<Rightarrow> int) \<Rightarrow> (string \<Rightarrow> string) \<Rightarrow> db_libs \<Rightarrow> log_record list" where
  "startup_log frac getenv lib =
     (case Load frac getenv of
        Inl err \<Rightarrow> []
      | Inr cfg \<Rightarrow> (case Migrate lib (DatabaseURL cfg) of Some err \<Rightarrow> [] | None \<Rightarrow> [log_info ''migrations_applied'' []]))"

section \<open>The two goroutines\<close>

datatype main_pc = Selecting | Cancelled | Waiting | Done "run_error option"
datatype serve_pc = Unborn | Starting | Listening | Sending goerr | Ended

text \<open>\<open>errCh\<close> has capacity 1; \<open>closed\<close> says that \<open>Shutdown\<close> has been called.\<close>

record proc =
  main_at :: main_pc
  serving :: serve_pc
  errCh :: "goerr list"
  signalled :: bool
  closed :: bool
  plog :: "log_record list"

definition ErrServerClosed :: goerr where
  "ErrServerClosed = OtherError ''http: Server closed''"

definition launch ::
  "(int \<Rightarrow> int \<Rightarrow> int \<Rightarrow> int) \<Rightarrow> (string \<Rightarrow> string) \<Rightarrow> db_libs \<Rightarrow> proc" where
  "launch frac getenv lib =
     (let P = \<lparr>main_at = Selecting, serving = Starting, errCh = [], signalled = False, closed = False,
                plog = startup_log frac getenv lib\<rparr> in
      case startup frac getenv lib of
        Inl err \<Rightarrow> P\<lparr>main_at := Done (Some err), serving := Unborn\<rparr>
      | Inr (cfg, pool) \<Rightarrow> P)"

text \<open>
  The steps of the goroutines. \<open>ListenAndServe\<close> returns an error of its listener at any time,
  or \<open>ErrServerClosed\<close> once \<open>Shutdown\<close> has been called; \<open>Shutdown\<close> returns nil or an error of
  the context or the listener, never \<open>ErrServerClosed\<close>; a signal may come at any time.
\<close>

inductive proc_step :: "string \<Rightarrow> proc \<Rightarrow> proc \<Rightarrow> bool" for port :: string where
  announce: "serving P = Starting \<Longrightarrow>
     proc_step port P (P\<lparr>serving := Listening, plog := plog P @ [log_info ''server_started'' [(''port'', AText port)]]\<rparr>)"
| listener_fails: "serving P = Listening \<Longrightarrow> err \<noteq> ErrServerClosed \<Longrightarrow> proc_step port P (P\<lparr>serving := Sending err\<rparr>)"
| listener_closed: "serving P = Listening \<Longrightarrow> closed P \<Longrightarrow> proc_step port P (P\<lparr>serving := Sending ErrServerClosed\<rparr>)"
| send: "serving P = Sending err \<Longrightarrow> length (errCh P) < 1 \<Longrightarrow>
     proc_step port P (P\<lparr>serving := Ended, errCh := errCh P @ [err]\<rparr>)"
| signal: "proc_step port P (P\<lparr>signalled := True\<rparr>)"
| receive: "main_at P = Selecting \<Longrightarrow> errCh P = err # rest \<Longrightarrow>
     proc_step port P (P\<lparr>main_at := Done (Some (ProcessError err)), errCh := rest\<rparr>)"
| cancelled: "main_at P = Selecting \<Longrightarrow> signalled P \<Longrightarrow>
     proc_step port P (P\<lparr>main_at := Cancelled, plog := plog P @ [log_info ''shutting_down'' []]\<rparr>)"
| call_shutdown: "main_at P = Cancelled \<Longrightarrow> proc_step port P (P\<lparr>main_at := Waiting, closed := True\<rparr>)"
| shutdown_ok: "main_at P = Waiting \<Longrightarrow> proc_step port P (P\<lparr>main_at := Done None\<rparr>)"
| shutdown_fails: "main_at P = Waiting \<Longrightarrow> err \<noteq> ErrServerClosed \<Longrightarrow>
     proc_step port P (P\<lparr>main_at := Done (Some (ProcessError err))\<rparr>)"

text \<open>\<open>main\<close>: the exit code, and what it prints after \<open>fatal: \<close>.\<close>

definition exit_of :: "run_error option \<Rightarrow> int \<times> run_error option" where
  "exit_of r = (case r of Some err \<Rightarrow> (1, Some err) | None \<Rightarrow> (0, None))"

section \<open>The health check\<close>

text \<open>\<open>get\<close> is \<open>client.Get\<close> with the timeout of two seconds: an error or a status.\<close>

definition runHealthcheck :: "(string \<Rightarrow> string) \<Rightarrow> (string \<Rightarrow> goerr + nat) \<Rightarrow> int" where
  "runHealthcheck getenv get =
     (let port = getenv ''PORT''; port = (if port = [] then ''8080'' else port) in
      case get (''http://127.0.0.1:'' @ port @ ''/healthz'') of
        Inl err \<Rightarrow> 1
      | Inr status \<Rightarrow> if status \<noteq> 200 then 1 else 0)"

text \<open>
  \<open>main\<close>: with \<open>-healthcheck\<close> the process only probes; otherwise its exit code is that of
  what \<open>run\<close> returned.
\<close>

definition main_of ::
  "bool \<Rightarrow> (string \<Rightarrow> string) \<Rightarrow> (string \<Rightarrow> goerr + nat) \<Rightarrow> run_error option \<Rightarrow> int \<times> run_error option" where
  "main_of healthcheck getenv get r = (if healthcheck then (runHealthcheck getenv get, None) else exit_of r)"

lemma main_of_cases:
  "fst (main_of True getenv get r) = 0 \<longleftrightarrow>
     get (''http://127.0.0.1:'' @ (if getenv ''PORT'' = [] then ''8080'' else getenv ''PORT'') @ ''/healthz'') = Inr 200"
  "fst (main_of False getenv get r) = 0 \<longleftrightarrow> r = None"
  "fst (main_of healthcheck getenv get r) \<in> {0, 1}"
  by (auto simp: main_of_def runHealthcheck_def exit_of_def Let_def split: option.split sum.split)

section \<open>The life of the process\<close>

lemma rewrite_scheme_cases:
  "migrate_url (''postgres://'' @ rest) = ''pgx5://'' @ rest" "migrate_url (''postgresql://'' @ rest) = ''pgx5://'' @ rest"
  "migrate_url (''pgx5://'' @ rest) = ''pgx5://'' @ rest"
  by (simp_all add: migrate_url_def)

lemma startup_ok:
  assumes "startup frac getenv lib = Inr (cfg, pool)"
  shows "Load frac getenv = Inr cfg" "Migrate lib (DatabaseURL cfg) = None" "Connect lib (DatabaseURL cfg) = Inr pool"
    "MaxConns pool = 10" "MinConns pool = 2"
  using assms by (auto simp: startup_def Connect_def Let_def split: sum.splits option.splits)

definition lifecycle :: "proc \<Rightarrow> bool" where
  "lifecycle P \<longleftrightarrow>
     (case serving P of
        Ended \<Rightarrow> length (errCh P) \<le> 1
      | Sending err \<Rightarrow> errCh P = [] \<and> (err = ErrServerClosed \<longrightarrow> closed P)
      | _ \<Rightarrow> errCh P = []) \<and>
     (ErrServerClosed \<in> set (errCh P) \<longrightarrow> closed P) \<and>
     (case main_at P of
        Selecting \<Rightarrow> \<not> closed P \<and> serving P \<noteq> Unborn
      | Cancelled \<Rightarrow> \<not> closed P \<and> signalled P
      | Waiting \<Rightarrow> closed P \<and> signalled P
      | Done None \<Rightarrow> closed P \<and> signalled P
      | Done (Some err) \<Rightarrow> err \<noteq> ProcessError ErrServerClosed)"

lemma lifecycle_step: "proc_step port P P' \<Longrightarrow> lifecycle P \<Longrightarrow> lifecycle P'"
  by (induction rule: proc_step.induct)
    (auto simp: lifecycle_def split: serve_pc.splits main_pc.splits option.splits)

lemma lifecycle_reaches: "(proc_step port)\<^sup>*\<^sup>* P P' \<Longrightarrow> lifecycle P \<Longrightarrow> lifecycle P'"
  by (induction rule: rtranclp_induct) (auto intro: lifecycle_step)

text \<open>A process that has not started to serve never does.\<close>

lemma unborn_reaches:
  assumes "(proc_step port)\<^sup>*\<^sup>* P P'" "serving P = Unborn \<and> main_at P = Done r \<and> errCh P = []"
  shows "serving P' = Unborn \<and> main_at P' = Done r \<and> errCh P' = []"
  using assms
proof (induction rule: rtranclp_induct)
  case (step P1 P2)
  from step(2) step.IH [OF step.prems] show ?case by (induction rule: proc_step.induct) auto
qed simp

text \<open>After a signal \<open>run\<close> can return.\<close>

lemma can_end:
  assumes "signalled P"
  shows "\<exists>P' r. (proc_step port)\<^sup>*\<^sup>* P P' \<and> main_at P' = Done r"
proof -
  have waiting: "\<exists>P' r. (proc_step port)\<^sup>*\<^sup>* P P' \<and> main_at P' = Done r" if "main_at P = Waiting" for P
    using shutdown_ok [OF that, of port] by (intro exI [of _ "P\<lparr>main_at := Done None\<rparr>"]) auto
  have cancel: "\<exists>P' r. (proc_step port)\<^sup>*\<^sup>* P P' \<and> main_at P' = Done r" if "main_at P = Cancelled" for P
    using waiting [of "P\<lparr>main_at := Waiting, closed := True\<rparr>"] call_shutdown [OF that, of port]
    by (auto intro: converse_rtranclp_into_rtranclp)
  show ?thesis
  proof (cases "main_at P")
    case Selecting
    from proc_step.cancelled [OF this assms, of port] show ?thesis
      using cancel [of "P\<lparr>main_at := Cancelled, plog := plog P @ [log_info ''shutting_down'' []]\<rparr>"]
      by (auto intro: converse_rtranclp_into_rtranclp)
  qed (use waiting cancel in blast)+
qed

end
