(* ===== verification/Typing.thy ===== *)
theory Typing
  imports Requests
begin

text \<open>
  The types of the API: every endpoint answers every status with a JSON object of one type,
  the struct of \<open>internal/dto\<close> for that endpoint or the error object. A handler \<open>yields\<close> a
  property of its responses when every response it can return has it.
\<close>

section \<open>Types of JSON objects\<close>

datatype jtype = TString | TInt64 | TTime | TBool | TStrings

fun has_jtype :: "json \<Rightarrow> jtype \<Rightarrow> bool" where
  "has_jtype (JString s) TString = True"
| "has_jtype (JNumber n) TInt64 = (parse_int64 n \<noteq> None)"
| "has_jtype (JTime t) TTime = True"
| "has_jtype (JBool b) TBool = True"
| "has_jtype (JArray vs) TStrings = list_all (\<lambda>v. case v of JString s \<Rightarrow> True | _ \<Rightarrow> False) vs"
| "has_jtype _ _ = False"

text \<open>The members in their order; a member that is not required may be missing (\<open>omitempty\<close>).\<close>

datatype member = Req string jtype | Opt string jtype

fun has_members :: "(string \<times> json) list \<Rightarrow> member list \<Rightarrow> bool" where
  "has_members [] [] = True"
| "has_members ((k, v) # kvs) (Req n T # ms) = (k = n \<and> has_jtype v T \<and> has_members kvs ms)"
| "has_members ((k, v) # kvs) (Opt n T # ms) =
     (if k = n then has_jtype v T \<and> has_members kvs ms else has_members ((k, v) # kvs) ms)"
| "has_members [] (Opt n T # ms) = has_members [] ms"
| "has_members _ _ = False"

definition has_object_type :: "json \<Rightarrow> member list \<Rightarrow> bool" where
  "has_object_type v ms = (case v of JObject kvs \<Rightarrow> has_members kvs ms | _ \<Rightarrow> False)"

definition error_type :: "member list" where
  "error_type = [Req ''success'' TBool, Req ''message'' TString, Req ''error'' TString]"

definition details_type :: "member list" where
  "details_type =
     [Req ''transfer_id'' TString, Req ''sender_id'' TString, Req ''recipient_id'' TString, Req ''amount_paise'' TInt64,
      Req ''status'' TString, Req ''created_at'' TTime, Opt ''reversed_at'' TTime]"

text \<open>The type an endpoint answers a status with; \<open>None\<close>: it never answers that status.\<close>

fun success_type :: "endpoint \<Rightarrow> nat \<Rightarrow> member list option" where
  "success_type Signup_ep s = (if s = 201 then Some [Req ''token'' TString, Req ''user_id'' TString] else None)"
| "success_type Login_ep s = (if s = 200 then Some [Req ''token'' TString, Req ''user_id'' TString] else None)"
| "success_type CreateAccount_ep s =
     (if s \<in> {200, 201} then Some [Req ''user_id'' TString, Req ''balance_paise'' TInt64] else None)"
| "success_type GetMyAccount_ep s =
     (if s = 200 then Some [Req ''balance_paise'' TInt64, Req ''available_paise'' TInt64] else None)"
| "success_type CreateTransfer_ep s =
     (if s \<in> {200, 201} then Some [Req ''transfer_id'' TString, Req ''new_balance'' TInt64] else None)"
| "success_type GetTransfer_ep s = (if s = 200 then Some details_type else None)"
| "success_type ClaimTransfer_ep s =
     (if s = 200 then Some [Req ''transfer_id'' TString, Req ''status'' TString, Req ''new_balance'' TInt64, Req ''reversed_at'' TTime]
      else None)"
| "success_type Index_ep s =
     (if s = 200 then Some [Req ''docs'' TString, Req ''endpoints'' TStrings, Req ''service'' TString] else None)"
| "success_type Healthz_ep s = (if s = 200 then Some [Req ''status'' TString] else None)"
| "success_type Readyz_ep s =
     (if s = 200 then Some [Req ''status'' TString]
      else if s = 503 then Some [Req ''reason'' TString, Req ''status'' TString] else None)"
| "success_type _ s = None"

definition response_type :: "endpoint \<Rightarrow> nat \<Rightarrow> member list option" where
  "response_type ep s =
     (case success_type ep s of
        Some ms \<Rightarrow> Some ms
      | None \<Rightarrow> if s \<in> {400, 401, 404, 409, 422, 503} then Some error_type else None)"

definition conforms :: "endpoint \<Rightarrow> http_response \<Rightarrow> bool" where
  "conforms ep resp \<longleftrightarrow>
     (case RespBody resp of
        BodyJSON v \<Rightarrow> (''Content-Type'', ''application/json'') \<in> set (RespHeaders resp) \<and>
          (case response_type ep (RespStatus resp) of None \<Rightarrow> False | Some ms \<Rightarrow> has_object_type v ms)
      | BodyText s \<Rightarrow> ep \<in> {Metrics_ep, Logs_ep} \<and> RespStatus resp = 200)"

lemma has_jtype_JInt [simp]: "has_jtype (JInt i) TInt64"
  by (simp add: JInt_def parse_int64_fmt_d)

lemma conforms_JSON:
  "response_type ep s = Some ms \<Longrightarrow> has_object_type v ms \<Longrightarrow> conforms ep (writeJSON s v)"
  by (simp add: conforms_def writeJSON_def)

lemma conforms_add_header: "conforms ep resp \<Longrightarrow> conforms ep (add_header k v resp)"
  by (auto simp: conforms_def add_header_def split: body.split option.splits)

text \<open>Statuses with the error object at an endpoint.\<close>

definition error_status :: "endpoint \<Rightarrow> nat \<Rightarrow> bool" where
  "error_status ep s \<longleftrightarrow> s \<in> {400, 401, 404, 409, 422} \<or> s = 503 \<and> ep \<noteq> Readyz_ep"

lemma response_type_error: "error_status ep s \<Longrightarrow> response_type ep s = Some error_type"
  by (cases ep) (auto simp: response_type_def error_status_def)

lemma conforms_writeError: "error_status ep s \<Longrightarrow> conforms ep (writeError s c m)"
  unfolding writeError_def
  by (rule conforms_JSON [OF response_type_error]) (simp_all add: has_object_type_def ErrorResponse_def error_type_def)

section \<open>What handlers yield\<close>

definition yields :: "(http_response \<Rightarrow> bool) \<Rightarrow> http_response option go \<Rightarrow> bool" where
  "yields Q m \<longleftrightarrow> (\<forall>w. case fst (run_state m w) of None \<Rightarrow> True | Some resp \<Rightarrow> Q resp)"

lemma yields_return: "Q resp \<Longrightarrow> yields Q (State_Monad.return (Some resp))"
  by (simp add: yields_def)

lemma yields_panic: "yields Q (State_Monad.return None)"
  by (simp add: yields_def)

lemma yields_bind: "(\<And>a. yields Q (f a)) \<Longrightarrow> yields Q (State_Monad.bind m f)"
  by (simp add: yields_def split_beta)

lemma yields_case_sum: "(\<And>e. r = Inl e \<Longrightarrow> yields Q (f e)) \<Longrightarrow> (\<And>a. r = Inr a \<Longrightarrow> yields Q (g a)) \<Longrightarrow>
   yields Q (case r of Inl e \<Rightarrow> f e | Inr a \<Rightarrow> g a)"
  by (cases r) simp_all

lemma yields_case_option: "(r = None \<Longrightarrow> yields Q f) \<Longrightarrow> (\<And>a. r = Some a \<Longrightarrow> yields Q (g a)) \<Longrightarrow>
   yields Q (case r of None \<Rightarrow> f | Some a \<Rightarrow> g a)"
  by (cases r) simp_all

lemma yields_case_prod: "(\<And>a b. yields Q (f a b)) \<Longrightarrow> yields Q (case p of (a, b) \<Rightarrow> f a b)"
  by (cases p) simp

lemma domain_answer_error:
  assumes "domain_answer err = Some resp"
  shows "\<exists>s c m. resp = writeError s c m \<and> s \<in> {400, 401, 404, 409, 422}"
proof -
  define E where "E = (\<lambda>r. \<exists>s c m. r = writeError s c m \<and> s \<in> {400, 401, 404, 409, 422 :: nat})"
  have E: "s \<in> {400, 401, 404, 409, 422} \<Longrightarrow> E (writeError s c m)" for s c m unfolding E_def by blast
  have "case domain_answer err of None \<Rightarrow> True | Some r \<Rightarrow> E r"
    unfolding domain_answer_def
    by (cases "errors_As_validation err") (simp_all only: option.case if_distrib [of "case_option True E"] E insert_iff simp_thms if_cancel cong: if_cong)
  then show ?thesis using assms by (simp add: E_def)
qed

lemma yields_domain_error:
  assumes "ep \<noteq> Readyz_ep"
  shows "yields (conforms ep) (do { resp \<leftarrow> writeDomainError err; State_Monad.return (Some resp) })"
proof -
  have "conforms ep (fst (run_state (writeDomainError err) w))" for w
  proof (cases "domain_answer err")
    case None
    then show ?thesis using assms by (simp add: writeDomainError_def conforms_writeError error_status_def)
  next
    case (Some resp)
    then show ?thesis
      using domain_answer_error [OF Some] by (auto simp: writeDomainError_def intro!: conforms_writeError simp: error_status_def)
  qed
  then show ?thesis by (simp add: yields_def split_beta)
qed

lemmas yields_intros = yields_case_sum yields_case_option yields_case_prod yields_domain_error yields_return yields_panic yields_bind


section \<open>The handlers\<close>

lemma decodeJSON_Inl_conforms: "decodeJSON st d = Inl resp \<Longrightarrow> conforms ep resp"
  by (auto simp: decodeJSON_def error_status_def intro!: conforms_writeError split: sum.splits)

lemma conforms_auth:
  "conforms Signup_ep (writeJSON 201 (AuthResponse t u))" "conforms Login_ep (writeJSON 200 (AuthResponse t u))"
  by (rule conforms_JSON, simp add: response_type_def, simp add: has_object_type_def AuthResponse_def)+

lemma conforms_wallet:
  "conforms CreateAccount_ep (writeJSON (if c then 201 else 200) (AccountResponse u b))"
  "conforms GetMyAccount_ep (writeJSON 200 (BalanceResponse b a))"
  by (rule conforms_JSON, simp add: response_type_def, simp add: has_object_type_def AccountResponse_def BalanceResponse_def)+

lemma conforms_transfer:
  "s \<in> {200, 201} \<Longrightarrow> conforms CreateTransfer_ep (writeJSON s (TransferResponse i b))"
  "conforms GetTransfer_ep (writeJSON 200 (TransferDetails x tr))"
  "conforms ClaimTransfer_ep (writeJSON 200 (ClaimResponse i st b at))"
  by (rule conforms_JSON, fastforce simp: response_type_def, simp add: has_object_type_def TransferResponse_def TransferDetails_def
      ClaimResponse_def details_type_def split: option.split)+

lemma yields_handlers:
  "yields (conforms Signup_ep) (handle_Signup env x a r)" "yields (conforms Login_ep) (handle_Login env x a r)"
  "yields (conforms CreateAccount_ep) (handle_CreateAccount env x ws r)"
  "yields (conforms GetMyAccount_ep) (handle_GetMyAccount env ws r)"
  "yields (conforms CreateTransfer_ep) (handle_CreateTransfer env x t r)"
  "yields (conforms GetTransfer_ep) (handle_GetTransfer env x r)"
  "yields (conforms ClaimTransfer_ep) (handle_Claim env x t r)"
  unfolding handle_Signup_def handle_Login_def handle_CreateAccount_def handle_GetMyAccount_def
      handle_CreateTransfer_def handle_GetTransfer_def handle_Claim_def Let_def
  by (intro yields_intros; simp add: decodeJSON_Inl_conforms conforms_auth conforms_wallet conforms_transfer
      conforms_add_header conforms_writeError error_status_def)+

lemma yields_health:
  "yields (conforms Index_ep) (handle_Index r)" "yields (conforms Healthz_ep) (handle_Healthz r)"
  "yields (conforms Readyz_ep) (handle_Readyz env r)"
proof -
  show "yields (conforms Index_ep) (handle_Index r)" "yields (conforms Healthz_ep) (handle_Healthz r)"
    unfolding handle_Index_def handle_Healthz_def
    by (rule yields_return, rule conforms_JSON, simp add: response_type_def, simp add: has_object_type_def)+
  have "conforms Readyz_ep (writeJSON 503 (JObject [(''reason'', JString m), (''status'', JString s)]))"
    "conforms Readyz_ep (writeJSON 200 (JObject [(''status'', JString s)]))" for m s
    by (rule conforms_JSON, simp add: response_type_def, simp add: has_object_type_def)+
  then show "yields (conforms Readyz_ep) (handle_Readyz env r)"
    unfolding handle_Readyz_def by (intro yields_bind yields_return) (simp split: sum.split)
qed

lemma yields_text:
  "yields (conforms Metrics_ep) (handle_Metrics henv r)" "yields (conforms Logs_ep) (handle_Logs henv r)"
  by (auto simp: yields_def conforms_def handle_Metrics_def handle_Logs_def split: option.split)

lemma yields_Routes: "yields (conforms ep) (Routes env henv x cfg ep r)"
  by (cases ep) (simp_all add: Routes_def yields_handlers yields_health yields_text)

lemma yields_authFail:
  assumes "ep \<notin> {Metrics_ep, Logs_ep}"
  shows "yields (conforms ep) (do { resp \<leftarrow> authFail reason; State_Monad.return (Some resp) })"
  using conforms_writeError [of ep 401 "''unauthorized''" reason]
  by (simp add: yields_def run_authFail split_beta writeError_def writeJSON_def error_status_def)

lemma yields_WithLogger: "yields Q m \<Longrightarrow> yields Q (WithLogger attrs m)"
  by (simp add: yields_def)

lemma yields_authenticate:
  "ep \<notin> {Metrics_ep, Logs_ep} \<Longrightarrow> (\<And>r. yields (conforms ep) (next r)) \<Longrightarrow> yields (conforms ep) (authenticate verifier next r)"
  unfolding authenticate_def by (auto intro!: yields_intros yields_authFail yields_WithLogger split: option.split)

lemma routes_open: "rt \<in> set routes_table \<Longrightarrow> rtAuthed rt \<Longrightarrow> rtEndpoint rt \<notin> {Metrics_ep, Logs_ep}"
  by (auto simp: routes_table_def)

lemma yields_route_handler:
  "rt \<in> set routes_table \<Longrightarrow> yields (conforms (rtEndpoint rt)) (route_handler env henv x cfg rt r)"
  unfolding route_handler_def using routes_open [of rt] by (auto intro!: yields_authenticate yields_Routes)

lemma find_route_table: "find_route m p = Some (rt, ids) \<Longrightarrow> rt \<in> set routes_table"
  by (auto simp: find_route_def split: option.splits dest: find_SomeD)

end
