(* ===== verification/Process_Properties.thy ===== *)
theory Process_Properties
  imports Process Typing Server_Properties
begin

text \<open>
  Properties of the process around the handler: its life from startup to exit, its health
  check, and the types of what it answers.
\<close>

section \<open>Types\<close>

lemma run_NewHandler_panic:
  assumes "cleanPath (Path r) = Path r" "find_route (Method r) (Path r) = Some (rt, ids)"
    and "fst (run_state (route_handler env henv x cfg rt (routed rt ids r)) w) = None"
  shows "RespStatus (fst (run_state (NewHandler env henv x cfg r) w)) = 500"
  using assms(3)
  by (simp add: NewHandler_def NewRouter_def recovery_def requestID_def metrics_mw_def withTimeout_def Let_def split_beta
      mux_route [OF assms(1,2)] served_of_def text_error_def)

text \<open>
  C23: the API is typed. Whatever the request and the state, the answer of a routed request
  is, unless it is the 500 of a panic, a JSON object of the type that its endpoint has for its
  status: the struct of \<open>internal/dto\<close> on success, the error object on every error status;
  only \<open>/metrics\<close> and \<open>/logs\<close> answer text.
\<close>

theorem responses_typed:
  assumes "incoming r" "cleanPath (Path r) = Path r" "find_route (Method r) (Path r) = Some (rt, ids)"
  shows "let resp = fst (run_state (NewHandler env henv x cfg r) w)
    in RespStatus resp = 500 \<or> conforms (rtEndpoint rt) resp"
proof (cases "fst (run_state (route_handler env henv x cfg rt (routed rt ids r)) w)")
  case None
  then show ?thesis using run_NewHandler_panic [OF assms(2,3)] by simp
next
  case (Some resp)
  then obtain w1 where run: "run_state (route_handler env henv x cfg rt (routed rt ids r)) w = (Some resp, w1)"
    by (metis prod.collapse)
  have "yields (conforms (rtEndpoint rt)) (route_handler env henv x cfg rt (routed rt ids r))"
    by (rule yields_route_handler [OF find_route_table [OF assms(3)]])
  then have "conforms (rtEndpoint rt) resp" using Some by (auto simp: yields_def split: option.splits)
  then show ?thesis using run_NewHandler_route [OF assms run] conforms_add_header by simp
qed

lemma ex_signup_route:
  "find_route (Method ex_signup) (Path ex_signup) =
     Some (\<lparr>rtMethod = ''POST'', rtPath = [Lit ''auth'', Lit ''signup''], rtPattern = ''POST /auth/signup'', rtAuthed = False,
       rtEndpoint = Signup_ep\<rparr>, [])"
  "cleanPath (Path ex_signup) = Path ex_signup" "incoming ex_signup"
  by (simp_all add: ex_signup_def) code_simp

lemma responses_typed_witness:
  "let resp = fst (run_state (NewHandler (ex_env_lost 1) ex_http ex_extern ex_config ex_signup) (ex_world empty_db))
   in RespStatus resp = 500 \<or> conforms Signup_ep resp"
  using responses_typed [OF ex_signup_route(3,2,1), where env = "ex_env_lost 1" and henv = ex_http and x = ex_extern and
      cfg = ex_config and w = "ex_world empty_db"] by simp

section \<open>The life of the process\<close>

text \<open>
  C34: the life of the process. A process whose configuration, migrations or pool fail never
  listens and exits with the first of those errors; otherwise, in every state it can reach,
  the serving goroutine never blocks on its send, though nobody may receive it; a shutdown is
  never reported as an error of the server; the process ends without an error only after a
  signal and a completed \<open>Shutdown\<close>; and after a signal it can always end.
\<close>

theorem process_lifecycle:
  assumes "(proc_step port)\<^sup>*\<^sup>* (launch frac getenv lib) P"
  shows "(case startup frac getenv lib of
      Inl err \<Rightarrow> serving P = Unborn \<and> main_at P = Done (Some err) \<and> exit_of (Some err) = (1, Some err)
    | Inr _ \<Rightarrow>
        (case serving P of Sending err \<Rightarrow> length (errCh P) < 1 | _ \<Rightarrow> True) \<and>
        main_at P \<noteq> Done (Some (ProcessError ErrServerClosed)) \<and>
        (if main_at P = Done None then signalled P \<and> closed P else True) \<and>
        (\<exists>P'. (proc_step port)\<^sup>*\<^sup>* P P' \<and> (if signalled P then \<exists>r. main_at P' = Done r else P' = P)))"
proof (cases "startup frac getenv lib")
  case (Inl err)
  then show ?thesis
    using unborn_reaches [OF assms, of "Some err"] by (simp add: launch_def Let_def exit_of_def)
next
  case (Inr cp)
  have "lifecycle (launch frac getenv lib)"
    by (simp add: launch_def Let_def Inr lifecycle_def split: prod.split)
  then have P: "lifecycle P" by (rule lifecycle_reaches [OF assms])
  have "\<exists>P'. (proc_step port)\<^sup>*\<^sup>* P P' \<and> (if signalled P then \<exists>r. main_at P' = Done r else P' = P)"
    using can_end [of P port] by (cases "signalled P") auto
  moreover have "case serving P of Sending err \<Rightarrow> length (errCh P) < 1 | _ \<Rightarrow> True"
    using P by (auto simp: lifecycle_def split: serve_pc.splits)
  ultimately show ?thesis
    using P by (auto simp: Inr lifecycle_def split: main_pc.splits option.splits)
qed

text \<open>A process that serves, is signalled, and shuts down while its listener returns.\<close>

definition ex_libs :: db_libs where
  "ex_libs = \<lparr>iofs_New = None, migrate_New = (\<lambda>url. None), migrate_Up = (\<lambda>url. Some ErrNoChange),
     pgx_ParseConfig = (\<lambda>url. Inr \<lparr>ConnString = url, MaxConns = 4, MinConns = 0\<rparr>), pgx_NewWithConfig = (\<lambda>c. None)\<rparr>"

lemma ex_startup: "startup frac ex_getenv ex_libs = Inr (ex_config, \<lparr>ConnString = ''postgres://db'', MaxConns = 10, MinConns = 2\<rparr>)"
  by (simp add: startup_def Migrate_def Connect_def ex_libs_def ErrNoChange_def ex_config_def Let_def)

lemma ex_startup_log: "startup_log frac ex_getenv ex_libs = [log_info ''migrations_applied'' []]"
  using startup_ok [OF ex_startup] by (simp add: startup_log_def)

definition ex_stopped :: proc where
  "ex_stopped = \<lparr>main_at = Done None, serving = Sending ErrServerClosed, errCh = [], signalled = True, closed = True,
     plog = [log_info ''migrations_applied'' [], log_info ''server_started'' [(''port'', AText ''8080'')], log_info ''shutting_down'' []]\<rparr>"

lemma ex_run: "(proc_step ''8080'')\<^sup>*\<^sup>* (launch (\<lambda>_ _ _. 0) ex_getenv ex_libs) ex_stopped"
proof -
  let ?P = "launch (\<lambda>_ _ _. 0) ex_getenv ex_libs"
  have "proc_step ''8080'' ?P (?P\<lparr>serving := Listening, plog := plog ?P @ [log_info ''server_started'' [(''port'', AText ''8080'')]]\<rparr>)"
    (is "proc_step _ _ ?A")
    by (rule announce) (simp add: launch_def ex_startup ex_startup_log)
  moreover have "proc_step ''8080'' ?A (?A\<lparr>signalled := True\<rparr>)" (is "proc_step _ _ ?B")
    by (rule signal)
  moreover have "proc_step ''8080'' ?B (?B\<lparr>main_at := Cancelled, plog := plog ?B @ [log_info ''shutting_down'' []]\<rparr>)"
    (is "proc_step _ _ ?C")
    by (rule cancelled) (simp_all add: launch_def ex_startup ex_startup_log)
  moreover have "proc_step ''8080'' ?C (?C\<lparr>main_at := Waiting, closed := True\<rparr>)" (is "proc_step _ _ ?D")
    by (rule call_shutdown) simp
  moreover have "proc_step ''8080'' ?D (?D\<lparr>serving := Sending ErrServerClosed\<rparr>)" (is "proc_step _ _ ?E")
    by (rule listener_closed) simp_all
  moreover have "proc_step ''8080'' ?E (?E\<lparr>main_at := Done None\<rparr>)" (is "proc_step _ _ ?F")
    by (rule shutdown_ok) simp
  moreover have "?F = ex_stopped" by (simp add: launch_def ex_startup ex_startup_log ex_stopped_def)
  ultimately show ?thesis by (simp add: rtranclp.rtrancl_into_rtrancl)
qed

lemma process_lifecycle_witness: "length (errCh ex_stopped) < 1 \<and> signalled ex_stopped \<and> closed ex_stopped"
  using process_lifecycle [OF ex_run] by (simp add: ex_startup) (simp add: ex_stopped_def)

section \<open>The health check\<close>

lemma healthz_route:
  "find_route ''GET'' ''/healthz'' = Some (\<lparr>rtMethod = ''GET'', rtPath = [Lit ''healthz''], rtPattern = ''GET /healthz'',
     rtAuthed = False, rtEndpoint = Healthz_ep\<rparr>, [])" "cleanPath ''/healthz'' = ''/healthz''"
  by code_simp+

text \<open>
  The health check finds a serving process healthy. When the client's request to the
  address that the server listens on is served by the handler, \<open>-healthcheck\<close> with the same
  environment exits 0, whatever the state of the tables and of the connection.
\<close>

theorem healthcheck_finds_server:
  assumes "Load frac getenv = Inr cfg" "incoming r" "Method r = ''GET''" "Path r = ''/healthz''"
    and "get (''http://127.0.0.1'' @ Addr (server_of cfg) @ Path r) = Inr (RespStatus (fst (run_state (NewHandler env henv x cfg r) w)))"
  shows "runHealthcheck getenv get = 0"
proof -
  have "Port cfg = (if getenv ''PORT'' = [] then ''8080'' else getenv ''PORT'')"
    using Load_Port [OF assms(1)] by (simp add: getEnv_def)
  moreover have "RespStatus (fst (run_state (NewHandler env henv x cfg r) w)) = 200"
    using run_NewHandler_route [OF assms(2), of _ _ env henv x cfg w] healthz_route
    by (simp add: assms(3,4) route_handler_def Routes_def handle_Healthz_def)
  ultimately show ?thesis
    using assms(5) by (simp add: runHealthcheck_def Let_def server_of_def assms(4))
qed

lemma healthcheck_finds_server_witness:
  "runHealthcheck ex_getenv (\<lambda>url. if url = ''http://127.0.0.1:8080/healthz''
     then Inr (RespStatus (fst (run_state (NewHandler ex_env ex_http ex_extern ex_config (ex_request ''GET'' ''/healthz'' [] JNull)) (ex_world empty_db))))
     else Inl (OtherError ''refused'')) = 0"
  by (rule healthcheck_finds_server [OF ex_Load, where r = "ex_request ''GET'' ''/healthz'' [] JNull" and w = "ex_world empty_db"])
    (simp_all add: server_of_def, simp add: ex_config_def)

end
