(* ===== verification/Linearizable.thy ===== *)
theory Linearizable
  imports Evolution Transfer_Facts
begin

text \<open>
  Whole calls of \<open>Execute\<close> and \<open>ClaimBack\<close> amid other sessions, which commit what they like
  between the round trips as long as they keep the tables a ledger and only let them evolve
  (\<open>others_keep\<close>). A call takes effect at one point: what the others commit before it, its
  one-step specification, and what they commit after it give the tables it leaves, and the
  result is the specification's. The point is the transaction or, when the call has none or it
  is rolled back, the statement whose answer decided the call.
\<close>

section \<open>What the other sessions commit\<close>

definition others_step :: "pgenv \<Rightarrow> db \<Rightarrow> db \<Rightarrow> bool" where
  "others_step env d d' \<longleftrightarrow> (\<exists>n. d' = pg_others env n d)"

definition others_run :: "pgenv \<Rightarrow> db \<Rightarrow> db \<Rightarrow> bool" where
  "others_run env = (others_step env)\<^sup>*\<^sup>*"

lemma others_run_refl [simp, intro]: "others_run env d d"
  by (simp add: others_run_def)

lemma others_run_trans: "others_run env d d' \<Longrightarrow> others_run env d' d'' \<Longrightarrow> others_run env d d''"
  by (simp add: others_run_def)

lemma others_run_seen [intro]: "others_run env (db w) (seen env w)"
  unfolding others_run_def seen_def by (rule r_into_rtranclp) (auto simp: others_step_def)

lemma others_run_twice [intro]: "others_run env (db w) (seen env (after_read env w))"
  by (rule others_run_trans [OF others_run_seen others_run_seen [of env "after_read env w", unfolded after_read_simps]])

lemma others_run_quiet: "quiet env \<Longrightarrow> others_run env d d' \<longleftrightarrow> d' = d"
proof
  show "d' = d" if "others_run env d d'" "quiet env"
    using that(1) unfolding others_run_def
    by (induction rule: rtranclp_induct) (use that(2) in \<open>auto simp: others_step_def quiet_def\<close>)
qed simp

section \<open>Rows that stay\<close>

lemma evolves_user_named:
  assumes "db_evolves d d'" "schema_ok d'" "user_named name d = Some u"
  shows "user_named name d' = Some u"
proof -
  have "u \<in> set (users d')" "Username u = name"
    using assms(1,3) by (auto simp: db_evolves_def user_named_def dest: find_SomeD)
  then show ?thesis
    using find_key_Some_iff [of Username "users d'" name u] assms(2)
    by (simp add: user_named_def schema_ok_def users_ok_def)
qed

lemma evolves_not_early:
  assumes "db_evolves d d'" "schema_ok d'" "\<not> ends_early s name amount key d"
  shows "\<not> ends_early s name amount key d'"
  using assms(3) evolves_user_named [OF assms(1,2)] by (fastforce simp: ends_early_def)

lemma evolves_key:
  assumes "db_evolves d d'" "schema_ok d" "schema_ok d'" "transfer_with_key s k d = Some t"
  obtains t' where "transfer_with_key s k d' = Some t'" "same_columns t t'"
proof -
  have t: "t \<in> set (transfers d)" "SenderID t = s" "IdempotencyKey t = k"
    using assms(2,4) by (simp_all add: transfer_with_key_Some schema_ok_def)
  then obtain t' where "t' \<in> set (transfers d')" "same_columns t t'" using assms(1) by (auto simp: db_evolves_def)
  then show ?thesis using that t(2,3) assms(3) by (simp add: transfer_with_key_Some schema_ok_def same_columns_def)
qed

lemma evolves_id:
  assumes "db_evolves d d'" "schema_ok d" "schema_ok d'" "transfer_with_id i d = Some t"
  obtains t' where "transfer_with_id i d' = Some t'" "same_columns t t'" "Status t = TransferReversed \<Longrightarrow> t' = t"
proof -
  have t: "t \<in> set (transfers d)" "trID t = i"
    using assms(2,4) by (simp_all add: transfer_with_id_Some schema_ok_def)
  then obtain t' where "t' \<in> set (transfers d')" "same_columns t t'" "Status t = TransferReversed \<longrightarrow> t' = t"
    using assms(1) by (auto simp: db_evolves_def)
  then show ?thesis
    by (intro that [of t']) (use t(2) assms(3) in \<open>simp_all add: transfer_with_id_Some schema_ok_def same_columns_def\<close>)
qed

lemma replay_of_columns: "same_columns t t' \<Longrightarrow> replay_of t' = replay_of t \<and> BodyHash t' = BodyHash t"
  by (simp add: replay_of_def same_columns_def)

lemma claim_spec_columns: "same_columns t t' \<Longrightarrow> claim_spec now c t d = claim_spec now c t' d"
proof -
  assume "same_columns t t'"
  then have "trID t = trID t'" "SenderID t = SenderID t'" "RecipientID t = RecipientID t'" "AmountPaise t = AmountPaise t'"
    by (simp_all add: same_columns_def)
  then show ?thesis unfolding claim_spec_def by (simp only:)
qed

lemma db_evolves_has_user: "db_evolves d d' \<Longrightarrow> has_user u d \<Longrightarrow> has_user u d'"
  by (auto simp: db_evolves_def has_user_def)

section \<open>The end of a call\<close>

lemma run_resolveExistingKey_seen:
  assumes "fault_free env" "transfer_with_key s key (seen env w) = Some old"
  shows "fst (run_state (resolveExistingKey env s key h) w) =
      (if BodyHash old \<noteq> h then Inl ErrIdempotencyConflict else Inr (replay_of old))"
    and "db (snd (run_state (resolveExistingKey env s key h) w)) = seen env w"
  using assms by (simp_all add: resolveExistingKey_def run_simps replay_of_def)

lemma resolveExistingKey_amid:
  shows "db (snd (run_state (resolveExistingKey env s key h) w)) = seen env w"
    and "fst (run_state (resolveExistingKey env s key h) w) = Inr res \<Longrightarrow>
      \<exists>old. transfer_with_key s key (seen env w) = Some old \<and> BodyHash old = h \<and> res = replay_of old"
  by (auto simp: resolveExistingKey_def run_simps run_state_if replay_of_def split: sum.splits if_splits
      dest: lookup_result_InrD)

text \<open>What a call of \<open>Execute\<close> returns after its transaction, for any result of it.\<close>

lemma execute_finish_amid:
  assumes "run_state (execute_finish env s r amount key h res) w = (out, w')"
  shows "others_run env (db w) (db w')"
    and "res = Inr a \<Longrightarrow> out = Inr a"
    and "lost_reply res \<Longrightarrow> out = res"
    and "res = Inl e \<Longrightarrow> out = Inr result \<Longrightarrow> db w' = seen env w \<and>
      (\<exists>old. transfer_with_key s key (db w') = Some old \<and> BodyHash old = h \<and> result = replay_of old)"
  using assms resolveExistingKey_amid(1) [of env s key h w] resolveExistingKey_amid(2) [of env s key h w result]
  by (auto simp: execute_finish_def lost_reply_def split: sum.splits if_splits)

lemma execute_finish_fine:
  assumes env: "fault_free env" and d: "schema_ok d" "db w = d" "schema_ok (seen env w)" "db_evolves d (seen env w)"
    and spec: "transfer_spec now cutoff seed ids fresh s r amount key h d = Inl err"
  shows "fst (run_state (execute_finish env s r amount key h (Inl err)) w) = fst (execute_settle s key h d (Inl err))"
    and "others_run env d (db (snd (run_state (execute_finish env s r amount key h (Inl err)) w)))"
proof -
  show "others_run env d (db (snd (run_state (execute_finish env s r amount key h (Inl err)) w)))"
    using execute_finish_amid(1) [of env s r amount key h "Inl err" w] d(2) by (metis prod.collapse)
  show "fst (run_state (execute_finish env s r amount key h (Inl err)) w) = fst (execute_settle s key h d (Inl err))"
  proof (cases "err = ErrKeyExists")
    case True
    with spec obtain old where old: "transfer_with_key s key d = Some old"
      using transfer_with_key_None [of s key d] transfer_spec_key_exists
      by (cases "transfer_with_key s key d") auto
    obtain old' where old': "transfer_with_key s key (seen env w) = Some old'" "same_columns old old'"
      by (rule evolves_key [OF d(4,1,3) old])
    then show ?thesis
      using run_resolveExistingKey_seen [OF env old'(1), of h] replay_of_columns [OF old'(2)] True old
      by (simp add: execute_finish_def execute_settle_def)
  next
    case False
    with transfer_spec_error [OF spec] have "\<not> errors_Is err ErrKeyExists"
      by (auto simp: unique_violation_def check_violation_def)
    then show ?thesis using False by (simp add: execute_finish_def execute_settle_def)
  qed
qed

section \<open>Execute\<close>

context ledger_invariant
begin

text \<open>The tables of the first two round trips of a call.\<close>

lemma two_trips:
  assumes env: "clock_mono env" "others_keep Inv env win" and w: "ledger_at Inv env win w"
  defines "c \<equiv> cutoff_at env (tx_time env w) win"
  shows "ledger_db Inv c (db w)" "ledger_db Inv c (seen env w)" "ledger_db Inv c (seen env (after_read env w))"
    "db_evolves (db w) (seen env w)" "db_evolves (seen env w) (seen env (after_read env w))"
    "db_evolves (db w) (seen env (after_read env w))"
proof -
  have c: "c = cut_at env win (Suc (tick w))" by (simp add: c_def cut_at_def tx_time_def)
  note first = seen_ledger [OF env(2) w]
  note second = seen_ledger [OF env(2) keeps_after_read [OF env w]]
  show "ledger_db Inv c (db w)" "ledger_db Inv c (seen env w)" "ledger_db Inv c (seen env (after_read env w))"
    using first second w ledger_db_later cut_at_mono [OF env(1), of "tick w" "Suc (tick w)"]
    by (auto simp: c ledger_at_def)
  show "db_evolves (db w) (seen env w)" "db_evolves (seen env w) (seen env (after_read env w))"
    using first second by simp_all
  then show "db_evolves (db w) (seen env (after_read env w))" by (rule db_evolves_trans)
qed

text \<open>After a transaction that was rolled back, what the next round trip sees.\<close>

lemma after_rollback:
  assumes env: "clock_mono env" "others_keep Inv env win" and w: "ledger_at Inv env win w"
    and tx: "run_state (WithTx env fn) (after_read env w) = (res, w2)" and undone: "db w2 = seen env (after_read env w)"
  shows "schema_ok (seen env w2)" "parties_ok (seen env w2)" "db_evolves (seen env (after_read env w)) (seen env w2)"
proof -
  have "Suc (tick w) \<le> tick w2" using tick_WithTx [of "after_read env w" env fn] unfolding tx by simp
  then have "ledger_at Inv env win w2"
    using ledger_at_later [OF env(1), of win "Suc (tick w)" w2] two_trips(3) [OF env w] undone
    by (simp add: cut_at_def tx_time_def)
  from seen_ledger [OF env(2) this]
  show "schema_ok (seen env w2)" "parties_ok (seen env w2)" "db_evolves (seen env (after_read env w)) (seen env w2)"
    by (simp_all add: ledger_db_def undone [symmetric])
qed

text \<open>A transaction of \<open>Execute\<close> that committed, with or without its reply.\<close>

lemma execute_tx_amid:
  assumes env: "clock_mono env" "others_keep Inv env win" and w: "ledger_at Inv env win w" and win: "claimWindow t = win"
    and early: "\<not> ends_early s name amount key (seen env w)"
    and rcpt: "user_named name (seen env w) = Some rcpt" "uID rcpt \<noteq> s"
    and body: "exec_tx env (pg_clock env (tick (after_read env w)))
      (execute_body x t s (uID rcpt) amount key (hashBody name amount)) (after_read env (after_read env w)) = (Inr a, w3)"
  defines "d \<equiv> seen env (after_read env w)" and "now \<equiv> tx_time env w"
  obtains n where "others_run env (db w) d" "ledger_db Inv (cutoff_at env now win) d" "user_named name d = Some rcpt"
    "transfer_spec now (cutoff_at env now win) (seedPaise t) (sort_ids x [s, uID rcpt]) (pg_uuid env n) s (uID rcpt)
       amount key (hashBody name amount) d = Inr (a, db w3)"
    "\<not> ends_early s name amount key d" "has_user s d"
proof -
  note trips = two_trips [OF env w, folded d_def now_def]
  have now: "pg_clock env (tick (after_read env w)) = now" by (simp add: now_def tx_time_def)
  have ok: "schema_ok (db (after_read env (after_read env w)))" "schema_ok d"
    using trips(3) by (simp_all add: ledger_db_def d_def)
  from execute_body_ok [OF body [unfolded now] ok(1) rcpt(2) [symmetric]] obtain n where
    "transfer_spec now (cutoff_at env now (claimWindow t)) (seedPaise t) (sort_ids x [s, uID rcpt])
       (pg_uuid env n) s (uID rcpt) amount key (hashBody name amount) d = Inr (a, db w3)" "has_user s d"
    by (auto simp: d_def)
  then show ?thesis
    using that [of n] trips(3) evolves_user_named [OF trips(5) ok(2) rcpt(1)] evolves_not_early [OF trips(5) ok(2) early] win
      others_run_twice by (simp add: d_def)
qed

lemma Execute_amid:
  assumes run: "run_state (Execute env x t s name amount key) w = (r, w')"
    and env: "clock_mono env" "others_keep Inv env win" and w: "ledger_at Inv env win w" and win: "claimWindow t = win"
  defines "now \<equiv> tx_time env w"
  obtains (unchanged) "others_run env (db w) (db w')"
      "\<And>res. r = Inr res \<Longrightarrow> \<not> ends_early s name amount key (db w') \<and>
         (\<exists>old. transfer_with_key s key (db w') = Some old \<and> BodyHash old = hashBody name amount \<and> res = replay_of old)"
    | (applied) rcpt n res d where "others_run env (db w) d" "ledger_db Inv (cutoff_at env now win) d"
        "user_named name d = Some rcpt" "uID rcpt \<noteq> s"
        "transfer_spec now (cutoff_at env now win) (seedPaise t) (sort_ids x [s, uID rcpt])
           (pg_uuid env n) s (uID rcpt) amount key (hashBody name amount) d = Inr (res, db w')"
        "r = Inr res \<or> lost_reply r" "\<not> ends_early s name amount key d" "has_user s d"
proof (cases "ends_early s name amount key (seen env w) \<or> pg_link env (tick w) \<noteq> Fine")
  case True
  then have "(db w' = db w \<or> db w' = seen env w) \<and> (\<forall>res. r \<noteq> Inr res)"
    using run
    by (auto simp: ends_early_def Execute_def int64_sle_iff run_simps lookup_result_def
        split: if_splits outcome.splits sum.splits option.splits)
  then show ?thesis using unchanged others_run_seen [of env w] by auto
next
  case False
  let ?h = "hashBody name amount" and ?w1 = "after_read env w"
  have early: "\<not> ends_early s name amount key (seen env w)" using False by simp
  then obtain rcpt where rcpt: "user_named name (seen env w) = Some rcpt" "uID rcpt \<noteq> s"
    by (auto simp: ends_early_def)
  obtain res w2 where tx: "run_state (WithTx env (execute_body x t s (uID rcpt) amount key ?h)) ?w1 = (res, w2)"
    by force
  have fin: "run_state (execute_finish env s (uID rcpt) amount key ?h res) w2 = (r, w')"
    using run False rcpt tx by (simp add: Execute_def ends_early_def int64_sle_iff run_simps Let_def)
  note amid = execute_finish_amid [OF fin]
  note trips = two_trips [OF env w]
  have applied_case: ?thesis
    if body: "exec_tx env (pg_clock env (tick ?w1)) (execute_body x t s (uID rcpt) amount key ?h) (after_read env ?w1) = (Inr a, w3)"
      and d': "db w2 = db w3" and res: "res = Inr a \<or> lost_reply res" for a w3
  proof -
    have "db w' = db w3" using res fin d' by (auto simp: execute_finish_def lost_reply_def)
    moreover have "r = Inr a \<or> lost_reply r" using res amid(2) [of a] amid(3) by auto
    ultimately show ?thesis
      using execute_tx_amid [OF env w win early rcpt body] applied [of _ rcpt _ a] rcpt(2) unfolding now_def by metis
  qed
  from tx show ?thesis
  proof (cases rule: run_WithTx_cases)
    case (rolled_back err)
    have "others_run env (db w) (db w')"
      using others_run_trans [OF others_run_twice [of env w] amid(1) [unfolded rolled_back(2)]] .
    moreover have "\<not> ends_early s name amount key (db w')" if "r = Inr a" for a
    proof -
      have "schema_ok (seen env w2)" "db_evolves (seen env ?w1) (seen env w2)"
        using after_rollback [OF env w tx rolled_back(2)] by simp_all
      then show ?thesis
        using evolves_not_early [OF db_evolves_trans [OF trips(5)] _ early] amid(4) [OF rolled_back(1) that] by simp
    qed
    ultimately show ?thesis using unchanged amid(4) [OF rolled_back(1)] by blast
  next
    case (committed a w3)
    then show ?thesis using applied_case by blast
  next
    case (commit_reply_lost a w3 m)
    then show ?thesis using applied_case [of a w3] by (auto simp: lost_reply_def)
  qed
qed

text \<open>On a connection that loses nothing every branch is that of the specification.\<close>

lemma Execute_linear_late:
  assumes fine: "fault_free env"
    and env: "clock_mono env" "others_keep Inv env win" and w: "ledger_at Inv env win w" and win: "claimWindow t = win"
    and usr: "has_user s (db w)" and seed: "0 \<le> sint (seedPaise t)"
    and late: "\<not> ends_early s name amount key (seen env w)"
  defines "now \<equiv> tx_time env w" and "d \<equiv> seen env (after_read env w)"
  obtains n d' where
    "execute_abs x (seedPaise t) now (cutoff_at env now win) (pg_uuid env n) s name amount key d =
       (fst (run_state (Execute env x t s name amount key) w), d')"
    "others_run env d' (db (snd (run_state (Execute env x t s name amount key) w)))"
proof -
  note trips = two_trips [OF env w, folded now_def d_def]
  let ?h = "hashBody name amount" and ?w1 = "after_read env w" and ?run = "run_state (Execute env x t s name amount key) w"
  obtain r where r0: "user_named name (seen env w) = Some r" "uID r \<noteq> s"
    using late by (auto simp: ends_early_def)
  have ok: "schema_ok d" using trips(3) by (simp add: ledger_db_def)
  have r: "user_named name d = Some r" by (rule evolves_user_named [OF trips(5) ok r0(1)])
  have amt: "0 < sint amount" using late by (simp add: ends_early_def)
  have pre: "s \<noteq> uID r" "has_user s d" "has_user (uID r) d"
    using r0(2) db_evolves_has_user [OF trips(6) usr] user_named_has_user [OF r] by auto
  have now: "pg_clock env (tick ?w1) = now" by (simp add: tx_time_def now_def)
  obtain n w' where tx: "run_state (WithTx env (execute_body x t s (uID r) amount key ?h)) ?w1 =
    (case transfer_spec now (cutoff_at env now (claimWindow t)) (seedPaise t) (sort_ids x [s, uID r])
       (pg_uuid env n) s (uID r) amount key ?h d of
      Inl err \<Rightarrow> (Inl err, w'\<lparr>db := d\<rparr>) | Inr (res, d') \<Rightarrow> (Inr res, w'\<lparr>db := d'\<rparr>))"
    using fine_execute_tx [OF fine, of ?w1, folded d_def, OF ok pre amt seed, of x key ?h, unfolded now] by blast
  have run: "?run = (case run_state (WithTx env (execute_body x t s (uID r) amount key ?h)) ?w1 of
     (res, w1) \<Rightarrow> run_state (execute_finish env s (uID r) amount key ?h res) w1)"
    using late r0 fine by (auto simp: Execute_def ends_early_def int64_sle_iff run_simps Let_def)
  let ?spec = "transfer_spec now (cutoff_at env now win) (seedPaise t) (sort_ids x [s, uID r])
       (pg_uuid env n) s (uID r) amount key ?h d"
  have abs: "execute_abs x (seedPaise t) now (cutoff_at env now win) (pg_uuid env n) s name amount key d = execute_settle s key ?h d ?spec"
    by (rule execute_abs_late [OF evolves_not_early [OF trips(5) ok late] r])
  show ?thesis
  proof (cases ?spec)
    case (Inr rd)
    then obtain res d' where spec: "?spec = Inr (res, d')" by (cases rd) auto
    then have "fst ?run = Inr res" "db (snd ?run) = d'"
      unfolding run tx win by (simp_all add: execute_finish_def)
    then show ?thesis using that [of n d'] abs spec by (simp add: execute_settle_def)
  next
    case (Inl err)
    let ?w2 = "w'\<lparr>db := d\<rparr>"
    have tx2: "run_state (WithTx env (execute_body x t s (uID r) amount key ?h)) ?w1 = (Inl err, ?w2)"
      unfolding tx win Inl by simp
    have "db ?w2 = d" by simp
    note later = after_rollback [OF env w tx2, folded d_def, OF this]
    note fin = execute_finish_fine [OF fine ok \<open>db ?w2 = d\<close> later(1,3) Inl]
    have "snd (execute_settle s key ?h d ?spec) = d"
      using Inl by (simp add: execute_settle_def split: option.split)
    then have "execute_settle s key ?h d ?spec = (fst ?run, d)"
      unfolding run tx2 prod.case fin(1) by (simp add: Inl prod_eq_iff)
    moreover have "others_run env d (db (snd ?run))" unfolding run tx2 prod.case by (rule fin(2))
    ultimately show ?thesis by (intro that [of n d]) (simp_all only: abs)
  qed
qed

lemma Execute_linear:
  assumes fine: "fault_free env"
    and env: "clock_mono env" "others_keep Inv env win" and w: "ledger_at Inv env win w" and win: "claimWindow t = win"
    and usr: "has_user s (db w)" and seed: "0 \<le> sint (seedPaise t)"
  defines "now \<equiv> tx_time env w"
  obtains n d d' where "others_run env (db w) d" "ledger_db Inv (cutoff_at env now win) d" "db_evolves (db w) d"
    "execute_abs x (seedPaise t) now (cutoff_at env now win) (pg_uuid env n) s name amount key d =
       (fst (run_state (Execute env x t s name amount key) w), d')"
    "others_run env d' (db (snd (run_state (Execute env x t s name amount key) w)))"
proof -
  note trips = two_trips [OF env w, folded now_def]
  let ?run = "run_state (Execute env x t s name amount key) w"
  consider (invalid) "sint amount \<le> 0 \<or> key = [] \<or> length key > 128"
    | (early) "\<not> (sint amount \<le> 0 \<or> key = [] \<or> length key > 128)" "ends_early s name amount key (seen env w)"
    | (late) "\<not> ends_early s name amount key (seen env w)"
    by blast
  then show ?thesis
  proof cases
    case invalid
    then have "execute_abs x (seedPaise t) now (cutoff_at env now win) fresh s name amount key (db w) = (fst ?run, db w) \<and>
        db (snd ?run) = db w" for fresh
      by (cases "0 < sint amount") (simp_all add: Execute_def execute_abs_def int64_sle_iff)
    then show ?thesis using that [of "db w" 0 "db w"] trips(1) by simp
  next
    case early
    then have "execute_abs x (seedPaise t) now (cutoff_at env now win) fresh s name amount key (seen env w) = (fst ?run, seen env w) \<and>
        db (snd ?run) = seen env w" for fresh
      using fine by (auto simp: Execute_def execute_abs_def ends_early_def int64_sle_iff run_simps)
    then show ?thesis using that [of "seen env w" 0 "seen env w"] trips(2,4) by auto
  next
    case late
    from Execute_linear_late [OF fine env w win usr seed late, of x, folded now_def] show ?thesis
      using that [of "seen env (after_read env w)"] trips(3,6) others_run_twice by metis
  qed
qed

section \<open>ClaimBack\<close>

text \<open>
  A claim whose update matched no row looks at the transfer again; another claim may have
  reversed it in between, and then that look decides the call.
\<close>

lemma unapplied_linear:
  assumes fine: "fault_free env" and d: "schema_ok (db w)" "schema_ok (seen env w)" "db_evolves (db w) (seen env w)"
    and row: "transfer_with_id i (db w) = Some row" "SenderID row = caller"
    and spec: "claim_spec now c row (db w) = Inl ErrClaimNotApplied"
  defines "run \<equiv> run_state (resolveUnappliedClaim env i) w"
  obtains d where "d = db w \<or> d = seen env w \<and> (\<exists>row. transfer_with_id i d = Some row \<and> Status row = TransferReversed)"
    "claim_abs now c caller i d = (fst run, d)" "db (snd run) = seen env w"
proof -
  obtain row2 where row2: "transfer_with_id i (seen env w) = Some row2" "same_columns row row2"
    "Status row = TransferReversed \<Longrightarrow> row2 = row"
    using evolves_id [OF d(3,1,2) row(1)] by blast
  have db2: "db (snd run) = seen env w"
    unfolding run_def using fine row2(1) by (simp add: resolveUnappliedClaim_def run_simps)
  show ?thesis
  proof (cases "Status row2 = TransferReversed")
    case True
    then have "fst run = map_option Inr (claim_replay_of row2)"
      unfolding run_def using fine row2(1) by (simp add: resolveUnappliedClaim_def run_simps)
    then show ?thesis
      using that [of "seen env w"] True row2(1,2) row(2) db2 by (simp add: claim_abs_def same_columns_def)
  next
    case False
    then have "fst run = Some (Inl ErrClaimWindowExpired)"
      unfolding run_def using fine row2(1) by (simp add: resolveUnappliedClaim_def run_simps)
    moreover have "Status row \<noteq> TransferReversed" using False row2(3) by auto
    ultimately show ?thesis
      using that [of "db w"] row spec db2 by (simp add: claim_abs_def claim_settle_def)
  qed
qed

text \<open>The runs of a claim that gets to its transaction, on a connection that loses nothing.\<close>

lemma claim_tx_linear:
  fixes x :: extern
  assumes fine: "fault_free env"
    and env: "clock_mono env" "others_keep Inv env win" and w: "ledger_at Inv env win w" and win: "claimWindow t = win"
    and tr: "transfer_with_id i (seen env w) = Some tr" "SenderID tr = caller" "Status tr \<noteq> TransferReversed"
  defines "now \<equiv> tx_time env w" and "d \<equiv> seen env (after_read env w)" and "run \<equiv> run_state (ClaimBack env x t caller i) w"
  obtains row where "transfer_with_id i d = Some row" "SenderID row = caller" "has_wallet (SenderID row) d" "has_wallet (RecipientID row) d"
    "case claim_spec now (cutoff_at env now win) row d of
       Inr (res, d') \<Rightarrow> fst run = Some (Inr res) \<and> db (snd run) = d'
     | Inl err \<Rightarrow> if err = ErrClaimNotApplied
         then \<exists>w2. db w2 = d \<and> run = run_state (resolveUnappliedClaim env i) w2 \<and>
           schema_ok (seen env w2) \<and> parties_ok (seen env w2) \<and> db_evolves d (seen env w2)
         else fst run = Some (Inl err) \<and> db (snd run) = d"
proof -
  note trips = two_trips [OF env w, folded now_def d_def]
  have ok0: "schema_ok (seen env w)" and ok: "schema_ok d" and pok: "parties_ok d"
    using trips by (simp_all add: ledger_db_def)
  obtain row where row: "transfer_with_id i d = Some row" "same_columns tr row"
    using evolves_id [OF trips(5) ok0 ok tr(1)] by blast
  have row_in: "row \<in> set (transfers d)" "trID row = i"
    using row(1) ok by (simp_all add: transfer_with_id_Some schema_ok_def)
  have id: "trID tr = i" using row_in(2) row(2) by (simp add: same_columns_def)
  have wal: "has_wallet (SenderID row) d" "has_wallet (RecipientID row) d" and amt: "0 < sint (AmountPaise row)"
    using row_in(1) pok ok by (auto simp: parties_ok_def transfer_ok_def schema_ok_def transfers_ok_def)
  have pre: "has_wallet (SenderID tr) d" "has_wallet (RecipientID tr) d" "0 < sint (AmountPaise tr)"
    using wal amt row(2) by (simp_all add: same_columns_def)
  have now: "pg_clock env (tick (after_read env w)) = now" by (simp add: tx_time_def now_def)
  let ?spec = "claim_spec now (cutoff_at env now win) tr d"
  obtain w' where tx: "run_state (WithTx env (claim_body x t tr)) (after_read env w) =
      (map_sum id fst ?spec, case ?spec of Inl err \<Rightarrow> w'\<lparr>db := d\<rparr> | Inr (res, d') \<Rightarrow> w'\<lparr>db := d'\<rparr>)"
    using fine_claim_tx [OF fine, of "after_read env w", folded d_def, OF ok pre, of x t, unfolded now win] by blast
  have run: "run = (case run_state (WithTx env (claim_body x t tr)) (after_read env w) of
      (res, w1) \<Rightarrow> run_state (claim_finish env tr res) w1)"
    unfolding run_def using tr fine by (simp add: ClaimBack_def run_simps split_beta)
  have "case ?spec of Inr (res, d') \<Rightarrow> fst run = Some (Inr res) \<and> db (snd run) = d'
     | Inl err \<Rightarrow> if err = ErrClaimNotApplied
         then \<exists>w2. db w2 = d \<and> run = run_state (resolveUnappliedClaim env i) w2 \<and>
           schema_ok (seen env w2) \<and> parties_ok (seen env w2) \<and> db_evolves d (seen env w2)
         else fst run = Some (Inl err) \<and> db (snd run) = d"
  proof (cases ?spec)
    case (Inr rd)
    then show ?thesis unfolding run tx by (cases rd) (simp add: claim_finish_def)
  next
    case (Inl err)
    have tx2: "run_state (WithTx env (claim_body x t tr)) (after_read env w) = (Inl err, w'\<lparr>db := d\<rparr>)"
      unfolding tx Inl by simp
    have "db (w'\<lparr>db := d\<rparr>) = d" by simp
    note later = after_rollback [OF env w tx2, folded d_def, OF this]
    have "err = ErrClaimNotApplied \<longleftrightarrow> errors_Is err ErrClaimNotApplied"
      using claim_spec_error [OF Inl] by (auto simp: check_violation_def)
    then show ?thesis
      unfolding run tx2 using later id Inl by (auto simp: claim_finish_def intro!: exI [of _ "w'\<lparr>db := d\<rparr>"])
  qed
  then show ?thesis
    using that [of row] row(1) wal tr(2) row(2) claim_spec_columns [OF row(2), of now "cutoff_at env now win" d]
    by (simp add: same_columns_def)
qed

lemma ClaimBack_linear:
  assumes fine: "fault_free env"
    and env: "clock_mono env" "others_keep Inv env win" and w: "ledger_at Inv env win w" and win: "claimWindow t = win"
  defines "now \<equiv> tx_time env w"
  obtains d d' where "others_run env (db w) d" "db_evolves (db w) d" "schema_ok d" "parties_ok d"
    "Inv (cutoff_at env now win) d \<or> (\<exists>row. transfer_with_id i d = Some row \<and> Status row = TransferReversed)"
    "claim_abs now (cutoff_at env now win) caller i d = (fst (run_state (ClaimBack env x t caller i) w), d')"
    "others_run env d' (db (snd (run_state (ClaimBack env x t caller i) w)))"
proof (cases "\<exists>tr. transfer_with_id i (seen env w) = Some tr \<and> SenderID tr = caller \<and> Status tr \<noteq> TransferReversed")
  case False
  note trips = two_trips [OF env w, folded now_def]
  from False have "claim_abs now (cutoff_at env now win) caller i (seen env w) =
      (fst (run_state (ClaimBack env x t caller i) w), seen env w) \<and> db (snd (run_state (ClaimBack env x t caller i) w)) = seen env w"
    using fine by (cases "transfer_with_id i (seen env w)") (auto simp: ClaimBack_def claim_abs_def run_simps)
  then show ?thesis
    using that [of "seen env w" "seen env w"] trips(2,4) by (auto simp: ledger_db_def)
next
  case True
  then obtain tr where "transfer_with_id i (seen env w) = Some tr" "SenderID tr = caller" "Status tr \<noteq> TransferReversed"
    by blast
  note tx = claim_tx_linear [OF fine env w win this, of x, folded now_def]
  note trips = two_trips [OF env w, folded now_def]
  let ?d = "seen env (after_read env w)" and ?run = "run_state (ClaimBack env x t caller i) w" and ?c = "cutoff_at env now win"
  have here: "schema_ok ?d" "parties_ok ?d" "Inv ?c ?d" using trips(3) by (simp_all add: ledger_db_def)
  obtain row where row: "transfer_with_id i ?d = Some row" "SenderID row = caller"
      "has_wallet (SenderID row) ?d" "has_wallet (RecipientID row) ?d"
    and run: "case claim_spec now ?c row ?d of
       Inr (res, d') \<Rightarrow> fst ?run = Some (Inr res) \<and> db (snd ?run) = d'
     | Inl err \<Rightarrow> if err = ErrClaimNotApplied
         then \<exists>w2. db w2 = ?d \<and> ?run = run_state (resolveUnappliedClaim env i) w2 \<and>
           schema_ok (seen env w2) \<and> parties_ok (seen env w2) \<and> db_evolves ?d (seen env w2)
         else fst ?run = Some (Inl err) \<and> db (snd ?run) = ?d"
    by (rule tx)
  show ?thesis
  proof (cases "claim_spec now ?c row ?d = Inl ErrClaimNotApplied")
    case True
    then obtain w2 where w2: "db w2 = ?d" "?run = run_state (resolveUnappliedClaim env i) w2"
      "schema_ok (seen env w2)" "parties_ok (seen env w2)" "db_evolves ?d (seen env w2)"
      using run by auto
    from unapplied_linear [OF fine, of w2 i row caller now ?c, unfolded w2(1), OF here(1) w2(3,5) row(1,2) True]
    obtain d where "d = ?d \<or> d = seen env w2 \<and> (\<exists>row. transfer_with_id i d = Some row \<and> Status row = TransferReversed)"
      "claim_abs now ?c caller i d = (fst ?run, d)" "db (snd ?run) = seen env w2"
      unfolding w2(2) by metis
    moreover have "others_run env ?d (seen env w2)" using others_run_seen [of env w2] w2(1) by simp
    ultimately show ?thesis
      using that [of d d] others_run_twice others_run_trans [OF others_run_twice] trips(6)
        db_evolves_trans [OF trips(6) w2(5)] here w2(3,4) by auto
  next
    case False
    then have "\<exists>t \<in> set (transfers ?d). trID t = trID row \<and> active_hold ?c t"
      using has_wallet_balance_of [OF row(3)] has_wallet_balance_of [OF row(4)]
      by (auto simp: claim_spec_def split: if_splits)
    then have "Status row \<noteq> TransferReversed"
      using active_row_unique [OF _ row(1), of ?c] here(1) by (auto simp: schema_ok_def active_hold_def)
    moreover have "claim_settle ?d (claim_spec now ?c row ?d) = (fst ?run, db (snd ?run))"
      using run False by (auto simp: claim_settle_def split: sum.splits prod.splits if_splits)
    ultimately show ?thesis
      using that [of ?d "db (snd ?run)"] claim_abs_applied [OF row(1,2)] others_run_twice trips(6) here by simp
  qed
qed

text \<open>On any connection.\<close>

lemma claim_finish_amid:
  assumes "run_state (claim_finish env tr res) w = (out, w')"
  shows "others_run env (db w) (db w')"
    and "res = Inr a \<Longrightarrow> out = Some (Inr a) \<and> db w' = db w"
    and "lost_reply res \<Longrightarrow> out = Some res \<and> db w' = db w"
    and "res = Inl e \<Longrightarrow> parties_ok (seen env w) \<Longrightarrow> out \<noteq> None"
    and "res = Inl e \<Longrightarrow> out = Some (Inr result) \<Longrightarrow> db w' = seen env w \<and>
      (\<exists>row. transfer_with_id (trID tr) (db w') = Some row \<and> Status row = TransferReversed \<and> claim_replay_of row = Some result)"
  using assms claim_replay_of_Some parties_ok_row [of "seen env w" "trID tr"]
  by (fastforce simp: claim_finish_def resolveUnappliedClaim_def run_simps run_state_if lost_reply_def
      dest: lookup_result_InrD split: sum.splits if_splits)+

lemma ClaimBack_amid:
  assumes run: "run_state (ClaimBack env x t caller i) w = (r, w')"
    and env: "clock_mono env" "others_keep Inv env win" and w: "ledger_at Inv env win w" and win: "claimWindow t = win"
  defines "now \<equiv> tx_time env w"
  obtains (unchanged) "others_run env (db w) (db w')" "r \<noteq> None"
      "\<And>res. r = Some (Inr res) \<Longrightarrow> \<exists>row. transfer_with_id i (db w') = Some row \<and> SenderID row = caller \<and>
         Status row = TransferReversed \<and> claim_replay_of row = Some res"
    | (applied) tr res d where "others_run env (db w) d" "ledger_db Inv (cutoff_at env now win) d"
        "transfer_with_id i d = Some tr" "SenderID tr = caller"
        "claim_spec now (cutoff_at env now win) tr d = Inr (res, db w')"
        "r = Some (Inr res) \<or> (\<exists>e. r = Some e \<and> lost_reply e)" "db_evolves (db w) d"
proof (cases "\<exists>tr. lookup_result (pg_link env (tick w)) (transfer_with_id i (seen env w)) = Inr tr \<and>
    SenderID tr = caller \<and> Status tr \<noteq> TransferReversed")
  case False
  note trips = two_trips [OF env w]
  have "parties_ok (seen env w)" using trips(2) by (simp add: ledger_db_def)
  then have "db w' = seen env w \<and> r \<noteq> None \<and> (\<forall>res. r = Some (Inr res) \<longrightarrow>
      (\<exists>row. transfer_with_id i (seen env w) = Some row \<and> SenderID row = caller \<and> Status row = TransferReversed \<and>
         claim_replay_of row = Some res))"
    using run False claim_replay_of_Some parties_ok_row [of "seen env w"]
    by (cases "lookup_result (pg_link env (tick w)) (transfer_with_id i (seen env w))")
      (fastforce simp: ClaimBack_def run_simps run_state_if dest: lookup_result_InrD split: if_splits)+
  then show ?thesis using unchanged by auto
next
  case True
  then obtain tr where tr: "lookup_result (pg_link env (tick w)) (transfer_with_id i (seen env w)) = Inr tr"
    "SenderID tr = caller" "Status tr \<noteq> TransferReversed" by blast
  then have look: "transfer_with_id i (seen env w) = Some tr" by (auto dest: lookup_result_InrD)
  let ?w1 = "after_read env w" and ?c = "cutoff_at env now win"
  let ?d = "seen env ?w1"
  note trips = two_trips [OF env w, folded now_def]
  have ok0: "schema_ok (seen env w)" and ok: "schema_ok ?d" using trips(2,3) by (simp_all add: ledger_db_def)
  obtain row where row: "transfer_with_id i ?d = Some row" "same_columns tr row"
    using evolves_id [OF trips(5) ok0 ok look] by blast
  have id: "trID tr = i" and amt: "0 < sint (AmountPaise tr)"
    using look ok0 by (auto simp: transfer_with_id_Some schema_ok_def transfers_ok_def)
  obtain res w2 where tx: "run_state (WithTx env (claim_body x t tr)) ?w1 = (res, w2)" by force
  have fin: "run_state (claim_finish env tr res) w2 = (r, w')"
    using run tr tx by (simp add: ClaimBack_def run_simps)
  note amid = claim_finish_amid [OF fin]
  have applied_case: ?thesis
    if body: "exec_tx env (pg_clock env (tick ?w1)) (claim_body x t tr) (after_read env ?w1) = (Inr a, w3)"
      and d': "db w2 = db w3" and out: "res = Inr a \<or> lost_reply res" for a w3
  proof -
    have "pg_clock env (tick ?w1) = now" by (simp add: now_def tx_time_def)
    then have "claim_spec now ?c tr ?d = Inr (a, db w3)"
      using claim_body_ok [OF body _ amt] ok win by auto
    then have "claim_spec now ?c row ?d = Inr (a, db w')"
      using claim_spec_columns [OF row(2)] amid(2,3) out d' by auto
    moreover have "r = Some (Inr a) \<or> (\<exists>e. r = Some e \<and> lost_reply e)" using amid(2) [of a] amid(3) out by auto
    ultimately show ?thesis
      using applied [OF others_run_twice trips(3) row(1)] row(2) tr(2) trips(6) by (simp add: same_columns_def)
  qed
  from tx show ?thesis
  proof (cases rule: run_WithTx_cases)
    case (rolled_back err)
    note later = after_rollback [OF env w tx rolled_back(2)]
    obtain row2 where row2: "transfer_with_id i (seen env w2) = Some row2" "same_columns row row2"
      using evolves_id [OF later(3) ok later(1) row(1)] by blast
    have "others_run env (db w) (db w')"
      using others_run_trans [OF others_run_twice [of env w] amid(1) [unfolded rolled_back(2)]] .
    then show ?thesis
    proof (rule unchanged)
      show "r \<noteq> None" by (rule amid(4) [OF rolled_back(1) later(2)])
      fix res assume "r = Some (Inr res)"
      from amid(5) [OF rolled_back(1) this] show "\<exists>row. transfer_with_id i (db w') = Some row \<and> SenderID row = caller \<and>
          Status row = TransferReversed \<and> claim_replay_of row = Some res"
        using id row2 row(2) tr(2) by (auto simp: same_columns_def)
    qed
  next
    case (committed a w3)
    then show ?thesis using applied_case by blast
  next
    case (commit_reply_lost a w3 m)
    then show ?thesis using applied_case [of a w3] by (auto simp: lost_reply_def)
  qed
qed

text \<open>A reversed row is final, so a claim of it is answered from it.\<close>

lemma ClaimBack_reversed_amid:
  assumes fine: "fault_free env" and env: "others_keep Inv env win" and w: "ledger_at Inv env win w"
    and row: "transfer_with_id i (db w) = Some row" "SenderID row = caller" "Status row = TransferReversed"
  shows "fst (run_state (ClaimBack env x t caller i) w) = map_option Inr (claim_replay_of row)"
    and "others_run env (db w) (db (snd (run_state (ClaimBack env x t caller i) w)))"
proof -
  have ok: "schema_ok (db w)" using w by (simp add: ledger_at_def ledger_db_def)
  from seen_ledger [OF env w] have "schema_ok (seen env w)" "db_evolves (db w) (seen env w)"
    by (simp_all add: ledger_db_def)
  from evolves_id [OF this(2) ok this(1) row(1)] have "transfer_with_id i (seen env w) = Some row" using row(3) by metis
  then show "fst (run_state (ClaimBack env x t caller i) w) = map_option Inr (claim_replay_of row)"
    "others_run env (db w) (db (snd (run_state (ClaimBack env x t caller i) w)))"
    using fine row(2,3) by (auto simp: ClaimBack_def run_simps)
qed

lemma ClaimBack_retry_amid:
  assumes first: "run_state (ClaimBack env x t caller i) w = (r, w1)"
    and env: "clock_mono env" "others_keep Inv env win" and w: "ledger_at Inv env win w" and win: "claimWindow t = win"
    and env2: "fault_free env2" "others_keep Inv env2 win" and w2: "ledger_at Inv env2 win w2"
    and later: "db_evolves (db w1) (db w2)"
  defines "again \<equiv> run_state (ClaimBack env2 x t caller i) w2"
  obtains (failed) e where "r = Some (Inl e)" "others_run env (db w) (db w1)"
    | (once) res where "r = Some (Inr res) \<or> (\<exists>e. r = Some e \<and> lost_reply e)"
        "fst again = Some (Inr (res\<lparr>cReplayed := True\<rparr>))" "others_run env2 (db w2) (db (snd again))"
        "cReplayed res \<or> (\<exists>tr d. others_run env (db w) d \<and> transfer_with_id i d = Some tr \<and> SenderID tr = caller \<and>
           claim_spec (tx_time env w) (cutoff_at env (tx_time env w) win) tr d = Inr (res, db w1))"
proof -
  have ok2: "schema_ok (db w2)" using w2 by (simp add: ledger_at_def ledger_db_def)
  have ok1: "schema_ok (db w1)"
    using keepsD [OF keeps_ClaimBack [OF env win] w] first by (metis ledger_at_def ledger_db_def snd_conv)
  have replay: "fst again = map_option Inr (claim_replay_of row) \<and> others_run env2 (db w2) (db (snd again))"
    if row: "transfer_with_id i (db w1) = Some row" "SenderID row = caller" "Status row = TransferReversed" for row
  proof -
    from evolves_id [OF later ok1 ok2 row(1)] have "transfer_with_id i (db w2) = Some row" using row(3) by metis
    from ClaimBack_reversed_amid [OF env2 w2 this row(2,3)] show ?thesis by (simp add: again_def)
  qed
  from first env w win show ?thesis
  proof (cases rule: ClaimBack_amid)
    case unchanged
    show ?thesis
    proof (cases "\<exists>res. r = Some (Inr res)")
      case True
      then obtain res row where res: "r = Some (Inr res)" and row: "transfer_with_id i (db w1) = Some row"
        "SenderID row = caller" "Status row = TransferReversed" "claim_replay_of row = Some res"
        using unchanged(3) by blast
      have "cReplayed res" "res\<lparr>cReplayed := True\<rparr> = res"
        using row(4) by (auto simp: claim_replay_of_def split: option.splits)
      then show ?thesis using once [of res] res replay [OF row(1-3)] row(4) by simp
    next
      case False
      then obtain e where "r = Some (Inl e)" using unchanged(2) by (metis option.exhaust sum.exhaust)
      then show ?thesis using failed unchanged(1) by blast
    qed
  next
    case (applied tr res d)
    then have "transfers_ok d" "transfers_ok (db w1)" using ok1 by (simp_all add: ledger_db_def schema_ok_def)
    from claim_spec_row [OF applied(5) this(1) applied(3) this(2)] obtain tr' where
      tr': "transfer_with_id i (db w1) = Some tr'" "same_columns tr' tr" "Status tr' = TransferReversed"
        "claim_replay_of tr' = Some (res\<lparr>cReplayed := True\<rparr>)" by blast
    have "SenderID tr' = caller" using tr'(2) applied(4) by (simp add: same_columns_def)
    from replay [OF tr'(1) this tr'(3)] have "fst again = Some (Inr (res\<lparr>cReplayed := True\<rparr>))"
      "others_run env2 (db w2) (db (snd again))" using tr'(4) by simp_all
    then show ?thesis using once [of res] applied by blast
  qed
qed

end

section \<open>Keys amid other sessions\<close>

lemma Execute_stored_key_amid:
  assumes env: "fault_free env" "clock_mono env" "others_keep solvent env win" and w: "ledger_at solvent env win w"
    and win: "claimWindow t = win" and seed: "0 \<le> sint (seedPaise t)"
    and old: "transfer_with_key s key (db w) = Some old" and late: "\<not> ends_early s name amount key (db w)"
  shows "fst (run_state (Execute env x t s name amount key) w) =
      (if BodyHash old \<noteq> hashBody name amount then Inl ErrIdempotencyConflict else Inr (replay_of old))"
    and "others_run env (db w) (db (snd (run_state (Execute env x t s name amount key) w)))"
proof -
  let ?run = "run_state (Execute env x t s name amount key) w" and ?c = "cutoff_at env (tx_time env w) win"
  have ok: "schema_ok (db w)" using w by (simp add: ledger_at_def ledger_db_def)
  then have "has_user s (db w)"
    using old by (auto simp: transfer_with_key_Some schema_ok_def transfers_ok_def)
  from solvency.Execute_linear [OF env w win this seed, of x name amount key]
  obtain n d d' where d: "others_run env (db w) d" "ledger_db solvent ?c d" "db_evolves (db w) d"
    and abs: "execute_abs x (seedPaise t) (tx_time env w) ?c (pg_uuid env n) s name amount key d = (fst ?run, d')"
    and d': "others_run env d' (db (snd ?run))"
    by metis
  have okd: "schema_ok d" "parties_ok d" "solvent ?c d" using d(2) by (simp_all add: ledger_db_def)
  obtain old' where old': "transfer_with_key s key d = Some old'" "same_columns old old'"
    using evolves_key [OF d(3) ok okd(1) old] by blast
  have row: "old' \<in> set (transfers d)" "SenderID old' = s" "IdempotencyKey old' = key"
    using old'(1) okd(1) by (simp_all add: transfer_with_key_Some schema_ok_def)
  have "(fst ?run, d') = ((if BodyHash old \<noteq> hashBody name amount then Inl ErrIdempotencyConflict else Inr (replay_of old)), d)"
    using execute_abs_used_key [OF okd(1) solvent_fits [OF okd] row evolves_not_early [OF d(3) okd(1) late]] abs
      replay_of_columns [OF old'(2)] by (simp split: if_splits)
  then show "fst ?run = (if BodyHash old \<noteq> hashBody name amount then Inl ErrIdempotencyConflict else Inr (replay_of old))"
    "others_run env (db w) (db (snd ?run))"
    using d(1) d' others_run_trans by auto
qed

lemma Execute_retry_amid:
  assumes first: "run_state (Execute env x t s name amount key) w = (r, w1)"
    and env: "clock_mono env" "others_keep solvent env win" and w: "ledger_at solvent env win w"
    and win: "claimWindow t = win" and seed: "0 \<le> sint (seedPaise t)"
    and env2: "fault_free env2" "clock_mono env2" "others_keep solvent env2 win" and w2: "ledger_at solvent env2 win w2"
    and later: "db_evolves (db w1) (db w2)"
  defines "again \<equiv> run_state (Execute env2 x t s name amount key) w2"
  obtains (failed) e where "r = Inl e" "others_run env (db w) (db w1)"
    | (once) res where "r = Inr res \<or> lost_reply r" "fst again = Inr (res\<lparr>Replayed := True\<rparr>)"
        "others_run env2 (db w2) (db (snd again))"
        "Replayed res \<or> (\<exists>rcpt n d. others_run env (db w) d \<and> user_named name d = Some rcpt \<and>
           transfer_spec (tx_time env w) (cutoff_at env (tx_time env w) win) (seedPaise t) (sort_ids x [s, uID rcpt])
             (pg_uuid env n) s (uID rcpt) amount key (hashBody name amount) d = Inr (res, db w1))"
proof -
  have ok2: "schema_ok (db w2)" using w2 by (simp add: ledger_at_def ledger_db_def)
  have ok1: "schema_ok (db w1)"
    using keepsD [OF solvency.keeps_Execute [OF env refl seed win] w] first
    by (metis ledger_at_def ledger_db_def snd_conv)
  have replay: "fst again = Inr (replay_of old) \<and> others_run env2 (db w2) (db (snd again))"
    if row: "transfer_with_key s key (db w1) = Some old" and hash: "BodyHash old = hashBody name amount"
      and late: "\<not> ends_early s name amount key (db w1)" for old
  proof -
    obtain old2 where old2: "transfer_with_key s key (db w2) = Some old2" "same_columns old old2"
      using evolves_key [OF later ok1 ok2 row] by blast
    show ?thesis
      using Execute_stored_key_amid [OF env2 w2 win seed old2(1)
          evolves_not_early [OF later ok2 late], of x] replay_of_columns [OF old2(2)] hash
      by (simp add: again_def)
  qed
  from first env w win show ?thesis
  proof (cases rule: solvency.Execute_amid)
    case unchanged
    show ?thesis
    proof (cases r)
      case (Inl e)
      then show ?thesis using failed unchanged(1) by blast
    next
      case (Inr res)
      then obtain old where old: "transfer_with_key s key (db w1) = Some old" "BodyHash old = hashBody name amount"
        "res = replay_of old" "\<not> ends_early s name amount key (db w1)"
        using unchanged(2) by blast
      then show ?thesis
        using once [of res] replay [OF old(1,2,4)] Inr by (simp add: replay_of_def)
    qed
  next
    case (applied rcpt n res d)
    obtain old where old: "old \<in> set (transfers (db w1))" "SenderID old = s" "IdempotencyKey old = key"
      "BodyHash old = hashBody name amount" "replay_of old = res\<lparr>Replayed := True\<rparr>" and us: "users (db w1) = users d"
      using transfer_spec_row [OF applied(5)] by metis
    have "transfer_with_key s key (db w1) = Some old"
      using old ok1 by (simp add: transfer_with_key_Some schema_ok_def)
    moreover have "\<not> ends_early s name amount key (db w1)"
      using applied(7) us by (simp add: ends_early_def user_named_def)
    ultimately have "fst again = Inr (res\<lparr>Replayed := True\<rparr>)" "others_run env2 (db w2) (db (snd again))"
      using replay [of old] old(4,5) by simp_all
    then show ?thesis using once [of res] applied(1,3,5,6) by blast
  qed
qed

end
