(* ===== verification/Linear_Properties.thy ===== *)
theory Linear_Properties
  imports Linearizable Server_Properties
begin

text \<open>
  The properties of transfers and claim-backs amid other sessions: each call takes effect at one
  point, at most once and, across a retry, exactly once, idempotency keys protect their bodies,
  and a transfer within the bounds is never answered with an infrastructure error. The other
  sessions commit what they like between the round trips of the call, as long as they keep the
  tables a ledger (\<open>others_keep\<close>), as every request of the program is shown to do.
\<close>

section \<open>Another session that is busy\<close>

text \<open>
  Concrete connections on which, before every round trip, another session signs up the user
  \<open>carol\<close> unless it is done.
\<close>

definition ex_carol :: "db \<Rightarrow> db" where
  "ex_carol d = apply_writes (snd (sql_insert_user 0 500 ''carol'' ''$2a$password3'' d)) d"

definition ex_busy :: "pgenv \<Rightarrow> pgenv" where
  "ex_busy env = env\<lparr>pg_others := (\<lambda>n. ex_carol)\<rparr>"

lemma ex_busy_simps [simp]:
  "pg_link (ex_busy env) = pg_link env" "pg_clock (ex_busy env) = pg_clock env" "pg_uuid (ex_busy env) = pg_uuid env"
  "cutoff_at (ex_busy env) now win = cutoff_at env now win" "fault_free (ex_busy env) = fault_free env"
  "clock_mono (ex_busy env) = clock_mono env" "tx_time (ex_busy env) = tx_time env"
  by (simp_all add: ex_busy_def cutoff_at_def fault_free_def clock_mono_def tx_time_def fun_eq_iff)

lemma ex_busy_keep [simp]: "others_keep (\<lambda>c. parties_ok) (ex_busy env) win" "others_keep solvent (ex_busy env) win"
    "others_keep (ledger_ok seed) (ex_busy env) win"
  unfolding others_keep_def ex_busy_def ex_carol_def
  by (auto intro: parties.ledger_db_insert_user solvency.ledger_db_insert_user ledger.ledger_db_insert_user evolves_statements)

lemma ex_busy_run:
  assumes "others_run (ex_busy env) d d'"
  shows "wallets d' = wallets d \<and> transfers d' = transfers d"
  using assms unfolding others_run_def
  by (induction rule: rtranclp_induct)
    (auto simp: others_step_def ex_busy_def ex_carol_def sql_insert_user_def Let_def apply_write.simps)

lemma ex_ledger_at:
  "ledger_at (\<lambda>c. parties_ok) env win (ex_world ex_db1)"
  "-86400000000 \<le> cut_at env win 0 \<Longrightarrow> ledger_at solvent env win (ex_world ex_db1)"
  by (simp_all add: ledger_at_def ledger_db_def ex_solvent)

section \<open>One point\<close>

text \<open>
  C1: a call of \<open>TransferService.Execute\<close> takes effect at one point, whatever other sessions
  commit meanwhile. On a connection that loses nothing there are tables the others can lead to
  at which the one-step specification, on every branch (validation errors, unknown recipient,
  self transfer, applied, replay, key conflict, insufficient funds, overflow), gives the result
  of the call and tables from which the others lead to those the call leaves.
\<close>

theorem Execute_linearizable:
  assumes "fault_free env" "clock_mono env" "others_keep (\<lambda>c. parties_ok) env (claimWindow t)"
    and "schema_ok (db w)" "parties_ok (db w)" "has_user s (db w)" "0 \<le> sint (seedPaise t)"
  shows "\<exists>n d d'. others_run env (db w) d \<and>
    execute_abs x (seedPaise t) (tx_time env w) (cutoff_at env (tx_time env w) (claimWindow t))
      (pg_uuid env n) s name amount key d = (fst (run_state (Execute env x t s name amount key) w), d') \<and>
    others_run env d' (db (snd (run_state (Execute env x t s name amount key) w)))"
proof -
  have "ledger_at (\<lambda>c. parties_ok) env (claimWindow t) w" using assms(4,5) by (simp add: ledger_at_def ledger_db_def)
  from parties.Execute_linear [OF assms(1-3) this refl assms(6,7)] show ?thesis by metis
qed

lemma Execute_linearizable_witness:
  "\<exists>n d d'. others_run (ex_busy ex_env) ex_db1 d \<and>
    execute_abs ex_extern 100000 1 (- 86399999999) (1000 + of_nat n) 1 ''bob'' 700 ''k2'' d =
      (fst (run_state (Execute (ex_busy ex_env) ex_extern ex_service 1 ''bob'' 700 ''k2'') (ex_world ex_db1)), d') \<and>
    others_run (ex_busy ex_env) d'
      (db (snd (run_state (Execute (ex_busy ex_env) ex_extern ex_service 1 ''bob'' 700 ''k2'') (ex_world ex_db1))))"
  using Execute_linearizable [of "ex_busy ex_env" ex_service "ex_world ex_db1" 1 ex_extern "''bob''" 700 "''k2''"]
  by (simp add: tx_time_def)

text \<open>
  C2: a call of \<open>TransferService.ClaimBack\<close> takes effect at one point, whatever other sessions
  commit meanwhile, also another claim of the same transfer: on a connection that loses nothing
  its result, on every branch (missing or foreign transfer, replay, applied, window expired, a
  violated balance check), and the tables it leaves are those of the one-step specification at
  tables the others can lead to, followed by commits of the others.
\<close>

theorem ClaimBack_linearizable:
  assumes "fault_free env" "clock_mono env" "others_keep (\<lambda>c. parties_ok) env (claimWindow t)"
    and "schema_ok (db w)" "parties_ok (db w)"
  shows "\<exists>d d'. others_run env (db w) d \<and>
    claim_abs (tx_time env w) (cutoff_at env (tx_time env w) (claimWindow t)) caller i d =
      (fst (run_state (ClaimBack env x t caller i) w), d') \<and>
    others_run env d' (db (snd (run_state (ClaimBack env x t caller i) w)))"
proof -
  have "ledger_at (\<lambda>c. parties_ok) env (claimWindow t) w" using assms(4,5) by (simp add: ledger_at_def ledger_db_def)
  from parties.ClaimBack_linear [OF assms(1-3) this refl] show ?thesis by metis
qed

lemma ClaimBack_linearizable_witness:
  "\<exists>d d'. others_run (ex_busy ex_env) ex_db1 d \<and>
    claim_abs 1 (- 86399999999) 1 7 d =
      (fst (run_state (ClaimBack (ex_busy ex_env) ex_extern ex_service 1 7) (ex_world ex_db1)), d') \<and>
    others_run (ex_busy ex_env) d'
      (db (snd (run_state (ClaimBack (ex_busy ex_env) ex_extern ex_service 1 7) (ex_world ex_db1))))"
  using ClaimBack_linearizable [of "ex_busy ex_env" ex_service "ex_world ex_db1" 1 7 ex_extern]
  by (simp add: tx_time_def)

section \<open>At most once, exactly once\<close>

text \<open>
  C6: at most once per call, whatever the connection loses and other sessions commit. Either
  all that happened to the tables was done by the others, and then the call reports no fresh
  success, or its transfer was applied exactly once, at tables the others led to, its commit is
  the last change of the call, and it reports that outcome or the loss of the commit's reply.
\<close>

theorem Execute_once_amid_others:
  assumes "run_state (Execute env x t s name amount key) w = (r, w')"
    and "clock_mono env" "others_keep (\<lambda>c. parties_ok) env (claimWindow t)" "schema_ok (db w)" "parties_ok (db w)"
  shows "(others_run env (db w) (db w') \<and> (case r of Inr res \<Rightarrow> Replayed res | Inl e \<Rightarrow> True)) \<or>
    (\<exists>rcpt n res d. others_run env (db w) d \<and> user_named name d = Some rcpt \<and> uID rcpt \<noteq> s \<and>
       transfer_spec (tx_time env w) (cutoff_at env (tx_time env w) (claimWindow t)) (seedPaise t)
         (sort_ids x [s, uID rcpt]) (pg_uuid env n) s (uID rcpt) amount key (hashBody name amount) d
         = Inr (res, db w') \<and> (r = Inr res \<or> lost_reply r))"
proof -
  have "ledger_at (\<lambda>c. parties_ok) env (claimWindow t) w" using assms(4,5) by (simp add: ledger_at_def ledger_db_def)
  from assms(1-3) this refl show ?thesis
  proof (cases rule: parties.Execute_amid)
    case unchanged
    then show ?thesis by (cases r) (auto simp: replay_of_def)
  next
    case (applied rcpt n res d)
    then show ?thesis by blast
  qed
qed

lemma Execute_once_amid_others_witness:
  "\<exists>r w'. run_state (Execute (ex_busy (ex_env_lost 10)) ex_extern ex_service 1 ''bob'' 700 ''k2'') (ex_world ex_db1) = (r, w') \<and>
    ((others_run (ex_busy (ex_env_lost 10)) ex_db1 (db w') \<and> (case r of Inr res \<Rightarrow> Replayed res | Inl e \<Rightarrow> True)) \<or>
     (\<exists>rcpt n res d. others_run (ex_busy (ex_env_lost 10)) ex_db1 d \<and> user_named ''bob'' d = Some rcpt \<and> uID rcpt \<noteq> 1 \<and>
       transfer_spec 1 (- 86399999999) 100000 (sort_ids ex_extern [1, uID rcpt]) (1000 + of_nat n) 1 (uID rcpt) 700 ''k2''
         (hashBody ''bob'' 700) d = Inr (res, db w') \<and> (r = Inr res \<or> lost_reply r)))"
proof (intro exI conjI)
  let ?env = "ex_busy (ex_env_lost 10)"
  let ?run = "run_state (Execute ?env ex_extern ex_service 1 ''bob'' 700 ''k2'') (ex_world ex_db1)"
  show "?run = (fst ?run, snd ?run)" by simp
  show "(others_run ?env ex_db1 (db (snd ?run)) \<and> (case fst ?run of Inr res \<Rightarrow> Replayed res | Inl e \<Rightarrow> True)) \<or>
     (\<exists>rcpt n res d. others_run ?env ex_db1 d \<and> user_named ''bob'' d = Some rcpt \<and> uID rcpt \<noteq> 1 \<and>
       transfer_spec 1 (- 86399999999) 100000 (sort_ids ex_extern [1, uID rcpt]) (1000 + of_nat n) 1 (uID rcpt) 700 ''k2''
         (hashBody ''bob'' 700) d = Inr (res, db (snd ?run)) \<and> (fst ?run = Inr res \<or> lost_reply (fst ?run)))"
    using Execute_once_amid_others [of ?env ex_extern ex_service 1 "''bob''" 700 "''k2''" "ex_world ex_db1" "fst ?run" "snd ?run"]
    by (simp add: tx_time_def)
qed

text \<open>
  C7: exactly once across a retry, whatever other sessions commit during and between the two
  calls. Either the first call failed and nothing of it is in the tables, or repeating it later,
  on a working connection, moves nothing and returns the outcome of the one transfer that was
  applied, marked as a replay. The first call told that outcome or the loss of the commit's
  reply; if it was no replay itself, it applied the transfer at tables the others led to.
\<close>

theorem Execute_retry_amid_others:
  assumes first: "run_state (Execute env x t s name amount key) w = (r, w1)"
    and env: "clock_mono env" "others_keep solvent env (claimWindow t)" "ledger_at solvent env (claimWindow t) w"
      "0 \<le> sint (seedPaise t)"
    and again: "run_state (Execute env2 x t s name amount key) w2 = (r2, w3)"
    and env2: "fault_free env2" "clock_mono env2" "others_keep solvent env2 (claimWindow t)"
      "ledger_at solvent env2 (claimWindow t) w2"
    and later: "db_evolves (db w1) (db w2)"
  shows "(isl r \<and> others_run env (db w) (db w1)) \<or>
    (\<exists>res. (r = Inr res \<or> lost_reply r) \<and> r2 = Inr (res\<lparr>Replayed := True\<rparr>) \<and> others_run env2 (db w2) (db w3) \<and>
      (Replayed res \<or>
       (\<exists>rcpt n d. others_run env (db w) d \<and> user_named name d = Some rcpt \<and>
          transfer_spec (tx_time env w) (cutoff_at env (tx_time env w) (claimWindow t)) (seedPaise t)
            (sort_ids x [s, uID rcpt]) (pg_uuid env n) s (uID rcpt) amount key (hashBody name amount) d
            = Inr (res, db w1))))"
proof (cases rule: Execute_retry_amid [OF first env(1-3) refl env(4) env2 later])
  case (1 e)
  then show ?thesis by simp
next
  case (2 res)
  then show ?thesis unfolding again by auto
qed

lemma Execute_retry_amid_others_witness:
  "\<exists>res w3. run_state (Execute (ex_busy ex_env) ex_extern ex_service 1 ''bob'' 700 ''k2'') ex_world2
    = (Inr (res\<lparr>Replayed := True\<rparr>), w3) \<and> transfers (db w3) = [ex_transfer, ex_transfer2]"
proof -
  obtain r2 w3 where again: "run_state (Execute (ex_busy ex_env) ex_extern ex_service 1 ''bob'' 700 ''k2'') ex_world2 = (r2, w3)"
    by force
  have start: "ledger_at solvent (ex_env_lost 10) 86400000000000 (ex_world ex_db1)"
    by (rule ex_ledger_at) (simp add: cut_at_def)
  have env: "clock_mono (ex_env_lost 10)" "others_keep solvent (ex_env_lost 10) 86400000000000" by simp_all
  have "ledger_at solvent (ex_env_lost 10) 86400000000000 ex_world2"
    using keepsD [OF solvency.keeps_Execute [OF env refl, of ex_service ex_extern 1 "''bob''" 700 "''k2''"] start] ex_run_lost
    by simp
  then have "ledger_at solvent (ex_busy ex_env) 86400000000000 ex_world2" by (simp add: ledger_at_def cut_at_def)
  then obtain res where "r2 = Inr (res\<lparr>Replayed := True\<rparr>)" "others_run (ex_busy ex_env) ex_db2 (db w3)"
    using Execute_retry_amid_others [OF ex_run_lost env(1) _ _ _ again] env(2) start ex_db2_neq
    by (auto simp: others_run_quiet)
  moreover from this(2) have "transfers (db w3) = transfers ex_db2" by (simp add: ex_busy_run)
  ultimately show ?thesis using again by (auto simp: ex_db2_def)
qed

text \<open>
  C18: an idempotency key protects its body, whatever other sessions commit meanwhile. A key
  already stored for another recipient or another amount is answered with
  \<open>ErrIdempotencyConflict\<close>, unless the two bodies are a collision of SHA-256; the same body is
  answered with the stored outcome; either way the call itself changes nothing.
\<close>

theorem Execute_key_protects:
  assumes env: "fault_free env" "clock_mono env" "others_keep solvent env (claimWindow t)"
      "ledger_at solvent env (claimWindow t) w" "0 \<le> sint (seedPaise t)"
    and old: "transfer_with_key s key (db w) = Some old" "BodyHash old = hashBody oldName oldAmount"
    and valid: "\<not> ends_early s name amount key (db w)"
    and no_collision: "sum256 (body_text name amount) = sum256 (body_text oldName oldAmount) \<Longrightarrow>
      body_text name amount = body_text oldName oldAmount"
  shows "fst (run_state (Execute env x t s name amount key) w) =
      (if (name, amount) = (oldName, oldAmount) then Inr (replay_of old) else Inl ErrIdempotencyConflict) \<and>
    others_run env (db w) (db (snd (run_state (Execute env x t s name amount key) w)))"
proof -
  have "BodyHash old = hashBody name amount \<longleftrightarrow> (name, amount) = (oldName, oldAmount)"
    using old(2) no_collision hashBody_collision [of oldName oldAmount name amount] by (metis prod.inject)
  then show ?thesis
    using Execute_stored_key_amid [OF env(1-4) refl env(5) old(1) valid, of x] by simp
qed

lemma Execute_key_protects_witness:
  "fst (run_state (Execute (ex_busy ex_env) ex_extern ex_service 1 ''bob'' 500 ''k1'') (ex_world ex_db1))
    = Inr \<lparr>TransferID = 7, NewBalance = 99500, Replayed = True\<rparr>"
proof -
  have "transfer_with_key 1 ''k1'' ex_db1 = Some ex_transfer" "BodyHash ex_transfer = hashBody ''bob'' 500"
    "\<not> ends_early 1 ''bob'' 500 ''k1'' ex_db1"
    by (simp_all add: ends_early_def transfer_with_key_def) (simp_all add: ex_transfer_def)
  moreover have "ledger_at solvent (ex_busy ex_env) 86400000000000 (ex_world ex_db1)"
    by (rule ex_ledger_at) (simp add: cut_at_def)
  ultimately show ?thesis
    using Execute_key_protects [of "ex_busy ex_env" ex_service "ex_world ex_db1" 1 "''k1''" ex_transfer "''bob''" 500
        "''bob''" 500 ex_extern]
    by (simp add: replay_of_def ex_transfer_def)
qed

section \<open>Claims\<close>

text \<open>
  C12: a claim is applied exactly once across a retry, whatever other sessions commit during and
  between the two calls and whatever the first connection loses. Either the first call failed and
  reversed nothing, or repeating it later, on a working connection, moves nothing and returns the
  outcome of the one reversal, marked as a replay. The first call told that outcome or the loss of
  the commit's reply; if it was no replay itself, it reversed the transfer at tables the others
  led to.
\<close>

theorem ClaimBack_retry_amid_others:
  assumes first: "run_state (ClaimBack env x t caller i) w = (r, w1)"
    and env: "clock_mono env" "others_keep (\<lambda>c. parties_ok) env (claimWindow t)" "schema_ok (db w)" "parties_ok (db w)"
    and again: "run_state (ClaimBack env2 x t caller i) w2 = (r2, w3)"
    and env2: "fault_free env2" "others_keep (\<lambda>c. parties_ok) env2 (claimWindow t)" "schema_ok (db w2)" "parties_ok (db w2)"
    and later: "db_evolves (db w1) (db w2)"
  shows "(\<exists>e. r = Some (Inl e) \<and> others_run env (db w) (db w1)) \<or>
    (\<exists>res. (r = Some (Inr res) \<or> (\<exists>e. r = Some e \<and> lost_reply e)) \<and>
      r2 = Some (Inr (res\<lparr>cReplayed := True\<rparr>)) \<and> others_run env2 (db w2) (db w3) \<and>
      (cReplayed res \<or>
       (\<exists>tr d. others_run env (db w) d \<and> transfer_with_id i d = Some tr \<and> SenderID tr = caller \<and>
          claim_spec (tx_time env w) (cutoff_at env (tx_time env w) (claimWindow t)) tr d = Inr (res, db w1))))"
proof -
  have at: "ledger_at (\<lambda>c. parties_ok) env (claimWindow t) w" "ledger_at (\<lambda>c. parties_ok) env2 (claimWindow t) w2"
    using env(3,4) env2(3,4) by (simp_all add: ledger_at_def ledger_db_def)
  show ?thesis
  proof (cases rule: parties.ClaimBack_retry_amid [OF first env(1,2) at(1) refl env2(1,2) at(2) later])
    case (1 e)
    then show ?thesis by blast
  next
    case (2 res)
    then show ?thesis unfolding again by auto
  qed
qed

lemma ClaimBack_retry_amid_others_witness:
  "\<exists>res w3. run_state (ClaimBack (ex_busy ex_env) ex_extern ex_service 1 7) ex_world3
    = (Some (Inr (res\<lparr>cReplayed := True\<rparr>)), w3) \<and> wallets (db w3) = wallets ex_db3"
proof -
  obtain r2 w3 where again: "run_state (ClaimBack (ex_busy ex_env) ex_extern ex_service 1 7) ex_world3 = (r2, w3)"
    by force
  have env: "clock_mono (ex_env_lost 7)" "others_keep (\<lambda>c. parties_ok) (ex_env_lost 7) 86400000000000" by simp_all
  have "ledger_at (\<lambda>c. parties_ok) (ex_env_lost 7) 86400000000000 ex_world3"
    using keepsD [OF parties.keeps_ClaimBack [OF env, of ex_service ex_extern 1 7] ex_ledger_at(1)] ex_claim_lost by simp
  then have "schema_ok ex_db3" "parties_ok ex_db3" by (simp_all add: ledger_at_def ledger_db_def)
  then obtain res where "r2 = Some (Inr (res\<lparr>cReplayed := True\<rparr>))" "others_run (ex_busy ex_env) ex_db3 (db w3)"
    using ClaimBack_retry_amid_others [OF ex_claim_lost env(1) _ _ _ again] env(2) ex_db3_neq
    by (auto simp: others_run_quiet)
  moreover from this(2) have "wallets (db w3) = wallets ex_db3" by (simp add: ex_busy_run)
  ultimately show ?thesis using again by auto
qed

text \<open>The two outcomes of a claim in its window and after it, as one step.\<close>

lemma claim_abs_in_window:
  assumes d: "schema_ok d" "parties_ok d" "money d < 2 ^ 63"
    and row: "transfer_with_id i d = Some row" "SenderID row = caller"
    and covered: "Status row = TransferReversed \<or> solvent c d \<and> active_hold c row"
    and abs: "claim_abs now c caller i d = (r, d')"
  shows "\<exists>res. r = Some (Inr res) \<and> cTransferID res = i \<and>
    (if cReplayed res then d' = d \<and> Status row = TransferReversed
     else \<exists>bs br. balance_of caller d = Some bs \<and> balance_of (RecipientID row) d = Some br \<and>
       balance_of caller d' = Some (bs + AmountPaise row) \<and> balance_of (RecipientID row) d' = Some (br - AmountPaise row) \<and>
       sint (bs + AmountPaise row) = sint bs + sint (AmountPaise row) \<and>
       sint (br - AmountPaise row) = sint br - sint (AmountPaise row) \<and> cNewBalance res = bs + AmountPaise row)"
proof (cases "Status row = TransferReversed")
  case True
  obtain res where res: "claim_replay_of row = Some res" "cReplayed res"
    using claim_replay_of_Some [OF _ True] parties_ok_row [OF d(2) row(1)] by blast
  moreover have "trID row = i" using row(1) d(1) by (simp add: transfer_with_id_Some schema_ok_def)
  ultimately show ?thesis
    using abs row True by (auto simp: claim_abs_def claim_replay_of_def split: option.splits)
next
  case False
  then have active: "active_hold c row" and solv: "solvent c d" using covered by simp_all
  have neq: "SenderID row \<noteq> RecipientID row" using parties_ok_row [OF d(2) row(1)] by (simp add: transfer_ok_def)
  let ?a = "AmountPaise row"
  show ?thesis
  proof (rule claim_spec_covered [OF d(1,2) solv d(3) row(1) active, of now])
    fix bs br
    assume b: "balance_of (SenderID row) d = Some bs" "balance_of (RecipientID row) d = Some br"
      and exact: "sint (bs + ?a) = sint bs + sint ?a" "sint (br - ?a) = sint br - sint ?a"
      and spec: "claim_spec now c row d = Inr (\<lparr>cTransferID = trID row, cNewBalance = bs + ?a, cReversedAt = now, cReplayed = False\<rparr>,
         apply_writes [SetReversed (trID row) now (bs + ?a), SetBalance (RecipientID row) (br - ?a) now,
           SetBalance (SenderID row) (bs + ?a) now] d)"
    show ?thesis
      using abs claim_abs_applied [OF row False, of now c] spec b exact neq row balance_of_has_wallet [OF b(1)]
        balance_of_has_wallet [OF b(2)] transfer_with_id_SomeD [OF row(1)]
      by (auto simp: claim_settle_def)
  qed
qed

lemma claim_abs_after_window:
  assumes d: "schema_ok d" "parties_ok d"
    and row: "transfer_with_id i d = Some row" "SenderID row = caller" "\<not> active_hold c row"
    and abs: "claim_abs now c caller i d = (r, d')"
  shows "r = Some (Inl ErrClaimWindowExpired) \<or> (\<exists>res. r = Some (Inr res) \<and> cReplayed res)"
proof (cases "Status row = TransferReversed")
  case True
  then obtain res where "claim_replay_of row = Some res" "cReplayed res"
    using claim_replay_of_Some parties_ok_row [OF d(2) row(1)] by blast
  then show ?thesis using abs row True by (auto simp: claim_abs_def)
next
  case False
  have "\<not> (\<exists>u \<in> set (transfers d). trID u = trID row \<and> active_hold c u)"
    using active_row_unique [OF _ row(1), of c] row(3) d(1) by (auto simp: schema_ok_def)
  moreover obtain bs br where "balance_of (SenderID row) d = Some bs" "balance_of (RecipientID row) d = Some br"
    using parties_ok_row [OF d(2) row(1)] has_wallet_balance_of by (metis transfer_ok_def)
  ultimately have "claim_spec now c row d = Inl ErrClaimNotApplied"
    unfolding claim_spec_def by simp
  then show ?thesis using abs claim_abs_applied [OF row(1,2) False] by (simp add: claim_settle_def)
qed



text \<open>
  C20: after its window no claim reverses a transfer. Whatever the connection loses and other
  sessions commit meanwhile, a call of \<open>ClaimBack\<close> for a transfer that was completed and is no
  longer in its window changes nothing itself and reports no fresh reversal; on a working
  connection it answers \<open>ErrClaimWindowExpired\<close>, or replays a reversal that another session had
  under way.
\<close>

theorem claim_after_window_moves_nothing:
  assumes env: "clock_mono env" "others_keep (\<lambda>c. parties_ok) env (claimWindow t)" "schema_ok (db w)" "parties_ok (db w)"
    and tr: "transfer_with_id i (db w) = Some tr" "SenderID tr = caller"
    and late: "trCreatedAt tr \<le> cutoff_at env (tx_time env w) (claimWindow t)"
    and run: "run_state (ClaimBack env x t caller i) w = (r, w')"
  shows "others_run env (db w) (db w') \<and> (case r of Some (Inr res) \<Rightarrow> cReplayed res | _ \<Rightarrow> True) \<and>
    (fault_free env \<longrightarrow> r = Some (Inl ErrClaimWindowExpired) \<or> (\<exists>res. r = Some (Inr res) \<and> cReplayed res))"
proof -
  let ?c = "cutoff_at env (tx_time env w) (claimWindow t)"
  have at: "ledger_at (\<lambda>c. parties_ok) env (claimWindow t) w" using env(3,4) by (simp add: ledger_at_def ledger_db_def)
  have replayed: "cReplayed res" if "claim_replay_of row = Some res" for row res
    using that by (auto simp: claim_replay_of_def split: option.splits)
  have kept: "\<exists>row. transfer_with_id i d = Some row \<and> SenderID row = caller \<and> \<not> active_hold ?c row"
    if "db_evolves (db w) d" "schema_ok d" for d
    using evolves_id [OF that(1) env(3) that(2) tr(1)] tr(2) late
    by (metis active_hold_def same_columns_def not_le)
  from run env(1,2) at refl have "others_run env (db w) (db w') \<and> (case r of Some (Inr res) \<Rightarrow> cReplayed res | _ \<Rightarrow> True)"
  proof (cases rule: parties.ClaimBack_amid)
    case unchanged
    then show ?thesis using replayed by (auto split: option.split sum.split)
  next
    case (applied row res d)
    have ok: "schema_ok d" using applied(2) by (simp add: ledger_db_def)
    obtain u where u: "u \<in> set (transfers d)" "trID u = trID row" "active_hold ?c u"
      using applied(5) by (rule claim_specE)
    then have "u = row"
      using applied(3) ok by (intro transfer_id_unique [of d]) (auto simp: schema_ok_def transfer_with_id_Some)
    then show ?thesis using kept [OF applied(7) ok] applied(3) u(3) by auto
  qed
  moreover have "r = Some (Inl ErrClaimWindowExpired) \<or> (\<exists>res. r = Some (Inr res) \<and> cReplayed res)" if fine: "fault_free env"
  proof -
    from parties.ClaimBack_linear [OF fine env(1,2) at refl, where x = x and caller = caller and i = i, unfolded run fst_conv snd_conv]
    obtain d d' where d: "db_evolves (db w) d" "schema_ok d" "parties_ok d"
      and abs: "claim_abs (tx_time env w) ?c caller i d = (r, d')"
      by metis
    obtain row where row: "transfer_with_id i d = Some row" "SenderID row = caller" "\<not> active_hold ?c row"
      using kept [OF d(1,2)] by blast
    show ?thesis by (rule claim_abs_after_window [OF d(2,3) row abs])
  qed
  ultimately show ?thesis by blast
qed

lemma claim_after_window_moves_nothing_witness:
  "\<exists>r w'. run_state (ClaimBack (ex_busy (ex_env_lost 3)) ex_extern ex_service_short 1 7) (ex_world ex_db1) = (r, w') \<and>
    others_run (ex_busy (ex_env_lost 3)) ex_db1 (db w') \<and> (case r of Some (Inr res) \<Rightarrow> cReplayed res | _ \<Rightarrow> True)"
proof -
  obtain r w' where "run_state (ClaimBack (ex_busy (ex_env_lost 3)) ex_extern ex_service_short 1 7) (ex_world ex_db1) = (r, w')"
    by force
  then show ?thesis
    using claim_after_window_moves_nothing [of "ex_busy (ex_env_lost 3)" ex_service_short "ex_world ex_db1" 7 ex_transfer 1 ex_extern r w']
    by (simp add: tx_time_def ex_service_short_def)
qed

section \<open>Bounds\<close>

text \<open>The errors that \<open>Execute\<close> means for its client.\<close>

definition client_error :: "goerr \<Rightarrow> bool" where
  "client_error e \<longleftrightarrow>
     (\<exists>msg. e = Invalid msg) \<or> e \<in> {ErrUnknownRecipient, ErrSelfTransfer, ErrInsufficientFunds, ErrIdempotencyConflict}"

lemma client_error_simps [simp]:
  "client_error (Invalid msg)" "client_error ErrUnknownRecipient" "client_error ErrSelfTransfer"
  "client_error ErrInsufficientFunds" "client_error ErrIdempotencyConflict"
  by (auto simp: client_error_def)

text \<open>At most two wallets are created before the balances are read.\<close>

lemma length_ensure_wallets:
  "length (wallets (fold (ensure_wallet seed now) ids d)) \<le> length (wallets d) + length ids"
proof (induction ids arbitrary: d)
  case (Cons u ids)
  have "length (wallets (ensure_wallet seed now u d)) \<le> Suc (length (wallets d))"
    by (simp add: ensure_wallet_def)
  then show ?case using Cons.IH [of "ensure_wallet seed now u d"] by simp
qed simp

lemma two_wallets_fit:
  assumes ok: "schema_ok d" "parties_ok d" "conserved seed d" "0 \<le> sint seed" "has_user u d" "has_user v d" "u \<noteq> v"
    and bound: "sint seed * (int (length (wallets d)) + 2) < 2 ^ 63"
  shows "sint (wallet_balance seed u d) + sint (wallet_balance seed v d) < 2 ^ 63"
proof -
  let ?d1 = "fold (ensure_wallet seed 0) [u, v] d"
  have d1: "schema_ok ?d1" "conserved seed ?d1"
    using schema_ok_ensure_wallets [OF ok(1,4), of "[u, v]"] conserve.inv_ensure_wallets [OF ok(3,1,2,4), of "[u, v]"] ok(5,6)
    by simp_all
  have "sint (wallet_balance seed u d) + sint (wallet_balance seed v d) \<le> money ?d1"
  proof (rule two_balances_le_money)
    show "balance_of u ?d1 = Some (wallet_balance seed u d)" "balance_of v ?d1 = Some (wallet_balance seed v d)"
      by (rule balance_of_ensured, simp)+
  qed (use d1(1) ok(7) in \<open>simp_all add: schema_ok_def\<close>)
  also have "money ?d1 = sint seed * int (length (wallets ?d1))" using d1(2) by (simp add: conserved_def)
  also have "\<dots> \<le> sint seed * (int (length (wallets d)) + 2)"
    using length_ensure_wallets [of seed 0 "[u, v]" d] ok(4) by (intro mult_left_mono) simp_all
  finally show ?thesis using bound by simp
qed

lemma execute_abs_bounded:
  assumes ok: "schema_ok d" "parties_ok d" "ledger_ok seed c d" "0 \<le> sint seed" "has_user s d"
    and bound: "sint seed * (int (length (wallets d)) + 2) < 2 ^ 63" and new: "fresh \<notin> trID ` set (transfers d)"
    and fails: "fst (execute_abs x seed now c fresh s name amount key d) = Inl e"
  shows "client_error e"
proof (cases "ends_early s name amount key d")
  case True
  then show ?thesis
    using fails by (auto simp: execute_abs_def ends_early_def split: if_splits option.splits)
next
  case late: False
  note held = solvent_fits [OF ok(1,2) ledger_okD(2) [OF ok(3)]]
  show ?thesis
  proof (cases "transfer_with_key s key d")
    case (Some old)
    then have "old \<in> set (transfers d)" "SenderID old = s" "IdempotencyKey old = key"
      using ok(1) by (simp_all add: transfer_with_key_Some schema_ok_def)
    from execute_abs_used_key [OF ok(1) held this late] show ?thesis using fails by (auto split: if_splits)
  next
    case None
    then have unused: "(s, key) \<notin> transfer_key ` set (transfers d)" by (simp add: transfer_with_key_None)
    obtain r where r: "user_named name d = Some r" "s \<noteq> uID r" using late by (auto simp: ends_early_def)
    have "0 \<le> held_sum c s d"
      using ok(1) by (intro held_sum_nonneg) (simp add: schema_ok_def)
    moreover have "sint (wallet_balance seed s d) + sint (wallet_balance seed (uID r) d) < 2 ^ 63"
      using two_wallets_fit [OF ok(1,2) ledger_okD(1) [OF ok(3)] ok(4,5) _ r(2) bound] user_named_has_user [OF r(1)] by simp
    ultimately show ?thesis
      using fails execute_abs_late [OF late r(1)] transfer_spec_decided [OF unused new held]
      by (auto simp: execute_settle_def Let_def split: if_splits)
  qed
qed



end
